(* ===== verification/Prelude.thy ===== *)
theory Prelude
  imports Main "HOL-Library.Word"
begin

text \<open>
  Shared ground of the development: the names of the machine types, the result of
  running a piece of C (it returns, exits, waits for the kernel or faults), bounded
  memory accesses, C strings, decimal printing and the generic list lemmas the
  components use.
\<close>

section \<open>Types\<close>

type_synonym u8 = "8 word"
type_synonym u16 = "16 word"
type_synonym u32 = "32 word"
type_synonym u64 = "64 word"
type_synonym size_t = "64 word"

text \<open>The macro \<^verbatim>\<open>BIT\<close> of \<^verbatim>\<open>common.h\<close>.\<close>

definition BIT :: "nat \<Rightarrow> u32" where
  "BIT x = push_bit x 1"

lemma bit_BIT: "bit (BIT x) n \<longleftrightarrow> n = x \<and> x < 32"
  by (auto simp: BIT_def bit_simps)

text \<open>
  Buffers of C type \<^verbatim>\<open>char[]\<close> are lists of HOL characters, which are bytes; buffers of
  \<^verbatim>\<open>u8\<close> are lists of 8-bit words.
\<close>

type_synonym bytes = "char list"

text \<open>The values of \<^verbatim>\<open>errno\<close> the sources test for; any other one is \<open>EOTHER\<close>.\<close>

datatype errno =
  EINTR | EAGAIN | EWOULDBLOCK | EBUSY | EADDRINUSE | ERANGE | EOTHER int

text \<open>
  What running a C function can lead to: it returns a value, it ends the process with a
  status and a diagnostic (\<^verbatim>\<open>exit\<close>, \<^verbatim>\<open>err\<close>, \<^verbatim>\<open>errx\<close>, \<^verbatim>\<open>abort\<close>), it waits for a kernel
  answer that never comes, or it has made an access outside its objects.
\<close>

datatype 'a outcome = Ret 'a | Exit int string | Blocked | Fault

definition bind_out ::
  "'a outcome \<times> 's \<Rightarrow> ('a \<Rightarrow> 's \<Rightarrow> 'b outcome \<times> 's) \<Rightarrow> 'b outcome \<times> 's" where
  "bind_out r f =
     (case r of
        (Ret a, s) \<Rightarrow> f a s
      | (Exit c m, s) \<Rightarrow> (Exit c m, s)
      | (Blocked, s) \<Rightarrow> (Blocked, s)
      | (Fault, s) \<Rightarrow> (Fault, s))"

named_theorems mem_simps \<open>reads and writes of bounded memory\<close>

lemma bind_out_simps [simp]:
  "bind_out (Ret a, s) f = f a s"
  "bind_out (Exit c m, s) f = (Exit c m, s)"
  "bind_out (Blocked, s) f = (Blocked, s)"
  "bind_out (Fault, s) f = (Fault, s)"
  by (simp_all add: bind_out_def)

lemma bind_out_Ret_iff:
  "bind_out r f = (Ret b, t) \<longleftrightarrow> (\<exists>a s. r = (Ret a, s) \<and> f a s = (Ret b, t))"
  by (cases r; cases "fst r") auto

lemma bind_out_Fault_iff:
  "fst (bind_out r f) = Fault \<longleftrightarrow>
     fst r = Fault \<or> (\<exists>a s. r = (Ret a, s) \<and> fst (f a s) = Fault)"
  by (cases r; cases "fst r") auto

lemma bind_out_cong [fundef_cong]:
  assumes "r = r'" and "\<And>a s. r' = (Ret a, s) \<Longrightarrow> f a s = g a s"
  shows "bind_out r f = bind_out r' g"
  using assms by (cases r'; cases "fst r'") auto

section \<open>Bounded memory\<close>

text \<open>
  A write of \<open>xs\<close> at offset \<open>off\<close>, and a read of \<open>n\<close> cells there; both are \<open>None\<close>
  when they leave the object.
\<close>

definition mem_write :: "nat \<Rightarrow> 'a list \<Rightarrow> 'a list \<Rightarrow> 'a list option" where
  "mem_write off xs buf =
     (if off + length xs \<le> length buf
      then Some (take off buf @ xs @ drop (off + length xs) buf) else None)"

definition mem_read :: "nat \<Rightarrow> nat \<Rightarrow> 'a list \<Rightarrow> 'a list option" where
  "mem_read off n buf =
     (if off + n \<le> length buf then Some (take n (drop off buf)) else None)"

lemma mem_write_Some_iff [mem_simps]:
  "mem_write off xs buf = Some b \<longleftrightarrow>
     off + length xs \<le> length buf \<and> b = take off buf @ xs @ drop (off + length xs) buf"
  by (auto simp: mem_write_def)

lemma mem_write_None_iff [mem_simps]:
  "mem_write off xs buf = None \<longleftrightarrow> length buf < off + length xs"
  by (auto simp: mem_write_def)

lemma mem_write_length: "mem_write off xs buf = Some b \<Longrightarrow> length b = length buf"
  by (auto simp: mem_write_def split: if_splits)

lemma mem_read_Some_iff [mem_simps]:
  "mem_read off n buf = Some b \<longleftrightarrow> off + n \<le> length buf \<and> b = take n (drop off buf)"
  by (auto simp: mem_read_def)

lemma mem_read_write_same:
  "mem_write off xs buf = Some b \<Longrightarrow> mem_read off (length xs) b = Some xs"
  by (auto simp: mem_write_def mem_read_def split: if_splits)

lemma mem_read_write_other:
  assumes "mem_write off xs buf = Some b" and "o2 + n \<le> off \<or> off + length xs \<le> o2"
    and "o2 + n \<le> length buf"
  shows "mem_read o2 n b = mem_read o2 n buf"
proof -
  have off: "off + length xs \<le> length buf"
    and b: "b = take off buf @ xs @ drop (off + length xs) buf"
    using assms(1) by (auto simp: mem_write_Some_iff)
  have len: "length b = length buf" using off b by simp
  have "take n (drop o2 b) = take n (drop o2 buf)"
  proof (rule nth_equalityI)
    show "length (take n (drop o2 b)) = length (take n (drop o2 buf))"
      using len by simp
  next
    fix i assume "i < length (take n (drop o2 b))"
    then have i: "i < n" by simp
    have "b ! (o2 + i) = buf ! (o2 + i)"
      using off assms(2,3) i by (auto simp: b nth_append)
    then show "take n (drop o2 b) ! i = take n (drop o2 buf) ! i"
      using i len assms(3) by simp
  qed
  then show ?thesis using assms(3) len by (simp add: mem_read_def)
qed

section \<open>C strings\<close>

abbreviation NUL :: char where "NUL \<equiv> CHR 0x00"

text \<open>\<open>strlen\<close> of a buffer: the position of the first NUL, \<open>None\<close> if there is none.\<close>

fun c_strlen :: "bytes \<Rightarrow> nat option" where
  "c_strlen [] = None"
| "c_strlen (c # cs) = (if c = NUL then Some 0 else map_option Suc (c_strlen cs))"

lemma c_strlen_append_NUL [simp]:
  "NUL \<notin> set s \<Longrightarrow> c_strlen (s @ NUL # t) = Some (length s)"
  by (induction s) auto

lemma c_strlen_SomeD:
  "c_strlen m = Some n \<Longrightarrow> \<exists>s t. m = s @ NUL # t \<and> NUL \<notin> set s \<and> length s = n"
proof (induction m arbitrary: n)
  case Nil
  then show ?case by simp
next
  case (Cons c m)
  show ?case
  proof (cases "c = NUL")
    case True
    with Cons.prems show ?thesis by (intro exI [of _ "[]"] exI [of _ m]) simp
  next
    case False
    with Cons.prems obtain k where k: "c_strlen m = Some k" "n = Suc k" by auto
    from Cons.IH [OF k(1)] obtain s t
      where "m = s @ NUL # t" "NUL \<notin> set s" "length s = k" by blast
    with False k(2) show ?thesis
      by (intro exI [of _ "c # s"] exI [of _ t]) auto
  qed
qed

section \<open>Decimal printing, as \<^verbatim>\<open>%d\<close> and \<^verbatim>\<open>%u\<close> do\<close>

definition digit_char :: "nat \<Rightarrow> char" where
  "digit_char d = char_of (48 + d)"

fun dec_nat :: "nat \<Rightarrow> string" where
  "dec_nat n =
     (if n < 10 then [digit_char n] else dec_nat (n div 10) @ [digit_char (n mod 10)])"

declare dec_nat.simps [simp del]

definition dec_int :: "int \<Rightarrow> string" where
  "dec_int i = (if i < 0 then CHR ''-'' # dec_nat (nat (- i)) else dec_nat (nat i))"

lemma length_dec_nat_le: "n < 10 ^ k \<Longrightarrow> 0 < k \<Longrightarrow> length (dec_nat n) \<le> k"
proof (induction k arbitrary: n)
  case 0
  then show ?case by simp
next
  case (Suc k)
  show ?case
  proof (cases "n < 10")
    case True
    then show ?thesis by (simp add: dec_nat.simps [of n])
  next
    case False
    then have "0 < k" using Suc.prems by (cases k) auto
    moreover have "n div 10 < 10 ^ k" using Suc.prems by (simp add: div_less_iff_less_mult)
    ultimately have "length (dec_nat (n div 10)) \<le> k" using Suc.IH by blast
    with False show ?thesis by (simp add: dec_nat.simps [of n])
  qed
qed

lemma length_dec_int_int32:
  assumes "- (2 ^ 31) \<le> i" and "i < 2 ^ 31"
  shows "length (dec_int i) \<le> 11"
proof -
  have "nat \<bar>i\<bar> < 10 ^ 10" using assms by (simp add: nat_less_iff abs_less_iff)
  from length_dec_nat_le [OF this] have "length (dec_nat (nat \<bar>i\<bar>)) \<le> 10" by simp
  then show ?thesis by (auto simp: dec_int_def abs_if split: if_splits)
qed

lemma of_char_digit_char: "d < 10 \<Longrightarrow> (of_char (digit_char d) :: nat) = 48 + d"
  by (simp add: digit_char_def)

lemma digit_char_no_NUL: "d < 10 \<Longrightarrow> digit_char d \<noteq> NUL"
  using of_char_digit_char [of d] by auto

lemma dec_nat_no_NUL: "NUL \<notin> set (dec_nat n)"
proof (induction n rule: dec_nat.induct)
  case (1 n)
  then show ?case
    using digit_char_no_NUL [of n] digit_char_no_NUL [of "n mod 10"]
    by (cases "n < 10") (auto simp: dec_nat.simps [of n])
qed

lemma dec_int_no_NUL: "NUL \<notin> set (dec_int i)"
  by (auto simp: dec_int_def dec_nat_no_NUL)

text \<open>Reading the digits back, so that different numbers print differently.\<close>

definition undec :: "string \<Rightarrow> nat" where
  "undec ds = foldl (\<lambda>a c. 10 * a + (of_char c - 48)) 0 ds"

lemma undec_dec_nat: "undec (dec_nat n) = n"
proof (induction n rule: dec_nat.induct)
  case (1 n)
  then show ?case
    using of_char_digit_char [of n] of_char_digit_char [of "n mod 10"]
    by (cases "n < 10") (auto simp: dec_nat.simps [of n] undec_def)
qed

lemma dec_nat_digits: "c \<in> set (dec_nat n) \<Longrightarrow> \<exists>d < 10. c = digit_char d"
proof (induction n rule: dec_nat.induct)
  case (1 n)
  show ?case
  proof (cases "n < 10")
    case True
    then show ?thesis using "1.prems" by (auto simp: dec_nat.simps [of n])
  next
    case False
    have "\<exists>d < 10. digit_char (n mod 10) = digit_char d" by (rule exI [of _ "n mod 10"]) simp
    with False show ?thesis using 1 by (auto simp: dec_nat.simps [of n])
  qed
qed

lemma dec_nat_nonempty: "dec_nat n \<noteq> []"
  by (simp add: dec_nat.simps [of n])

lemma dec_int_inj: "dec_int i = dec_int j \<longleftrightarrow> i = j"
proof
  assume eq: "dec_int i = dec_int j"
  have minus: "dec_nat n \<noteq> CHR ''-'' # r" for n r
  proof
    assume "dec_nat n = CHR ''-'' # r"
    then obtain d where "d < 10" "CHR ''-'' = digit_char d" using dec_nat_digits [of "CHR ''-''" n] by auto
    then have "(of_char CHR ''-'' :: nat) = 48 + d" using of_char_digit_char [of d] by simp
    then show False by simp
  qed
  have nat_inj: "m = n" if "dec_nat m = dec_nat n" for m n using that undec_dec_nat by metis
  show "i = j" using eq minus minus [symmetric] nat_inj by (auto simp: dec_int_def split: if_splits dest: nat_inj)
qed simp

section \<open>Streams of messages\<close>

text \<open>
  What a reader of a byte stream needs of the way single messages are written: an encoding is never
  empty and tells where it ends, for the messages \<open>ok\<close> it is meant for.
\<close>

locale message_code =
  fixes enc :: "'m \<Rightarrow> 'a list"
    and ok :: "'m \<Rightarrow> bool"
  assumes enc_unique: "enc a @ s = enc b @ t \<Longrightarrow> ok a \<Longrightarrow> ok b \<Longrightarrow> a = b \<and> s = t"
    and enc_nonempty: "enc a \<noteq> []"
begin

text \<open>A stream is a prefix of another only if its messages are.\<close>

lemma stream_prefix:
  "concat (map enc as) @ r = concat (map enc bs) \<Longrightarrow> list_all ok as \<Longrightarrow> list_all ok bs \<Longrightarrow>
   \<exists>cs. bs = as @ cs"
proof (induction as arbitrary: bs)
  case (Cons a as)
  then obtain b bs' where bs: "bs = b # bs'" using enc_nonempty [of a] by (cases bs) auto
  have "enc a @ (concat (map enc as) @ r) = enc b @ concat (map enc bs')"
    using Cons.prems(1) bs by simp
  from enc_unique [OF this] Cons.prems(2,3) bs Cons.IH [of bs'] show ?case by auto
qed simp

lemma stream_inj:
  assumes "concat (map enc as) = concat (map enc bs)" and "list_all ok as" and "list_all ok bs"
  shows "as = bs"
proof -
  have "concat (map enc as) @ [] = concat (map enc bs)" using assms(1) by simp
  from stream_prefix [OF this assms(2,3)] obtain cs where cs: "bs = as @ cs" by blast
  then have "concat (map enc cs) = []" using assms(1) by simp
  then have "cs = []" using enc_nonempty by (cases cs) auto
  with cs show ?thesis by simp
qed

end

end
