(* ===== verification/Bytes.thy ===== *)
theory Bytes
  imports Prelude
begin

text \<open>
  The byte-order helpers of \<^verbatim>\<open>src/src/wpa_ctrl/common.h\<close>: the accessors
  \<^verbatim>\<open>WPA_GET_*\<close> and \<^verbatim>\<open>WPA_PUT_*\<close> for unaligned big- and little-endian values, the byte
  swaps and the host-order macros, and the two Ethernet address tests. C promotes a
  \<^verbatim>\<open>u8\<close> or \<^verbatim>\<open>u16\<close> operand to \<^verbatim>\<open>int\<close>, so shifts on them are made at 32 bits; storing to
  a \<^verbatim>\<open>u8\<close> keeps the low eight bits. An accessor on an array too short for it is \<open>None\<close>.
\<close>

unbundle bit_operations_syntax

section \<open>Accessors\<close>

definition WPA_GET_BE16 :: "u8 list \<Rightarrow> u16 option" where
  "WPA_GET_BE16 a =
     (if length a < 2 then None
      else Some (ucast (push_bit 8 (ucast (a ! 0) :: u32) OR ucast (a ! 1))))"

definition WPA_PUT_BE16 :: "u8 list \<Rightarrow> u16 \<Rightarrow> u8 list option" where
  "WPA_PUT_BE16 a val = mem_write 0 [ucast (drop_bit 8 val), ucast (val AND 0xff)] a"

definition WPA_GET_LE16 :: "u8 list \<Rightarrow> u16 option" where
  "WPA_GET_LE16 a =
     (if length a < 2 then None
      else Some (ucast (push_bit 8 (ucast (a ! 1) :: u32) OR ucast (a ! 0))))"

definition WPA_PUT_LE16 :: "u8 list \<Rightarrow> u16 \<Rightarrow> u8 list option" where
  "WPA_PUT_LE16 a val = mem_write 0 [ucast (val AND 0xff), ucast (drop_bit 8 val)] a"

definition WPA_GET_BE24 :: "u8 list \<Rightarrow> u32 option" where
  "WPA_GET_BE24 a =
     (if length a < 3 then None
      else Some (push_bit 16 (ucast (a ! 0)) OR push_bit 8 (ucast (a ! 1)) OR ucast (a ! 2)))"

definition WPA_PUT_BE24 :: "u8 list \<Rightarrow> u32 \<Rightarrow> u8 list option" where
  "WPA_PUT_BE24 a val =
     mem_write 0 [ucast (drop_bit 16 val AND 0xff), ucast (drop_bit 8 val AND 0xff),
                  ucast (val AND 0xff)] a"

definition WPA_GET_BE32 :: "u8 list \<Rightarrow> u32 option" where
  "WPA_GET_BE32 a =
     (if length a < 4 then None
      else Some (push_bit 24 (ucast (a ! 0)) OR push_bit 16 (ucast (a ! 1)) OR
                 push_bit 8 (ucast (a ! 2)) OR ucast (a ! 3)))"

definition WPA_PUT_BE32 :: "u8 list \<Rightarrow> u32 \<Rightarrow> u8 list option" where
  "WPA_PUT_BE32 a val =
     mem_write 0 [ucast (drop_bit 24 val AND 0xff), ucast (drop_bit 16 val AND 0xff),
                  ucast (drop_bit 8 val AND 0xff), ucast (val AND 0xff)] a"

definition WPA_GET_LE32 :: "u8 list \<Rightarrow> u32 option" where
  "WPA_GET_LE32 a =
     (if length a < 4 then None
      else Some (push_bit 24 (ucast (a ! 3)) OR push_bit 16 (ucast (a ! 2)) OR
                 push_bit 8 (ucast (a ! 1)) OR ucast (a ! 0)))"

definition WPA_PUT_LE32 :: "u8 list \<Rightarrow> u32 \<Rightarrow> u8 list option" where
  "WPA_PUT_LE32 a val =
     mem_write 0 [ucast (val AND 0xff), ucast (drop_bit 8 val AND 0xff),
                  ucast (drop_bit 16 val AND 0xff), ucast (drop_bit 24 val AND 0xff)] a"

definition WPA_GET_BE64 :: "u8 list \<Rightarrow> u64 option" where
  "WPA_GET_BE64 a =
     (if length a < 8 then None
      else Some (push_bit 56 (ucast (a ! 0)) OR push_bit 48 (ucast (a ! 1)) OR
                 push_bit 40 (ucast (a ! 2)) OR push_bit 32 (ucast (a ! 3)) OR
                 push_bit 24 (ucast (a ! 4)) OR push_bit 16 (ucast (a ! 5)) OR
                 push_bit 8 (ucast (a ! 6)) OR ucast (a ! 7)))"

definition WPA_PUT_BE64 :: "u8 list \<Rightarrow> u64 \<Rightarrow> u8 list option" where
  "WPA_PUT_BE64 a val =
     mem_write 0 [ucast (drop_bit 56 val), ucast (drop_bit 48 val), ucast (drop_bit 40 val),
                  ucast (drop_bit 32 val), ucast (drop_bit 24 val), ucast (drop_bit 16 val),
                  ucast (drop_bit 8 val), ucast (val AND 0xff)] a"

definition WPA_GET_LE64 :: "u8 list \<Rightarrow> u64 option" where
  "WPA_GET_LE64 a =
     (if length a < 8 then None
      else Some (push_bit 56 (ucast (a ! 7)) OR push_bit 48 (ucast (a ! 6)) OR
                 push_bit 40 (ucast (a ! 5)) OR push_bit 32 (ucast (a ! 4)) OR
                 push_bit 24 (ucast (a ! 3)) OR push_bit 16 (ucast (a ! 2)) OR
                 push_bit 8 (ucast (a ! 1)) OR ucast (a ! 0)))"

definition WPA_PUT_LE64 :: "u8 list \<Rightarrow> u64 \<Rightarrow> u8 list option" where
  "WPA_PUT_LE64 a val =
     mem_write 0 [ucast (val AND 0xff), ucast (drop_bit 8 val), ucast (drop_bit 16 val),
                  ucast (drop_bit 24 val), ucast (drop_bit 32 val), ucast (drop_bit 40 val),
                  ucast (drop_bit 48 val), ucast (drop_bit 56 val)] a"

section \<open>Byte swaps and host order\<close>

definition bswap_16 :: "u16 \<Rightarrow> u16" where
  "bswap_16 v = ucast (push_bit 8 (ucast (v AND 0xff) :: u32) OR drop_bit 8 (ucast v))"

definition bswap_32 :: "u32 \<Rightarrow> u32" where
  "bswap_32 v = push_bit 24 (v AND 0xff) OR push_bit 8 (v AND 0xff00) OR
                drop_bit 8 (v AND 0xff0000) OR drop_bit 24 v"

text \<open>The same swaps as the macros for compilers without them write them.\<close>

definition bswap_16_macro :: "u16 \<Rightarrow> u16" where
  "bswap_16_macro a =
     ucast ((push_bit 8 (ucast a :: u32) AND 0xff00) OR (drop_bit 8 (ucast a) AND 0xff))"

definition bswap_32_macro :: "u32 \<Rightarrow> u32" where
  "bswap_32_macro a =
     (push_bit 24 a AND 0xff000000) OR (push_bit 8 a AND 0xff0000) OR
     (drop_bit 8 a AND 0xff00) OR (drop_bit 24 a AND 0xff)"

text \<open>The swaps of the Cygwin and Windows builds.\<close>

definition wpa_swap_16 :: "u16 \<Rightarrow> u16" where
  "wpa_swap_16 v = ucast (push_bit 8 (ucast (v AND 0xff) :: u32) OR drop_bit 8 (ucast v))"

definition wpa_swap_32 :: "u32 \<Rightarrow> u32" where
  "wpa_swap_32 v = push_bit 24 (v AND 0xff) OR push_bit 8 (v AND 0xff00) OR
                   drop_bit 8 (v AND 0xff0000) OR drop_bit 24 v"

datatype byte_order = LITTLE_ENDIAN | BIG_ENDIAN

definition be_to_host16 :: "byte_order \<Rightarrow> u16 \<Rightarrow> u16" where
  "be_to_host16 bo n = (case bo of LITTLE_ENDIAN \<Rightarrow> bswap_16 n | BIG_ENDIAN \<Rightarrow> n)"

definition host_to_be16 :: "byte_order \<Rightarrow> u16 \<Rightarrow> u16" where
  "host_to_be16 bo n = (case bo of LITTLE_ENDIAN \<Rightarrow> bswap_16 n | BIG_ENDIAN \<Rightarrow> n)"

definition be_to_host32 :: "byte_order \<Rightarrow> u32 \<Rightarrow> u32" where
  "be_to_host32 bo n = (case bo of LITTLE_ENDIAN \<Rightarrow> bswap_32 n | BIG_ENDIAN \<Rightarrow> n)"

definition host_to_be32 :: "byte_order \<Rightarrow> u32 \<Rightarrow> u32" where
  "host_to_be32 bo n = (case bo of LITTLE_ENDIAN \<Rightarrow> bswap_32 n | BIG_ENDIAN \<Rightarrow> n)"

definition le_to_host16 :: "byte_order \<Rightarrow> u16 \<Rightarrow> u16" where
  "le_to_host16 bo n = (case bo of LITTLE_ENDIAN \<Rightarrow> n | BIG_ENDIAN \<Rightarrow> bswap_16 n)"

definition host_to_le16 :: "byte_order \<Rightarrow> u16 \<Rightarrow> u16" where
  "host_to_le16 bo n = (case bo of LITTLE_ENDIAN \<Rightarrow> n | BIG_ENDIAN \<Rightarrow> bswap_16 n)"

definition le_to_host32 :: "byte_order \<Rightarrow> u32 \<Rightarrow> u32" where
  "le_to_host32 bo n = (case bo of LITTLE_ENDIAN \<Rightarrow> n | BIG_ENDIAN \<Rightarrow> bswap_32 n)"

definition host_to_le32 :: "byte_order \<Rightarrow> u32 \<Rightarrow> u32" where
  "host_to_le32 bo n = (case bo of LITTLE_ENDIAN \<Rightarrow> n | BIG_ENDIAN \<Rightarrow> bswap_32 n)"

text \<open>
  The 64-bit macros rest on \<^verbatim>\<open>bswap_64\<close> of the C library, which reverses the eight bytes of its
  argument (bswap(3)).
\<close>

definition bswap_64 :: "u64 \<Rightarrow> u64" where
  "bswap_64 v =
     fold (\<lambda>k acc. push_bit 8 acc OR ucast (ucast (drop_bit k v) :: u8)) [0, 8, 16, 24, 32, 40, 48, 56] 0"

definition le_to_host64 :: "byte_order \<Rightarrow> u64 \<Rightarrow> u64" where
  "le_to_host64 bo n = (case bo of LITTLE_ENDIAN \<Rightarrow> n | BIG_ENDIAN \<Rightarrow> bswap_64 n)"

definition host_to_le64 :: "byte_order \<Rightarrow> u64 \<Rightarrow> u64" where
  "host_to_le64 bo n = (case bo of LITTLE_ENDIAN \<Rightarrow> n | BIG_ENDIAN \<Rightarrow> bswap_64 n)"

definition be_to_host64 :: "byte_order \<Rightarrow> u64 \<Rightarrow> u64" where
  "be_to_host64 bo n = (case bo of LITTLE_ENDIAN \<Rightarrow> bswap_64 n | BIG_ENDIAN \<Rightarrow> n)"

definition host_to_be64 :: "byte_order \<Rightarrow> u64 \<Rightarrow> u64" where
  "host_to_be64 bo n = (case bo of LITTLE_ENDIAN \<Rightarrow> bswap_64 n | BIG_ENDIAN \<Rightarrow> n)"

section \<open>Ethernet addresses\<close>

definition is_zero_ether_addr :: "u8 list \<Rightarrow> bool option" where
  "is_zero_ether_addr a =
     (if length a < 6 then None
      else Some (a ! 0 OR a ! 1 OR a ! 2 OR a ! 3 OR a ! 4 OR a ! 5 = 0))"

definition is_broadcast_ether_addr :: "u8 list \<Rightarrow> bool option" where
  "is_broadcast_ether_addr a =
     (if length a < 6 then None
      else Some (a ! 0 AND a ! 1 AND a ! 2 AND a ! 3 AND a ! 4 AND a ! 5 = 0xff))"

section \<open>Shifting bytes in\<close>

text \<open>
  \<open>join8 h b\<close> appends the byte \<open>b\<close> below the bits of \<open>h\<close>. Every accessor is a nest of
  it, and these few lemmas about it carry all the round trips.
\<close>

definition join8 :: "'a::len word \<Rightarrow> u8 \<Rightarrow> 'a word" where
  "join8 h b = push_bit 8 h OR ucast b"

lemma ff_mask: "(0xff :: 'a::len word) = mask 8"
  by (simp add: mask_eq_exp_minus_1)

lemma ucast_and_ff [simp]: "(ucast (x AND 0xff) :: u8) = ucast (x :: 'a::len word)"
  unfolding ff_mask by (rule bit_word_eqI) (auto simp: bit_simps dest: bit_imp_le_length)

lemma not_bit_u8 [simp]: "8 \<le> n \<Longrightarrow> \<not> bit (b :: u8) n"
  using bit_imp_le_length [of b n] by auto

lemma bit_join8: "bit (join8 (h :: 'a::len word) b) n \<longleftrightarrow>
    n < LENGTH('a) \<and> (if n < 8 then bit b n else bit h (n - 8))"
  by (auto simp: join8_def bit_simps)

lemma join8_drop_bit:
  "m = k + 8 \<Longrightarrow> join8 (drop_bit m v) (ucast (drop_bit k v)) = drop_bit k (v :: 'a::len word)"
  by (rule bit_word_eqI) (auto simp: bit_join8 bit_simps)

lemma join8_drop_bit0: "join8 (drop_bit 8 v) (ucast v) = (v :: 'a::len word)"
  using join8_drop_bit [of 8 0 v] by simp

lemma ucast_drop_join8:
  "8 \<le> k \<Longrightarrow> k + 8 \<le> LENGTH('a) \<Longrightarrow>
     (ucast (drop_bit k (join8 (h :: 'a::len word) b)) :: u8) = ucast (drop_bit (k - 8) h)"
  by (rule bit_word_eqI) (auto simp: bit_join8 bit_simps)

lemma ucast_join8: "8 \<le> LENGTH('a) \<Longrightarrow> (ucast (join8 (h :: 'a::len word) b) :: u8) = b"
  by (rule bit_word_eqI) (auto simp: bit_join8 bit_simps)

lemma ucast_ucast_u8 [simp]:
  "8 \<le> LENGTH('a) \<Longrightarrow> (ucast (ucast (b :: u8) :: 'a::len word) :: u8) = b"
  by (rule bit_word_eqI) (auto simp: bit_simps)

text \<open>The accessors on an explicit array, as nests of \<open>join8\<close>.\<close>

lemma join8_nest16:
  "(ucast (push_bit 8 (ucast (x :: u8) :: u32) OR ucast (y :: u8)) :: u16) = join8 (ucast x) y"
  by (rule bit_word_eqI) (auto simp: bit_join8 bit_simps)

lemma get_explicit:
  "WPA_GET_BE16 (x # y # t) = Some (join8 (ucast x) y)"
  "WPA_GET_LE16 (x # y # t) = Some (join8 (ucast y) x)"
  "WPA_GET_BE24 (x # y # z # t) = Some (join8 (join8 (ucast x) y) z)"
  "WPA_GET_BE32 (x # y # z # w # t) = Some (join8 (join8 (join8 (ucast x) y) z) w)"
  "WPA_GET_LE32 (x # y # z # w # t) = Some (join8 (join8 (join8 (ucast w) z) y) x)"
  by (simp_all add: WPA_GET_BE16_def WPA_GET_LE16_def WPA_GET_BE24_def WPA_GET_BE32_def
      WPA_GET_LE32_def join8_nest16)
    (simp_all add: join8_def or.assoc)

lemma get_explicit64:
  "WPA_GET_BE64 (a # b # c # d # e # f # g # h # t) =
     Some (join8 (join8 (join8 (join8 (join8 (join8 (join8 (ucast a) b) c) d) e) f) g) h)"
  "WPA_GET_LE64 (a # b # c # d # e # f # g # h # t) =
     Some (join8 (join8 (join8 (join8 (join8 (join8 (join8 (ucast h) g) f) e) d) c) b) a)"
  by (simp_all add: WPA_GET_BE64_def WPA_GET_LE64_def join8_def or.assoc)

section \<open>The contract of an accessor pair\<close>

text \<open>
  A pair of accessors stores \<open>width\<close> bytes \<open>enc v\<close> at the head of an array and reads them
  back; \<open>canon\<close> is the value that survives (only the low 24 bits for the 24-bit pair, all
  bits otherwise).
\<close>

locale word_codec =
  fixes put :: "u8 list \<Rightarrow> 'w \<Rightarrow> u8 list option"
    and get :: "u8 list \<Rightarrow> 'w option"
    and enc :: "'w \<Rightarrow> u8 list"
    and width :: nat
    and canon :: "'w \<Rightarrow> 'w"
  assumes put_eq: "put a v = mem_write 0 (enc v) a"
    and length_enc: "length (enc v) = width"
    and get_short: "length a < width \<Longrightarrow> get a = None"
    and get_total: "width \<le> length a \<Longrightarrow> \<exists>v. get a = Some v"
    and get_enc: "get (enc v @ t) = Some (canon v)"
    and enc_get: "get a = Some v \<Longrightarrow> enc v = take width a"
begin

lemma put_Some_iff: "put a v = Some b \<longleftrightarrow> width \<le> length a \<and> b = enc v @ drop width a"
  by (auto simp: put_eq mem_simps length_enc)

lemma get_Some_imp: "get a = Some v \<Longrightarrow> width \<le> length a"
  using get_short by (metis not_le option.distinct(1))

lemma get_put: "put a v = Some b \<Longrightarrow> get b = Some (canon v)"
  by (auto simp: put_Some_iff get_enc)

lemma put_get: "get a = Some v \<Longrightarrow> put a v = Some a"
  using get_Some_imp [of a v] enc_get [of a v] by (simp add: put_Some_iff)

lemma canon_get: "get a = Some v \<Longrightarrow> canon v = v"
  using get_put [OF put_get] by simp

lemma put_frame: "put a v = Some b \<Longrightarrow> length b = length a \<and> drop width b = drop width a"
  by (auto simp: put_Some_iff length_enc)

lemma get_prefix: "take width a = take width b \<Longrightarrow> get a = get b"
proof (cases "width \<le> length a")
  case True
  assume eq: "take width a = take width b"
  from get_total [OF True] obtain v where v: "get a = Some v" ..
  have "b = enc v @ drop width b"
    using enc_get [OF v] eq by (metis append_take_drop_id)
  then have "get b = Some (canon v)" by (metis get_enc)
  then show ?thesis using v canon_get [OF v] by simp
next
  case False
  assume eq: "take width a = take width b"
  then have "length b < width"
    using False by (metis length_take min.absorb_iff2 not_le)
  with False show ?thesis by (simp add: get_short)
qed

lemma get_get_append: "width \<le> length a \<Longrightarrow> get (a @ t) = get a"
  by (rule get_prefix) simp

lemma canon_canon: "canon (canon v) = canon v"
  using canon_get [OF get_enc] .

end

text \<open>
  The laws reduce to a pure decoder \<open>dec\<close> on exactly \<open>width\<close> bytes that is inverse to
  \<open>enc\<close>; the interpretations below only give the two functions.
\<close>

lemma word_codecI:
  assumes "\<And>a v. put a v = mem_write 0 (enc v) a"
    and len: "\<And>v. length (enc v) = width"
    and short: "\<And>a. length a < width \<Longrightarrow> get a = None"
    and get: "\<And>bs t. length bs = width \<Longrightarrow> get (bs @ t) = Some (dec bs)"
    and dec_enc: "\<And>v. dec (enc v) = canon v"
    and enc_dec: "\<And>bs. length bs = width \<Longrightarrow> enc (dec bs) = bs"
  shows "word_codec put get enc width canon"
proof
  have get': "get a = Some (dec (take width a))" if "width \<le> length a" for a
    using get [of "take width a" "drop width a"] that by simp
  show "\<exists>v. get a = Some v" if "width \<le> length a" for a using get' [OF that] by simp
  show "get (enc v @ t) = Some (canon v)" for v t using get [OF len] dec_enc by simp
  show "enc v = take width a" if "get a = Some v" for a v
  proof -
    have "width \<le> length a" using that short by (metis not_le option.distinct(1))
    then show ?thesis using get' that enc_dec [of "take width a"] by simp
  qed
qed (use assms in auto)

lemma length_lists:
  "length bs = 2 \<longleftrightarrow> (\<exists>a b. bs = [a, b])"
  "length bs = 3 \<longleftrightarrow> (\<exists>a b c. bs = [a, b, c])"
  "length bs = 4 \<longleftrightarrow> (\<exists>a b c d. bs = [a, b, c, d])"
  "length bs = 8 \<longleftrightarrow> (\<exists>a b c d e f g h. bs = [a, b, c, d, e, f, g, h])"
  by (auto simp: numeral_eq_Suc length_Suc_conv)

lemma ucast_top:
  "LENGTH('a) \<le> m + 8 \<Longrightarrow> ucast (ucast (drop_bit m v) :: u8) = drop_bit m (v :: 'a::len word)"
  by (rule bit_word_eqI) (auto simp: bit_simps dest: bit_imp_le_length)

lemma join8_top24:
  "join8 (join8 (ucast (ucast (drop_bit 16 v) :: u8)) (ucast (drop_bit 8 v))) (ucast v) =
     (take_bit 24 v :: u32)"
proof (rule bit_word_eqI)
  fix n assume "n < LENGTH(32)"
  then show "bit (join8 (join8 (ucast (ucast (drop_bit 16 v) :: u8)) (ucast (drop_bit 8 v)))
      (ucast v) :: u32) n = bit (take_bit 24 v :: u32) n"
    by (cases "n < 8"; cases "n < 16"; cases "n < 24") (auto simp: bit_join8 bit_simps)
qed

lemmas codec_simps = length_lists get_explicit get_explicit64 join8_drop_bit join8_drop_bit0
  ucast_drop_join8 ucast_join8 ucast_top

interpretation be16: word_codec WPA_PUT_BE16 WPA_GET_BE16
  "\<lambda>v. [ucast (drop_bit 8 v), ucast v]" 2 "\<lambda>v. v"
  by (rule word_codecI [where dec = "\<lambda>bs. join8 (ucast (bs ! 0)) (bs ! 1)"])
    (auto simp: WPA_PUT_BE16_def codec_simps, simp add: WPA_GET_BE16_def)

interpretation le16: word_codec WPA_PUT_LE16 WPA_GET_LE16
  "\<lambda>v. [ucast v, ucast (drop_bit 8 v)]" 2 "\<lambda>v. v"
  by (rule word_codecI [where dec = "\<lambda>bs. join8 (ucast (bs ! 1)) (bs ! 0)"])
    (auto simp: WPA_PUT_LE16_def codec_simps, simp add: WPA_GET_LE16_def)

interpretation be24: word_codec WPA_PUT_BE24 WPA_GET_BE24
  "\<lambda>v. [ucast (drop_bit 16 v), ucast (drop_bit 8 v), ucast v]" 3 "take_bit 24"
  by (rule word_codecI [where dec = "\<lambda>bs. join8 (join8 (ucast (bs ! 0)) (bs ! 1)) (bs ! 2)"])
    (auto simp: WPA_PUT_BE24_def codec_simps join8_top24, simp add: WPA_GET_BE24_def)

interpretation be32: word_codec WPA_PUT_BE32 WPA_GET_BE32
  "\<lambda>v. [ucast (drop_bit 24 v), ucast (drop_bit 16 v), ucast (drop_bit 8 v), ucast v]" 4 "\<lambda>v. v"
  by (rule word_codecI [where
        dec = "\<lambda>bs. join8 (join8 (join8 (ucast (bs ! 0)) (bs ! 1)) (bs ! 2)) (bs ! 3)"])
    (auto simp: WPA_PUT_BE32_def codec_simps, simp add: WPA_GET_BE32_def)

interpretation le32: word_codec WPA_PUT_LE32 WPA_GET_LE32
  "\<lambda>v. [ucast v, ucast (drop_bit 8 v), ucast (drop_bit 16 v), ucast (drop_bit 24 v)]" 4 "\<lambda>v. v"
  by (rule word_codecI [where
        dec = "\<lambda>bs. join8 (join8 (join8 (ucast (bs ! 3)) (bs ! 2)) (bs ! 1)) (bs ! 0)"])
    (auto simp: WPA_PUT_LE32_def codec_simps, simp add: WPA_GET_LE32_def)

interpretation be64: word_codec WPA_PUT_BE64 WPA_GET_BE64
  "\<lambda>v. [ucast (drop_bit 56 v), ucast (drop_bit 48 v), ucast (drop_bit 40 v), ucast (drop_bit 32 v),
       ucast (drop_bit 24 v), ucast (drop_bit 16 v), ucast (drop_bit 8 v), ucast v]" 8 "\<lambda>v. v"
  by (rule word_codecI [where dec = "\<lambda>bs. join8 (join8 (join8 (join8 (join8 (join8 (join8
        (ucast (bs ! 0)) (bs ! 1)) (bs ! 2)) (bs ! 3)) (bs ! 4)) (bs ! 5)) (bs ! 6)) (bs ! 7)"])
    (auto simp: WPA_PUT_BE64_def codec_simps, simp add: WPA_GET_BE64_def)

interpretation le64: word_codec WPA_PUT_LE64 WPA_GET_LE64
  "\<lambda>v. [ucast v, ucast (drop_bit 8 v), ucast (drop_bit 16 v), ucast (drop_bit 24 v),
       ucast (drop_bit 32 v), ucast (drop_bit 40 v), ucast (drop_bit 48 v), ucast (drop_bit 56 v)]"
  8 "\<lambda>v. v"
  by (rule word_codecI [where dec = "\<lambda>bs. join8 (join8 (join8 (join8 (join8 (join8 (join8
        (ucast (bs ! 7)) (bs ! 6)) (bs ! 5)) (bs ! 4)) (bs ! 3)) (bs ! 2)) (bs ! 1)) (bs ! 0)"])
    (auto simp: WPA_PUT_LE64_def codec_simps, simp add: WPA_GET_LE64_def)

section \<open>Round trips and byte order\<close>

context word_codec
begin

lemma put_then_get:
  "Option.bind (put a v) get = (if width \<le> length a then Some (canon v) else None)"
proof (cases "width \<le> length a")
  case True
  then have "put a v = Some (enc v @ drop width a)" by (simp add: put_Some_iff)
  then show ?thesis using True by (simp add: get_enc)
next
  case False
  then show ?thesis by (simp add: put_eq mem_write_def length_enc)
qed

lemma get_then_put:
  "Option.bind (get a) (put a) = (if width \<le> length a then Some a else None)"
proof (cases "width \<le> length a")
  case True
  then obtain v where "get a = Some v" using get_total by blast
  then show ?thesis using True by (simp add: put_get)
next
  case False
  then show ?thesis by (simp add: get_short)
qed

end

text \<open>
  Storing a value with any of the seven \<^verbatim>\<open>WPA_PUT_*\<close> accessors and reading it back with the
  matching \<^verbatim>\<open>WPA_GET_*\<close> gives the value again (its low 24 bits for the 24-bit pair), exactly
  when the array is long enough, for every array and every value.
\<close>

theorem accessors_read_back:
  "(Option.bind (WPA_PUT_BE16 a v) WPA_GET_BE16 = (if 2 \<le> length a then Some v else None)) \<and>
   (Option.bind (WPA_PUT_LE16 a v) WPA_GET_LE16 = (if 2 \<le> length a then Some v else None)) \<and>
   (Option.bind (WPA_PUT_BE24 a w) WPA_GET_BE24 =
      (if 3 \<le> length a then Some (take_bit 24 w) else None)) \<and>
   (Option.bind (WPA_PUT_BE32 a w) WPA_GET_BE32 = (if 4 \<le> length a then Some w else None)) \<and>
   (Option.bind (WPA_PUT_LE32 a w) WPA_GET_LE32 = (if 4 \<le> length a then Some w else None)) \<and>
   (Option.bind (WPA_PUT_BE64 a x) WPA_GET_BE64 = (if 8 \<le> length a then Some x else None)) \<and>
   (Option.bind (WPA_PUT_LE64 a x) WPA_GET_LE64 = (if 8 \<le> length a then Some x else None))"
  by (intro conjI) (rule be16.put_then_get le16.put_then_get be24.put_then_get be32.put_then_get
      le32.put_then_get be64.put_then_get le64.put_then_get)+

text \<open>
  Writing back what an accessor read leaves the array as it was, for each pair; so no two
  different byte patterns read as the same value.
\<close>

theorem accessors_write_back:
  "(Option.bind (WPA_GET_BE16 a) (WPA_PUT_BE16 a) = (if 2 \<le> length a then Some a else None)) \<and>
   (Option.bind (WPA_GET_LE16 a) (WPA_PUT_LE16 a) = (if 2 \<le> length a then Some a else None)) \<and>
   (Option.bind (WPA_GET_BE24 a) (WPA_PUT_BE24 a) = (if 3 \<le> length a then Some a else None)) \<and>
   (Option.bind (WPA_GET_BE32 a) (WPA_PUT_BE32 a) = (if 4 \<le> length a then Some a else None)) \<and>
   (Option.bind (WPA_GET_LE32 a) (WPA_PUT_LE32 a) = (if 4 \<le> length a then Some a else None)) \<and>
   (Option.bind (WPA_GET_BE64 a) (WPA_PUT_BE64 a) = (if 8 \<le> length a then Some a else None)) \<and>
   (Option.bind (WPA_GET_LE64 a) (WPA_PUT_LE64 a) = (if 8 \<le> length a then Some a else None))"
  by (intro conjI) (rule be16.get_then_put le16.get_then_put be24.get_then_put be32.get_then_put
      le32.get_then_put be64.get_then_put le64.get_then_put)+

lemma mask_bits:
  "(0xff00 :: u32) = push_bit 8 (mask 8)"
  "(0xff0000 :: u32) = push_bit 16 (mask 8)"
  "(0xff000000 :: u32) = push_bit 24 (mask 8)"
  by (simp_all add: mask_eq_exp_minus_1 push_bit_eq_mult)

lemma bswap_16_join: "bswap_16 v = join8 (ucast (ucast v :: u8)) (ucast (drop_bit 8 v))"
  unfolding bswap_16_def ff_mask
  by (rule bit_word_eqI) (auto simp: bit_join8 bit_simps dest: bit_imp_le_length)

lemma bswap_32_join:
  "bswap_32 v = join8 (join8 (join8 (ucast (ucast v :: u8)) (ucast (drop_bit 8 v)))
     (ucast (drop_bit 16 v))) (ucast (drop_bit 24 v))"
  unfolding bswap_32_def ff_mask mask_bits
  by (rule bit_word_eqI) (auto simp: bit_join8 bit_simps dest: bit_imp_le_length)

lemma bswap_16_macro_eq: "bswap_16_macro v = bswap_16 v"
  unfolding bswap_16_macro_def bswap_16_def mask_bits ff_mask
  by (rule bit_word_eqI) (auto simp: bit_simps dest: bit_imp_le_length)

lemma bswap_32_macro_eq: "bswap_32_macro v = bswap_32 v"
  unfolding bswap_32_macro_def bswap_32_def mask_bits ff_mask
  by (rule bit_word_eqI) (auto simp: bit_simps dest: bit_imp_le_length)

lemma ucast_drop_bswap_16:
  "(ucast (bswap_16 v) :: u8) = ucast (drop_bit 8 v)"
  "(ucast (drop_bit 8 (bswap_16 v)) :: u8) = ucast v"
  by (simp_all add: bswap_16_join codec_simps)

lemma ucast_drop_bswap_32:
  "(ucast (bswap_32 v) :: u8) = ucast (drop_bit 24 v)"
  "(ucast (drop_bit 8 (bswap_32 v)) :: u8) = ucast (drop_bit 16 v)"
  "(ucast (drop_bit 16 (bswap_32 v)) :: u8) = ucast (drop_bit 8 v)"
  "(ucast (drop_bit 24 (bswap_32 v)) :: u8) = ucast v"
  by (simp_all add: bswap_32_join codec_simps)

lemmas put_defs = WPA_PUT_BE16_def WPA_PUT_LE16_def WPA_PUT_BE24_def WPA_PUT_BE32_def
  WPA_PUT_LE32_def WPA_PUT_BE64_def WPA_PUT_LE64_def

lemma bswap_64_join:
  "bswap_64 v = join8 (join8 (join8 (join8 (join8 (join8 (join8 (ucast (ucast v :: u8))
     (ucast (drop_bit 8 v))) (ucast (drop_bit 16 v))) (ucast (drop_bit 24 v)))
     (ucast (drop_bit 32 v))) (ucast (drop_bit 40 v))) (ucast (drop_bit 48 v)))
     (ucast (drop_bit 56 v))"
  by (simp add: bswap_64_def join8_def)

lemma ucast_drop_bswap_64:
  "(ucast (bswap_64 v) :: u8) = ucast (drop_bit 56 v)"
  "(ucast (drop_bit 8 (bswap_64 v)) :: u8) = ucast (drop_bit 48 v)"
  "(ucast (drop_bit 16 (bswap_64 v)) :: u8) = ucast (drop_bit 40 v)"
  "(ucast (drop_bit 24 (bswap_64 v)) :: u8) = ucast (drop_bit 32 v)"
  "(ucast (drop_bit 32 (bswap_64 v)) :: u8) = ucast (drop_bit 24 v)"
  "(ucast (drop_bit 40 (bswap_64 v)) :: u8) = ucast (drop_bit 16 v)"
  "(ucast (drop_bit 48 (bswap_64 v)) :: u8) = ucast (drop_bit 8 v)"
  "(ucast (drop_bit 56 (bswap_64 v)) :: u8) = ucast v"
  by (simp_all add: bswap_64_join codec_simps)

lemma bswap_64_twice: "bswap_64 (bswap_64 v) = v"
  by (simp add: bswap_64_join [of "bswap_64 v"] ucast_drop_bswap_64 ucast_top join8_drop_bit
      join8_drop_bit0)

lemma wpa_swap_eq: "wpa_swap_16 v = bswap_16 v" "wpa_swap_32 w = bswap_32 w"
  by (simp_all add: wpa_swap_16_def wpa_swap_32_def bswap_16_def bswap_32_def)

text \<open>
  All spellings of the byte swaps (the inline functions of the two builds and the macros) are the same
  functions, and swapping twice gives the value back.
\<close>

theorem bswap_variants_agree:
  "bswap_16_macro v = bswap_16 v \<and> wpa_swap_16 v = bswap_16 v \<and> bswap_16 (bswap_16 v) = v \<and>
   bswap_32_macro w = bswap_32 w \<and> wpa_swap_32 w = bswap_32 w \<and> bswap_32 (bswap_32 w) = w"
proof (intro conjI)
  show "bswap_16 (bswap_16 v) = v"
    by (simp add: bswap_16_join [of "bswap_16 v"] ucast_drop_bswap_16 ucast_top join8_drop_bit0)
  show "bswap_32 (bswap_32 w) = w"
    by (simp add: bswap_32_join [of "bswap_32 w"] ucast_drop_bswap_32 ucast_top join8_drop_bit
        join8_drop_bit0)
qed (rule bswap_16_macro_eq bswap_32_macro_eq wpa_swap_eq)+

text \<open>
  On either kind of host, storing \<^verbatim>\<open>host_to_be16(v)\<close> or \<^verbatim>\<open>host_to_be32(v)\<close> in the host's own
  byte order lays out the big-endian bytes of \<open>v\<close>, storing the \<^verbatim>\<open>host_to_le\<close> value lays out the
  little-endian bytes, and the \<^verbatim>\<open>_to_host\<close> macros undo them.
\<close>

theorem host_order_macros:
  "(case bo of LITTLE_ENDIAN \<Rightarrow> WPA_PUT_LE16 | BIG_ENDIAN \<Rightarrow> WPA_PUT_BE16) a (host_to_be16 bo v)
     = WPA_PUT_BE16 a v \<and>
   (case bo of LITTLE_ENDIAN \<Rightarrow> WPA_PUT_LE32 | BIG_ENDIAN \<Rightarrow> WPA_PUT_BE32) a (host_to_be32 bo w)
     = WPA_PUT_BE32 a w \<and>
   (case bo of LITTLE_ENDIAN \<Rightarrow> WPA_PUT_LE16 | BIG_ENDIAN \<Rightarrow> WPA_PUT_BE16) a (host_to_le16 bo v)
     = WPA_PUT_LE16 a v \<and>
   (case bo of LITTLE_ENDIAN \<Rightarrow> WPA_PUT_LE32 | BIG_ENDIAN \<Rightarrow> WPA_PUT_BE32) a (host_to_le32 bo w)
     = WPA_PUT_LE32 a w \<and>
   be_to_host16 bo (host_to_be16 bo v) = v \<and> be_to_host32 bo (host_to_be32 bo w) = w \<and>
   le_to_host16 bo (host_to_le16 bo v) = v \<and> le_to_host32 bo (host_to_le32 bo w) = w"
proof -
  have inv: "bswap_16 (bswap_16 v) = v" "bswap_32 (bswap_32 w) = w"
    by (simp_all add: bswap_16_join [of "bswap_16 v"] bswap_32_join [of "bswap_32 w"]
        ucast_drop_bswap_16 ucast_drop_bswap_32 ucast_top join8_drop_bit join8_drop_bit0)
  show ?thesis
    by (cases bo) (simp_all add: put_defs host_to_be16_def host_to_be32_def host_to_le16_def
        host_to_le32_def be_to_host16_def be_to_host32_def le_to_host16_def le_to_host32_def
        ucast_drop_bswap_16 ucast_drop_bswap_32 inv)
qed

text \<open>The same for the 64-bit macros.\<close>

theorem host_order_macros64:
  "(case bo of LITTLE_ENDIAN \<Rightarrow> WPA_PUT_LE64 | BIG_ENDIAN \<Rightarrow> WPA_PUT_BE64) a (host_to_be64 bo v)
     = WPA_PUT_BE64 a v \<and>
   (case bo of LITTLE_ENDIAN \<Rightarrow> WPA_PUT_LE64 | BIG_ENDIAN \<Rightarrow> WPA_PUT_BE64) a (host_to_le64 bo v)
     = WPA_PUT_LE64 a v \<and>
   be_to_host64 bo (host_to_be64 bo v) = v \<and> le_to_host64 bo (host_to_le64 bo v) = v"
  by (cases bo) (simp_all add: put_defs host_to_be64_def host_to_le64_def be_to_host64_def
      le_to_host64_def ucast_drop_bswap_64 bswap_64_twice)

lemma length_ge_6:
  "\<not> length a < 6 \<longleftrightarrow> (\<exists>u v w x y z t. a = u # v # w # x # y # z # t)"
  by (auto simp: numeral_eq_Suc not_less Suc_le_length_iff)

lemma u8_full: "(0xff :: u8) = - 1"
  by simp

lemma word_and_full: "(x AND y :: u8) = 0xff \<longleftrightarrow> x = 0xff \<and> y = 0xff"
  unfolding u8_full by (rule and_eq_minus_1_iff)

lemma replicate_6: "replicate 6 c = [c, c, c, c, c, c]"
  by (simp add: numeral_eq_Suc)

text \<open>
  The Ethernet address tests recognise exactly the all-zero address and exactly the
  broadcast address (six bytes \<^verbatim>\<open>0xff\<close>), and look at the first six bytes only.
\<close>

theorem ether_addr_tests:
  "is_zero_ether_addr a = (if length a < 6 then None else Some (take 6 a = replicate 6 0)) \<and>
   is_broadcast_ether_addr a = (if length a < 6 then None else Some (take 6 a = replicate 6 0xff))"
proof (cases "length a < 6")
  case True
  then show ?thesis by (simp add: is_zero_ether_addr_def is_broadcast_ether_addr_def)
next
  case False
  then obtain u v w x y z t where a: "a = u # v # w # x # y # z # t"
    unfolding length_ge_6 by auto
  show ?thesis
    by (simp add: a is_zero_ether_addr_def is_broadcast_ether_addr_def word_and_full or_eq_0_iff
        replicate_6)
qed

end
