(* ===== verification/Os_Time.thy ===== *)
theory Os_Time
  imports Prelude
begin

text \<open>
  Time: the structures and inline helpers of \<^verbatim>\<open>src/src/wpa_ctrl/os.h\<close> and the clock and
  calendar functions of \<^verbatim>\<open>src/src/wpa_ctrl/os_unix.c\<close>. \<^verbatim>\<open>os_time_t\<close> is a signed \<^verbatim>\<open>long\<close>,
  here an integer; the lemmas give the ranges in which the C arithmetic does not leave 64
  bits. The kernel's clock is a list of answers to successive \<^verbatim>\<open>clock_gettime\<close> calls, and
  the C library's calendar conversions are arguments of the functions that call them.
\<close>

section \<open>Time values\<close>

record os_time =
  sec :: int
  usec :: int

type_synonym os_reltime = os_time

definition os_time_before :: "os_time \<Rightarrow> os_time \<Rightarrow> bool" where
  "os_time_before a b \<longleftrightarrow> sec a < sec b \<or> (sec a = sec b \<and> usec a < usec b)"

definition os_time_sub :: "os_time \<Rightarrow> os_time \<Rightarrow> os_time" where
  "os_time_sub a b =
     (let s = sec a - sec b; u = usec a - usec b
      in if u < 0 then \<lparr>sec = s - 1, usec = u + 1000000\<rparr> else \<lparr>sec = s, usec = u\<rparr>)"

definition os_reltime_before :: "os_reltime \<Rightarrow> os_reltime \<Rightarrow> bool" where
  "os_reltime_before a b \<longleftrightarrow> sec a < sec b \<or> (sec a = sec b \<and> usec a < usec b)"

definition os_reltime_sub :: "os_reltime \<Rightarrow> os_reltime \<Rightarrow> os_reltime" where
  "os_reltime_sub a b =
     (let s = sec a - sec b; u = usec a - usec b
      in if u < 0 then \<lparr>sec = s - 1, usec = u + 1000000\<rparr> else \<lparr>sec = s, usec = u\<rparr>)"

definition os_reltime_expired :: "os_reltime \<Rightarrow> os_reltime \<Rightarrow> int \<Rightarrow> bool" where
  "os_reltime_expired now ts timeout_secs =
     (let age = os_reltime_sub now ts
      in sec age > timeout_secs \<or> (sec age = timeout_secs \<and> usec age > 0))"

definition os_reltime_initialized :: "os_reltime \<Rightarrow> bool" where
  "os_reltime_initialized t \<longleftrightarrow> sec t \<noteq> 0 \<or> usec t \<noteq> 0"

section \<open>The time of day\<close>

text \<open>
  \<open>answer\<close> is what \<^verbatim>\<open>gettimeofday\<close> returns and stores, \<open>None\<close> if it stores nothing; the local
  variable it should fill is read in either case.
\<close>

definition os_get_time :: "int \<times> (int \<times> int) option \<Rightarrow> (int \<times> os_time) outcome" where
  "os_get_time answer =
     (case answer of
        (res, Some (tv_sec, tv_usec)) \<Rightarrow> Ret (res, \<lparr>sec = tv_sec, usec = tv_usec\<rparr>)
      | (res, None) \<Rightarrow> Fault)"

section \<open>The monotonic clock\<close>

datatype clockid = CLOCK_BOOTTIME | CLOCK_MONOTONIC | CLOCK_REALTIME

text \<open>
  \<open>clock_id\<close> is the static variable of \<^verbatim>\<open>os_get_reltime\<close>; \<open>clock_answers\<close> holds what the
  following \<^verbatim>\<open>clock_gettime\<close> calls give, \<open>None\<close> for a failure and \<open>Some (tv_sec, tv_nsec)\<close>
  otherwise.
\<close>

record os_clock =
  clock_id :: clockid
  clock_answers :: "(int \<times> int) option list"

text \<open>C's \<^verbatim>\<open>/\<close> truncates towards zero.\<close>

definition c_div :: "int \<Rightarrow> int \<Rightarrow> int" where
  "c_div a b = sgn a * sgn b * (\<bar>a\<bar> div \<bar>b\<bar>)"

text \<open>
  \<open>Ret (Some t)\<close> is a return of 0 with \<^verbatim>\<open>*t\<close> written, \<open>Ret None\<close> a return of -1 with \<^verbatim>\<open>*t\<close>
  left as it was.
\<close>

function os_get_reltime :: "os_clock \<Rightarrow> os_reltime option outcome \<times> os_clock" where
  "os_get_reltime c =
     (case clock_answers c of
        [] \<Rightarrow> (Blocked, c)
      | Some (tv_sec, tv_nsec) # r \<Rightarrow>
          (Ret (Some \<lparr>sec = tv_sec, usec = c_div tv_nsec 1000\<rparr>), c\<lparr>clock_answers := r\<rparr>)
      | None # r \<Rightarrow>
          (case clock_id c of
             CLOCK_BOOTTIME \<Rightarrow>
               os_get_reltime (c\<lparr>clock_answers := r, clock_id := CLOCK_MONOTONIC\<rparr>)
           | CLOCK_MONOTONIC \<Rightarrow>
               os_get_reltime (c\<lparr>clock_answers := r, clock_id := CLOCK_REALTIME\<rparr>)
           | CLOCK_REALTIME \<Rightarrow> (Ret None, c\<lparr>clock_answers := r\<rparr>)))"
  by pat_completeness auto
termination
  by (relation "measure (\<lambda>c. length (clock_answers c))") auto

declare os_get_reltime.simps [simp del]

definition os_reltime_age :: "os_reltime \<Rightarrow> os_clock \<Rightarrow> os_reltime outcome \<times> os_clock" where
  "os_reltime_age start c =
     bind_out (os_get_reltime c)
       (\<lambda>now c. case now of
          None \<Rightarrow> (Fault, c)  \<comment> \<open>\<^verbatim>\<open>now\<close> is read without having been written\<close>
        | Some n \<Rightarrow> (Ret (os_reltime_sub n start), c))"

text \<open>\<^verbatim>\<open>os_sleep\<close>, on the microseconds the process has asked to sleep so far.\<close>

definition os_sleep :: "int \<Rightarrow> int \<Rightarrow> int \<Rightarrow> int" where
  "os_sleep sc us slept =
     (let slept = (if sc \<noteq> 0 then slept + sc * 1000000 else slept)
      in if us \<noteq> 0 then slept + us else slept)"

section \<open>Calendar time\<close>






section \<open>Lemmas\<close>

text \<open>A time value is normalised when its microseconds are below one second.\<close>

definition normalised :: "os_time \<Rightarrow> bool" where
  "normalised t \<longleftrightarrow> 0 \<le> usec t \<and> usec t < 1000000"

definition total_usec :: "os_time \<Rightarrow> int" where
  "total_usec t = sec t * 1000000 + usec t"

lemma os_reltime_sub_total: "total_usec (os_reltime_sub a b) = total_usec a - total_usec b"
  by (simp add: os_reltime_sub_def total_usec_def Let_def algebra_simps)

lemma os_reltime_sub_normalised:
  "normalised a \<Longrightarrow> normalised b \<Longrightarrow> normalised (os_reltime_sub a b)"
  by (auto simp: normalised_def os_reltime_sub_def Let_def)

lemma os_time_sub_eq: "os_time_sub a b = os_reltime_sub a b"
  by (simp add: os_time_sub_def os_reltime_sub_def)

lemma before_total:
  "normalised a \<Longrightarrow> normalised b \<Longrightarrow> os_reltime_before a b \<longleftrightarrow> total_usec a < total_usec b"
  unfolding normalised_def os_reltime_before_def total_usec_def by linarith

lemma expired_total:
  assumes "normalised now" and "normalised ts"
  shows "os_reltime_expired now ts k \<longleftrightarrow> k * 1000000 < total_usec now - total_usec ts"
proof -
  have "normalised (os_reltime_sub now ts)" using assms by (rule os_reltime_sub_normalised)
  moreover have "sec d > k \<or> (sec d = k \<and> usec d > 0) \<longleftrightarrow> k * 1000000 < total_usec d"
    if "normalised d" for d
    using that unfolding normalised_def total_usec_def by linarith
  ultimately show ?thesis
    by (simp add: os_reltime_expired_def Let_def os_reltime_sub_total)
qed

lemma c_div_nonneg: "0 \<le> a \<Longrightarrow> 0 < b \<Longrightarrow> c_div a b = a div b"
  by (cases "a = 0") (simp_all add: c_div_def)

lemma usec_of_nsec:
  "0 \<le> n \<Longrightarrow> n < 1000000000 \<Longrightarrow> 0 \<le> c_div n 1000 \<and> c_div n 1000 < 1000000"
  using c_div_nonneg [of n 1000] by (auto simp: div_less_iff_less_mult pos_imp_zdiv_nonneg_iff)

text \<open>How many clocks are left to try, and the clock that is tried next.\<close>

fun clocks_left :: "clockid \<Rightarrow> nat" where
  "clocks_left CLOCK_BOOTTIME = 3"
| "clocks_left CLOCK_MONOTONIC = 2"
| "clocks_left CLOCK_REALTIME = 1"

fun next_clock :: "clockid \<Rightarrow> clockid" where
  "next_clock CLOCK_BOOTTIME = CLOCK_MONOTONIC"
| "next_clock _ = CLOCK_REALTIME"

lemma os_get_reltime_works:
  "clock_answers c = replicate j None @ Some (s, ns) # r \<Longrightarrow> j < clocks_left (clock_id c) \<Longrightarrow>
   os_get_reltime c =
     (Ret (Some \<lparr>sec = s, usec = c_div ns 1000\<rparr>),
      c\<lparr>clock_answers := r, clock_id := (next_clock ^^ j) (clock_id c)\<rparr>)"
proof (induction j arbitrary: c)
  case 0
  then show ?case by (simp add: os_get_reltime.simps [of c])
next
  case (Suc j)
  show ?case
  proof (cases "clock_id c")
    case CLOCK_REALTIME
    with Suc.prems show ?thesis by simp
  qed (use Suc in \<open>simp_all add: os_get_reltime.simps [of c] funpow_swap1\<close>)
qed

lemma os_get_reltime_fails:
  "clock_answers c = replicate (clocks_left (clock_id c)) None @ r \<Longrightarrow>
   os_get_reltime c = (Ret None, c\<lparr>clock_answers := r, clock_id := CLOCK_REALTIME\<rparr>)"
  by (cases "clock_id c")
    (simp_all add: os_get_reltime.simps numeral_eq_Suc)

text \<open>
  Every list of at least three answers has one of the two shapes above: the call returns.
\<close>

lemma leading_Nones:
  "n \<le> length xs \<Longrightarrow>
   (\<exists>r. xs = replicate n None @ r) \<or> (\<exists>j x r. j < n \<and> xs = replicate j None @ Some x # r)"
proof (induction n arbitrary: xs)
  case 0
  then show ?case by simp
next
  case (Suc n)
  then obtain x r where xs: "xs = x # r" "n \<le> length r" by (auto simp: Suc_le_length_iff)
  show ?case
  proof (cases x)
    case None
    from Suc.IH [OF xs(2)] consider (all) t where "r = replicate n None @ t"
      | (some) j y t where "j < n" "r = replicate j None @ Some y # t" by blast
    then show ?thesis
    proof cases
      case all
      then have "xs = replicate (Suc n) None @ t" using xs None by simp
      then show ?thesis by blast
    next
      case some
      then have "Suc j < Suc n \<and> xs = replicate (Suc j) None @ Some y # t" using xs None by simp
      then show ?thesis by blast
    qed
  next
    case (Some y)
    then have "0 < Suc n \<and> xs = replicate 0 None @ Some y # r" using xs by simp
    then show ?thesis by blast
  qed
qed

text \<open>
  \<^verbatim>\<open>os_get_reltime\<close> returns after at most three kernel answers: it gives the time of the first
  clock, in the order boot time, monotonic, real time, that answers, and remembers that clock
  for the next call; it fails, leaving \<^verbatim>\<open>*t\<close> alone, only when every clock it has left fails.
\<close>

theorem os_get_reltime_total:
  assumes "clocks_left (clock_id c) \<le> length (clock_answers c)"
  shows "(\<exists>j s ns r. j < clocks_left (clock_id c) \<and>
            clock_answers c = replicate j None @ Some (s, ns) # r \<and>
            os_get_reltime c =
              (Ret (Some \<lparr>sec = s, usec = c_div ns 1000\<rparr>),
               c\<lparr>clock_answers := r, clock_id := (next_clock ^^ j) (clock_id c)\<rparr>)) \<or>
         (\<exists>r. clock_answers c = replicate (clocks_left (clock_id c)) None @ r \<and>
            os_get_reltime c =
              (Ret None, c\<lparr>clock_answers := r, clock_id := CLOCK_REALTIME\<rparr>))"
  using leading_Nones [OF assms]
proof (elim disjE exE conjE)
  fix r assume r: "clock_answers c = replicate (clocks_left (clock_id c)) None @ r"
  from os_get_reltime_fails [OF r] r show ?thesis by blast
next
  fix j x r assume j: "j < clocks_left (clock_id c)"
    and r: "clock_answers c = replicate j None @ Some x # r"
  obtain s ns where x: "x = (s, ns)" by (cases x)
  from os_get_reltime_works [OF r [unfolded x] j] r j x show ?thesis by blast
qed

theorem os_get_reltime_total_witness:
  "clocks_left CLOCK_BOOTTIME \<le> length [None, Some (7, 2500), None] \<and>
   os_get_reltime \<lparr>clock_id = CLOCK_BOOTTIME, clock_answers = [None, Some (7, 2500), None]\<rparr> =
     (Ret (Some \<lparr>sec = 7, usec = 2\<rparr>), \<lparr>clock_id = CLOCK_MONOTONIC, clock_answers = [None]\<rparr>)"
  using os_get_reltime_total
    [of "\<lparr>clock_id = CLOCK_BOOTTIME, clock_answers = [None, Some (7, 2500), None]\<rparr>"]
  by (simp add: os_get_reltime.simps c_div_def)

section \<open>The order of times\<close>

text \<open>Times are ordered by their seconds, then by their microseconds.\<close>

instantiation os_time_ext :: (linorder) linorder
begin

definition less_os_time_ext :: "'a os_time_scheme \<Rightarrow> 'a os_time_scheme \<Rightarrow> bool" where
  "less_os_time_ext a b \<longleftrightarrow>
     sec a < sec b \<or> (sec a = sec b \<and>
       (usec a < usec b \<or> (usec a = usec b \<and> os_time.more a < os_time.more b)))"

definition less_eq_os_time_ext :: "'a os_time_scheme \<Rightarrow> 'a os_time_scheme \<Rightarrow> bool" where
  "less_eq_os_time_ext a b \<longleftrightarrow> a < b \<or> a = b"

instance
proof
  fix a b :: "'a os_time_scheme"
  have "a = b" if "sec a = sec b" "usec a = usec b" "os_time.more a = os_time.more b"
    using that by (rule os_time.equality)
  then show "a \<le> b \<or> b \<le> a"
    using less_linear [of "os_time.more a" "os_time.more b"]
    by (auto simp: less_os_time_ext_def less_eq_os_time_ext_def)
qed (auto simp: less_os_time_ext_def less_eq_os_time_ext_def)

end

text \<open>
  Both \<^verbatim>\<open>_before\<close> helpers are that linear order, so they are irreflexive and transitive and compare
  any two times, normalised or not; on normalised ones it is the order of the instants.
\<close>

theorem before_is_linear_order:
  "(os_time_before a b \<longleftrightarrow> a < b) \<and> (os_reltime_before a b \<longleftrightarrow> a < b) \<and>
   (os_reltime_before a b \<or> a = b \<or> os_reltime_before b a) \<and>
   (os_reltime_before a b \<and> os_reltime_before b c \<longrightarrow> os_reltime_before a c) \<and>
   (normalised a \<and> normalised b \<longrightarrow> (a < b \<longleftrightarrow> total_usec a < total_usec b))"
proof -
  have lt: "os_reltime_before x y \<longleftrightarrow> x < y" "os_time_before x y \<longleftrightarrow> x < y" for x y :: os_time
    by (auto simp: os_reltime_before_def os_time_before_def less_os_time_ext_def)
  have "a < b \<longleftrightarrow> total_usec a < total_usec b" if "normalised a" "normalised b"
    using that by (auto simp: less_os_time_ext_def total_usec_def normalised_def)
  then show ?thesis unfolding lt using less_linear [of a b] by auto
qed

text \<open>
  C22: on normalised times \<^verbatim>\<open>os_reltime_sub\<close> gives the exact difference, again normalised;
  \<^verbatim>\<open>os_reltime_before\<close> is the order of the instants, and \<^verbatim>\<open>os_reltime_expired\<close> says that strictly more
  than the timeout has passed. For non-negative times in the 64-bit range no intermediate value
  of the subtraction leaves that range.
\<close>

theorem reltime_arithmetic:
  assumes "normalised a" and "normalised b"
  shows "normalised (os_reltime_sub a b) \<and>
    total_usec (os_reltime_sub a b) = total_usec a - total_usec b \<and>
    (os_reltime_before a b \<longleftrightarrow> total_usec a < total_usec b) \<and>
    (os_reltime_expired a b k \<longleftrightarrow> k * 1000000 < total_usec a - total_usec b) \<and>
    (sec a \<in> {0..2 ^ 63 - 1} \<and> sec b \<in> {0..2 ^ 63 - 1} \<longrightarrow>
       sec a - sec b \<in> {- (2 ^ 63) + 1..2 ^ 63 - 1} \<and>
       sec (os_reltime_sub a b) \<in> {- (2 ^ 63)..2 ^ 63 - 1})"
proof (intro conjI impI)
  show "normalised (os_reltime_sub a b)" using assms by (rule os_reltime_sub_normalised)
  show "total_usec (os_reltime_sub a b) = total_usec a - total_usec b"
    by (rule os_reltime_sub_total)
  show "os_reltime_before a b \<longleftrightarrow> total_usec a < total_usec b" using assms by (rule before_total)
  show "os_reltime_expired a b k \<longleftrightarrow> k * 1000000 < total_usec a - total_usec b"
    using assms by (rule expired_total)
qed (auto simp: os_reltime_sub_def Let_def)

theorem reltime_arithmetic_witness:
  "normalised \<lparr>sec = 12, usec = 3\<rparr> \<and> normalised \<lparr>sec = 6, usec = 999999\<rparr> \<and>
   total_usec (os_reltime_sub \<lparr>sec = 12, usec = 3\<rparr> \<lparr>sec = 6, usec = 999999\<rparr>) = 5000004 \<and>
   os_reltime_expired \<lparr>sec = 12, usec = 3\<rparr> \<lparr>sec = 6, usec = 999999\<rparr> 5"
  using reltime_arithmetic [of "\<lparr>sec = 12, usec = 3\<rparr>" "\<lparr>sec = 6, usec = 999999\<rparr>" 5]
  by (simp add: normalised_def total_usec_def)










end
