(* ===== verification/Os_Unix.thy ===== *)
theory Os_Unix
  imports Prelude
begin

text \<open>
  The string, memory and file helpers of \<^verbatim>\<open>src/src/wpa_ctrl/os_unix.c\<close> and \<^verbatim>\<open>os.h\<close>:
  \<^verbatim>\<open>os_strlcpy\<close> as the pointer loop it is, the overflow checks of \<^verbatim>\<open>os_calloc\<close> and
  \<^verbatim>\<open>os_realloc_array\<close>, and the functions that hold resources (\<^verbatim>\<open>os_rel2abs_path\<close>,
  \<^verbatim>\<open>os_readfile\<close>, \<^verbatim>\<open>os_get_random\<close>) with a ledger of what is allocated and open.
\<close>

unbundle bit_operations_syntax

section \<open>os\_strlcpy\<close>

text \<open>
  \<open>dest\<close> and \<open>src\<close> are the memory from the two pointers on, \<open>d\<close> and \<open>s\<close> the positions the
  pointers have moved to, \<open>left\<close> the value before \<^verbatim>\<open>--left\<close>; the loop is entered with
  \<open>left \<ge> 1\<close> only. The result is the state after the loop, \<open>None\<close> for an access outside the
  objects.
\<close>

fun strlcpy_copy ::
  "bytes \<Rightarrow> bytes \<Rightarrow> nat \<Rightarrow> nat \<Rightarrow> nat \<Rightarrow> (bytes \<times> nat \<times> nat \<times> nat) option" where
  "strlcpy_copy dest src d s left =
     (if left \<le> 1 then Some (dest, d, s, 0)
      else if s < length src \<and> d < length dest
      then (if src ! s = NUL
            then Some (dest[d := src ! s], Suc d, Suc s, left - 1)
            else strlcpy_copy (dest[d := src ! s]) src (Suc d) (Suc s) (left - 1))
      else None)"

declare strlcpy_copy.simps [simp del]

text \<open>\<^verbatim>\<open>while (*s++) ;\<close>\<close>

function strlcpy_skip :: "bytes \<Rightarrow> nat \<Rightarrow> nat option" where
  "strlcpy_skip src s =
     (if s < length src
      then (if src ! s = NUL then Some (Suc s) else strlcpy_skip src (Suc s))
      else None)"
  by pat_completeness auto
termination
  by (relation "measure (\<lambda>(src, s). length src - s)") auto

declare strlcpy_skip.simps [simp del]

definition os_strlcpy :: "bytes \<Rightarrow> bytes \<Rightarrow> nat \<Rightarrow> (bytes \<times> nat) option" where
  "os_strlcpy dest src siz =
     (case (if siz \<noteq> 0 then strlcpy_copy dest src 0 0 siz else Some (dest, 0, 0, 0)) of
        None \<Rightarrow> None
      | Some (dest1, d, s, left) \<Rightarrow>
          (if left = 0 then
             (if siz \<noteq> 0 \<and> length dest1 \<le> d then None
              else
                let dest2 = (if siz \<noteq> 0 then dest1[d := NUL] else dest1)
                in (case strlcpy_skip src s of
                      None \<Rightarrow> None
                    | Some s' \<Rightarrow> Some (dest2, s' - 1)))
           else Some (dest1, s - 1)))"

section \<open>Allocation sizes\<close>

text \<open>
  Without \<^verbatim>\<open>WPA_TRACE\<close>, \<^verbatim>\<open>os_zalloc(size)\<close> is \<^verbatim>\<open>calloc(1, size)\<close> and \<^verbatim>\<open>os_realloc\<close> is
  \<^verbatim>\<open>realloc\<close>; the C library's functions are arguments. \<^verbatim>\<open>~(size_t) 0\<close> is the largest
  \<^verbatim>\<open>size_t\<close>.
\<close>

definition os_zalloc :: "(size_t \<Rightarrow> size_t \<Rightarrow> 'p option) \<Rightarrow> size_t \<Rightarrow> 'p option" where
  "os_zalloc calloc sz = calloc 1 sz"

definition os_calloc :: "(size_t \<Rightarrow> size_t \<Rightarrow> 'p option) \<Rightarrow> size_t \<Rightarrow> size_t \<Rightarrow> 'p option" where
  "os_calloc calloc nmemb sz =
     (if sz \<noteq> 0 \<and> nmemb > (NOT 0) div sz then None
      else os_zalloc calloc (nmemb * sz))"

definition os_realloc_array ::
  "('p \<Rightarrow> size_t \<Rightarrow> 'p option) \<Rightarrow> 'p \<Rightarrow> size_t \<Rightarrow> size_t \<Rightarrow> 'p option" where
  "os_realloc_array realloc ptr nmemb sz =
     (if sz \<noteq> 0 \<and> nmemb > (NOT 0) div sz then None
      else realloc ptr (nmemb * sz))"

section \<open>Functions that hold resources\<close>

text \<open>The number of live heap blocks and of open streams.\<close>

record ledger =
  blocks :: int
  streams :: int

abbreviation alloc_block :: "ledger \<Rightarrow> ledger" where
  "alloc_block l \<equiv> l\<lparr>blocks := blocks l + 1\<rparr>"

abbreviation free_block :: "ledger \<Rightarrow> ledger" where
  "free_block l \<equiv> l\<lparr>blocks := blocks l - 1\<rparr>"

abbreviation open_stream :: "ledger \<Rightarrow> ledger" where
  "open_stream l \<equiv> l\<lparr>streams := streams l + 1\<rparr>"

abbreviation close_stream :: "ledger \<Rightarrow> ledger" where
  "close_stream l \<equiv> l\<lparr>streams := streams l - 1\<rparr>"

text \<open>
  The loop of \<^verbatim>\<open>os_rel2abs_path\<close> that fetches the working directory: \<open>malloc_ok i\<close> is the answer to
  the \<open>i\<close>-th allocation, \<open>getcwd n\<close> what \<^verbatim>\<open>getcwd\<close> gives for a buffer of \<open>n\<close> bytes, \<open>k\<close> how often
  \<^verbatim>\<open>len\<close> has been doubled, so that it is \<open>128 * 2 ^ k\<close>. It gives the string left in \<^verbatim>\<open>buf\<close> after
  \<^verbatim>\<open>buf[len - 1] = 0\<close> and the number of allocations asked for, or \<open>None\<close> where the function
  returns NULL.
\<close>

function rel2abs_loop ::
  "(nat \<Rightarrow> bool) \<Rightarrow> (nat \<Rightarrow> errno + string) \<Rightarrow> nat \<Rightarrow> nat \<Rightarrow> ledger \<Rightarrow>
   (string \<times> nat) option \<times> ledger" where
  "rel2abs_loop malloc_ok getcwd i k l =
     (let len = 128 * 2 ^ k in
      if \<not> malloc_ok i then (None, l)
      else
        (case getcwd len of
           Inl last_errno \<Rightarrow>
             (if last_errno \<noteq> ERANGE then (None, free_block (alloc_block l))
              else if len * 2 > 2000 then (None, free_block (alloc_block l))
              else rel2abs_loop malloc_ok getcwd (Suc i) (Suc k) (free_block (alloc_block l)))
         | Inr cwd \<Rightarrow> (Some (take (len - 1) cwd, Suc i), alloc_block l)))"
  by pat_completeness auto
termination
proof (relation "measure (\<lambda>(m, g, i, k, l). 4 - k)")
  fix k :: nat and len assume "len = 128 * 2 ^ k" and "\<not> 2000 < len * (2::nat)"
  then have "(2::nat) ^ k < 2 ^ 3" by simp
  then have "k < 3" by (rule power_less_imp_less_exp [rotated]) simp
  then show "((m, g, Suc i, Suc k, free_block (alloc_block l)), (m, g, i, k, l)) \<in>
      measure (\<lambda>(m, g, i, k, l). 4 - k)" for m g i l by simp
qed simp

declare rel2abs_loop.simps [simp del]

text \<open>The caller of \<^verbatim>\<open>os_rel2abs_path\<close> gets a block holding the terminated path.\<close>

definition os_rel2abs_path ::
  "(nat \<Rightarrow> bool) \<Rightarrow> (nat \<Rightarrow> errno + string) \<Rightarrow> string option \<Rightarrow> ledger \<Rightarrow>
   bytes option outcome \<times> ledger" where
  "os_rel2abs_path malloc_ok getcwd rel_path l =
     (case rel_path of
        None \<Rightarrow> (Ret None, l)
      | Some rel \<Rightarrow>
          (if rel \<noteq> [] \<and> rel ! 0 = CHR ''/'' then
             (if malloc_ok 0 then (Ret (Some (rel @ [NUL])), alloc_block l) else (Ret None, l))
           else
             (case rel2abs_loop malloc_ok getcwd 0 0 l of
                (None, l1) \<Rightarrow> (Ret None, l1)
              | (Some (cwd, i), l1) \<Rightarrow>
                  let cwd_len = length cwd; rel_len = length rel;
                      ret_len = cwd_len + 1 + rel_len + 1
                  in if \<not> malloc_ok i then (Ret None, free_block l1)
                     else
                       (case Option.bind (mem_write 0 cwd (replicate ret_len (CHR 0xFF)))
                          (\<lambda>r. Option.bind (mem_write cwd_len ''/'' r)
                          (\<lambda>r. Option.bind (mem_write (cwd_len + 1) rel r)
                          (\<lambda>r. mem_write (ret_len - 1) [NUL] r))) of
                          None \<Rightarrow> (Fault, alloc_block l1)
                        | Some ret \<Rightarrow> (Ret (Some ret), free_block (alloc_block l1))))))"

text \<open>
  The answers of the C library to one call of \<^verbatim>\<open>os_readfile\<close>: whether each step succeeds, the
  position \<^verbatim>\<open>ftell\<close> gives, and the bytes \<^verbatim>\<open>fread\<close> delivers when asked for \<open>n\<close>.
\<close>

record readfile_env =
  fopen_ok :: bool
  seek_end_ok :: bool
  ftell_pos :: int
  seek_set_ok :: bool
  read_malloc_ok :: bool
  fread_bytes :: "nat \<Rightarrow> bytes"

text \<open>The result: the returned buffer, and the value left in \<^verbatim>\<open>*len\<close> if it was written.\<close>

definition os_readfile ::
  "readfile_env \<Rightarrow> ledger \<Rightarrow> (bytes option \<times> nat option) \<times> ledger" where
  "os_readfile e l =
     (if \<not> fopen_ok e then ((None, None), l)
      else let l = open_stream l in
        if \<not> seek_end_ok e \<or> ftell_pos e < 0 then ((None, None), close_stream l)
        else let len = nat (ftell_pos e) in
          if \<not> seek_set_ok e then ((None, Some len), close_stream l)
          else if \<not> read_malloc_ok e then ((None, Some len), close_stream l)
          else let l = alloc_block l in
            if length (fread_bytes e len) \<noteq> len
            then ((None, Some len), free_block (close_stream l))
            else ((Some (fread_bytes e len), Some len), close_stream l))"

definition os_get_random :: "bool \<Rightarrow> (nat \<Rightarrow> bytes) \<Rightarrow> nat \<Rightarrow> ledger \<Rightarrow> (int \<times> bytes) \<times> ledger" where
  "os_get_random urandom_ok fread len l =
     (if \<not> urandom_ok then ((-1, []), l)
      else let l = open_stream l; got = fread len
           in ((if length got \<noteq> len then -1 else 0, got), close_stream l))"

text \<open>The numbers \<^verbatim>\<open>random\<close> gives in successive calls.\<close>

definition os_random :: "u64 list \<Rightarrow> u64 outcome \<times> u64 list" where
  "os_random rs = (case rs of [] \<Rightarrow> (Blocked, []) | r # rs' \<Rightarrow> (Ret r, rs'))"

section \<open>Lemmas\<close>

text \<open>What \<^verbatim>\<open>strlcpy(3)\<close> promises: as much of the string as fits, always terminated.\<close>

definition strlcpy_result :: "bytes \<Rightarrow> bytes \<Rightarrow> nat \<Rightarrow> bytes" where
  "strlcpy_result dest str siz =
     (if siz = 0 then dest
      else take (siz - 1) str @ NUL # drop (Suc (min (length str) (siz - 1))) dest)"

lemma c_string_nth:
  assumes "src = str @ NUL # rest" and "NUL \<notin> set str"
  shows "src ! length str = NUL" and "length str < length src"
    and "i < length str \<Longrightarrow> src ! i = str ! i" and "i < length str \<Longrightarrow> str ! i \<noteq> NUL"
  using assms by (auto simp: nth_append dest: nth_mem)

lemma strlcpy_skip_string:
  assumes "src = str @ NUL # rest" and "NUL \<notin> set str" and "s \<le> length str"
  shows "strlcpy_skip src s = Some (Suc (length str))"
  using assms(3)
proof (induction "length str - s" arbitrary: s)
  case 0
  then have "s = length str" using assms by simp
  then show ?case using c_string_nth [OF assms(1,2)] by (simp add: strlcpy_skip.simps [of src "length str"])
next
  case (Suc n)
  then have "s < length str" by simp
  then show ?case using Suc c_string_nth [OF assms(1,2)]
    by (simp add: strlcpy_skip.simps [of src s])
qed

text \<open>The copy loop when the string ends before the space does, and when it does not.\<close>

lemma strlcpy_copy_all:
  assumes "src = str @ NUL # rest" and "NUL \<notin> set str"
  shows "s \<le> length str \<Longrightarrow> length str - s + 1 < left \<Longrightarrow> s + left \<le> length dest \<Longrightarrow>
    strlcpy_copy dest src s s left =
      Some (take s dest @ drop s str @ NUL # drop (Suc (length str)) dest,
            Suc (length str), Suc (length str), left - (length str - s + 1))"
proof (induction "length str - s" arbitrary: s left dest)
  case 0
  then have "s = length str" by simp
  then show ?case using 0 c_string_nth [OF assms]
    by (simp add: strlcpy_copy.simps [of dest src "length str" "length str" left] upd_conv_take_nth_drop)
next
  case (Suc n)
  then have s: "s < length str" by simp
  have "strlcpy_copy (dest[s := str ! s]) src (Suc s) (Suc s) (left - 1) =
      Some (take (Suc s) (dest[s := str ! s]) @ drop (Suc s) str @
              NUL # drop (Suc (length str)) (dest[s := str ! s]),
            Suc (length str), Suc (length str), left - 1 - (length str - Suc s + 1))"
    using Suc s by (intro Suc.hyps(1)) auto
  moreover have "take (Suc s) (dest[s := str ! s]) @ drop (Suc s) str = take s dest @ drop s str"
    using Suc.prems s by (simp add: take_Suc_conv_app_nth Cons_nth_drop_Suc)
  ultimately show ?case
    using Suc s c_string_nth [OF assms] by (simp add: strlcpy_copy.simps [of dest src s s left])
qed

lemma strlcpy_copy_part:
  assumes "src = str @ NUL # rest" and "NUL \<notin> set str"
  shows "1 \<le> left \<Longrightarrow> s + left - 1 \<le> length str \<Longrightarrow> s + left \<le> length dest \<Longrightarrow>
    strlcpy_copy dest src s s left =
      Some (take s dest @ take (left - 1) (drop s str) @ drop (s + left - 1) dest,
            s + left - 1, s + left - 1, 0)"
proof (induction left arbitrary: s dest)
  case 0
  then show ?case by simp
next
  case (Suc left)
  show ?case
  proof (cases "left = 0")
    case True
    then show ?thesis by (simp add: strlcpy_copy.simps)
  next
    case False
    then have s: "s < length str" using Suc.prems by simp
    have "strlcpy_copy (dest[s := str ! s]) src (Suc s) (Suc s) left =
        Some (take (Suc s) (dest[s := str ! s]) @ take (left - 1) (drop (Suc s) str) @
                drop (s + left) (dest[s := str ! s]), s + left, s + left, 0)"
      using Suc.IH [of "Suc s" "dest[s := str ! s]"] Suc.prems False by simp
    moreover have "take (Suc s) (dest[s := str ! s]) @ take (left - 1) (drop (Suc s) str) =
        take s dest @ take left (drop s str)"
      using Suc.prems s False
      by (cases left) (simp_all add: take_Suc_conv_app_nth Cons_nth_drop_Suc [symmetric])
    ultimately show ?thesis
      using Suc.prems s False c_string_nth [OF assms]
      by (simp add: strlcpy_copy.simps [of dest src s s "Suc left"])
  qed
qed

lemma os_strlcpy_eq:
  assumes src: "src = str @ NUL # rest" "NUL \<notin> set str" and siz: "siz \<le> length dest"
  shows "os_strlcpy dest src siz = Some (strlcpy_result dest str siz, length str)"
proof -
  consider (zero) "siz = 0" | (all) "length str + 1 < siz" | (fit) "siz \<noteq> 0" "siz \<le> length str + 1"
    by linarith
  then show ?thesis
  proof cases
    case zero
    then show ?thesis
      using strlcpy_skip_string [OF src, of 0] by (simp add: os_strlcpy_def strlcpy_result_def)
  next
    case all
    then show ?thesis using strlcpy_copy_all [OF src, of 0 siz dest] siz
      by (simp add: os_strlcpy_def strlcpy_result_def)
  next
    case fit
    then show ?thesis
      using strlcpy_copy_part [OF src, of siz 0 dest] siz strlcpy_skip_string [OF src, of "siz - 1"]
      by (simp add: os_strlcpy_def strlcpy_result_def upd_conv_take_nth_drop)
  qed
qed

lemma length_strlcpy_result: "siz \<le> length dest \<Longrightarrow> length (strlcpy_result dest str siz) = length dest"
  by (auto simp: strlcpy_result_def min_def)

lemma strlcpy_result_string:
  assumes "NUL \<notin> set str" and "0 < siz"
  shows "c_strlen (strlcpy_result dest str siz) = Some (min (length str) (siz - 1))"
proof -
  have "NUL \<notin> set (take (siz - 1) str)" using assms(1) by (meson in_set_takeD)
  then show ?thesis using assms(2) by (simp add: strlcpy_result_def)
qed

lemma drop_strlcpy_result:
  "siz \<le> length dest \<Longrightarrow> drop siz (strlcpy_result dest str siz) = drop siz dest"
  by (cases "siz - 1 \<le> length str") (auto simp: strlcpy_result_def min_def drop_Cons')

text \<open>
  C20: on a terminated source and a destination of at least \<^verbatim>\<open>siz\<close> bytes, \<^verbatim>\<open>os_strlcpy\<close> makes no access
  outside the two objects, returns the full length of the source whether or not it fitted, leaves
  in the destination a terminated string, the source's or its first \<open>siz - 1\<close> bytes, and does not
  touch the destination from \<^verbatim>\<open>siz\<close> on.
\<close>

theorem os_strlcpy_correct:
  assumes "NUL \<notin> set str" and "siz \<le> length dest"
  shows "\<exists>d. os_strlcpy dest (str @ NUL # rest) siz = Some (d, length str) \<and>
    length d = length dest \<and> drop siz d = drop siz dest \<and>
    (if siz = 0 then d = dest
     else c_strlen d = Some (min (length str) (siz - 1)) \<and>
          take (min (length str) (siz - 1)) d = take (siz - 1) str)"
proof (intro exI conjI)
  show "os_strlcpy dest (str @ NUL # rest) siz = Some (strlcpy_result dest str siz, length str)"
    using assms by (intro os_strlcpy_eq) auto
  show "if siz = 0 then strlcpy_result dest str siz = dest
     else c_strlen (strlcpy_result dest str siz) = Some (min (length str) (siz - 1)) \<and>
          take (min (length str) (siz - 1)) (strlcpy_result dest str siz) = take (siz - 1) str"
    using strlcpy_result_string [OF assms(1)] by (auto simp: strlcpy_result_def min_def)
qed (use assms in \<open>auto simp: length_strlcpy_result drop_strlcpy_result\<close>)

theorem os_strlcpy_correct_witness:
  "NUL \<notin> set ''wlan0'' \<and>
   (\<exists>d. os_strlcpy (replicate 6 CHR ''x'') (''wlan0'' @ NUL # ''tail'') 4 = Some (d, 5) \<and>
      take 3 d = ''wla'' \<and> c_strlen d = Some 3 \<and> drop 4 d = ''xx'')"
  using os_strlcpy_correct [of "''wlan0''" 4 "replicate 6 CHR ''x''" "''tail''"]
  by (auto simp: numeral_eq_Suc)

lemma size_check:
  fixes nmemb sz :: size_t
  shows "sz \<noteq> 0 \<and> nmemb > (NOT 0) div sz \<longleftrightarrow> 2 ^ 64 \<le> unat nmemb * unat sz"
proof (cases "sz = 0")
  case True
  then show ?thesis by simp
next
  case False
  then have pos: "0 < unat sz" by (simp add: unat_gt_0)
  have max: "unat (NOT 0 :: size_t) = 2 ^ 64 - 1"
    by (simp add: unsigned_minus_1_eq_mask mask_eq_exp_minus_1)
  have "nmemb > (NOT 0) div sz \<longleftrightarrow> (2 ^ 64 - 1) div unat sz < unat nmemb"
    by (simp add: word_less_nat_alt unat_div max del: bit.compl_zero)
  also have "\<dots> \<longleftrightarrow> 2 ^ 64 - 1 < unat nmemb * unat sz"
    using pos by (simp add: div_less_iff_less_mult)
  also have "\<dots> \<longleftrightarrow> 2 ^ 64 \<le> unat nmemb * unat sz" by auto
  finally show ?thesis using False by simp
qed

text \<open>
  C21: \<^verbatim>\<open>os_calloc\<close> and \<^verbatim>\<open>os_realloc_array\<close> refuse exactly the requests whose size in bytes does not fit
  in a \<^verbatim>\<open>size_t\<close>; every other request is passed on with its exact size, never a wrapped one.
\<close>

theorem array_allocation_never_wraps:
  "os_calloc calloc nmemb sz =
     (if unat nmemb * unat sz < 2 ^ 64 then calloc 1 (of_nat (unat nmemb * unat sz)) else None) \<and>
   os_realloc_array realloc ptr nmemb sz =
     (if unat nmemb * unat sz < 2 ^ 64 then realloc ptr (of_nat (unat nmemb * unat sz)) else None)"
  unfolding os_calloc_def os_realloc_array_def size_check os_zalloc_def by (simp add: not_le)

lemma free_alloc [simp]: "free_block (alloc_block l) = l" "close_stream (open_stream l) = l"
  by simp_all

text \<open>The buffer loop keeps one block exactly when it gives a directory.\<close>

lemma rel2abs_loop_ledger:
  "rel2abs_loop m g i k l = (r, l') \<Longrightarrow> l' = (if r = None then l else alloc_block l)"
proof (induction m g i k l arbitrary: r l' rule: rel2abs_loop.induct)
  case (1 m g i k l)
  show ?case
  proof (cases "m i \<and> g (128 * 2 ^ k) = Inl ERANGE \<and> \<not> 128 * 2 ^ k * 2 > (2000::nat)")
    case True
    then have "rel2abs_loop m g (Suc i) (Suc k) (free_block (alloc_block l)) = (r, l')"
      using "1.prems" by (simp add: rel2abs_loop.simps [of m g i k l])
    then show ?thesis using "1.IH" [OF refl] True by auto
  next
    case False
    then show ?thesis using "1.prems"
      by (auto simp: rel2abs_loop.simps [of m g i k l] Let_def split: if_splits sum.splits)
  qed
qed

lemma rel2abs_buffer:
  "Option.bind (mem_write 0 cwd (replicate (length cwd + 1 + length rel + 1) x))
     (\<lambda>r. Option.bind (mem_write (length cwd) ''/'' r)
     (\<lambda>r. Option.bind (mem_write (length cwd + 1) rel r)
     (\<lambda>r. mem_write (length cwd + 1 + length rel + 1 - 1) [NUL] r))) =
   Some (cwd @ CHR ''/'' # rel @ [NUL])"
  by (simp add: mem_write_def)

lemma os_rel2abs_path_Some:
  "os_rel2abs_path malloc_ok getcwd (Some rel) l =
     (if rel \<noteq> [] \<and> rel ! 0 = CHR ''/'' then
        (if malloc_ok 0 then (Ret (Some (rel @ [NUL])), alloc_block l) else (Ret None, l))
      else
        (case rel2abs_loop malloc_ok getcwd 0 0 l of
           (None, l1) \<Rightarrow> (Ret None, l1)
         | (Some (cwd, i), l1) \<Rightarrow>
             (if \<not> malloc_ok i then (Ret None, free_block l1)
              else (Ret (Some (cwd @ CHR ''/'' # rel @ [NUL])), free_block (alloc_block l1)))))"
  unfolding os_rel2abs_path_def Let_def rel2abs_buffer option.case by simp

lemma rel2abs_loop_result:
  assumes cwd: "\<And>n. getcwd n = (if length c < n then Inr c else Inl ERANGE)"
    and m: "\<And>i. malloc_ok i"
  shows "k \<le> 3 \<Longrightarrow> if length c < 1024
    then \<exists>j. rel2abs_loop malloc_ok getcwd i k l = (Some (c, j), alloc_block l)
    else rel2abs_loop malloc_ok getcwd i k l = (None, l)"
proof (induction "3 - k" arbitrary: i k)
  case 0
  then have "k = 3" by simp
  then show ?case using cwd [of 1024] m by (simp add: rel2abs_loop.simps [of _ _ i 3])
next
  case (Suc n)
  show ?case
  proof (cases "length c < 128 * 2 ^ k")
    case True
    have "(2::nat) ^ k \<le> 2 ^ 3" using Suc.prems by (intro power_increasing) auto
    then have "length c < 1024" using True by simp
    then show ?thesis using True cwd m by (simp add: rel2abs_loop.simps [of _ _ i k] Let_def)
  next
    case False
    have "k \<le> 2" using Suc.hyps(2) by simp
    then have "(2::nat) ^ k \<le> 2 ^ 2" by (intro power_increasing) auto
    then have "rel2abs_loop malloc_ok getcwd i k l = rel2abs_loop malloc_ok getcwd (Suc i) (Suc k) l"
      using False cwd m by (simp add: rel2abs_loop.simps [of _ _ i k] Let_def)
    moreover have "n = 3 - Suc k" "Suc k \<le> 3" using Suc.hyps(2) by auto
    ultimately show ?thesis using Suc.hyps(1) [of "Suc k" "Suc i"] by simp
  qed
qed

text \<open>
  Whatever the allocator and \<^verbatim>\<open>getcwd\<close> answer, \<^verbatim>\<open>os_rel2abs_path\<close> stays inside the buffers it
  allocates and leaks nothing: exactly one block is left when it returns a path and none when
  it returns NULL.
\<close>

theorem os_rel2abs_path_no_leak:
  "\<exists>r. os_rel2abs_path malloc_ok getcwd rel_path l =
     (Ret r, if r = None then l else alloc_block l)"
proof (cases rel_path)
  case None
  then show ?thesis by (simp add: os_rel2abs_path_def)
next
  case (Some rel)
  obtain r l1 where loop: "rel2abs_loop malloc_ok getcwd 0 0 l = (r, l1)"
    by (cases "rel2abs_loop malloc_ok getcwd 0 0 l")
  then have l1: "l1 = (if r = None then l else alloc_block l)" by (rule rel2abs_loop_ledger)
  show ?thesis
  proof (cases r)
    case None
    then show ?thesis using loop l1 Some by (simp add: os_rel2abs_path_Some)
  next
    case (Some p)
    obtain cwd i where "p = (cwd, i)" by (cases p)
    then show ?thesis using loop l1 Some \<open>rel_path = Some rel\<close>
      by (cases "malloc_ok i") (simp_all add: os_rel2abs_path_Some)
  qed
qed

text \<open>
  When memory is available and \<^verbatim>\<open>getcwd\<close> behaves as documented (it gives the directory when
  the buffer holds it and its terminator, \<^verbatim>\<open>ERANGE\<close> otherwise), a relative path is returned as the
  directory, a slash, the path and a terminator for every directory shorter than 1024 bytes, and
  NULL for a longer one; an absolute path is returned as it is.
\<close>

theorem os_rel2abs_path_result:
  assumes "\<And>n. getcwd n = (if length c < n then Inr c else Inl ERANGE)" and "\<And>i. malloc_ok i"
  shows "fst (os_rel2abs_path malloc_ok getcwd (Some rel) l) =
    Ret (if rel \<noteq> [] \<and> rel ! 0 = CHR ''/'' then Some (rel @ [NUL])
         else if length c < 1024 then Some (c @ CHR ''/'' # rel @ [NUL]) else None)"
  using rel2abs_loop_result [where getcwd = getcwd and malloc_ok = malloc_ok and k = 0 and i = 0 and l = l, OF assms] assms(2)
  by (auto simp: os_rel2abs_path_Some split: if_splits)

theorem os_rel2abs_path_result_witness:
  "fst (os_rel2abs_path (\<lambda>i. True) (\<lambda>n. if length ''/root'' < n then Inr ''/root'' else Inl ERANGE)
     (Some ''wpa.conf'') \<lparr>blocks = 0, streams = 0\<rparr>) = Ret (Some (''/root/wpa.conf'' @ [NUL]))"
  using os_rel2abs_path_result [of "\<lambda>n. if length ''/root'' < n then Inr ''/root'' else Inl ERANGE"
      "''/root''" "\<lambda>i. True" "''wpa.conf''" "\<lparr>blocks = 0, streams = 0\<rparr>"] by simp

text \<open>
  \<^verbatim>\<open>os_readfile\<close> closes the file on every path and keeps one block exactly when it returns a
  buffer; a returned buffer is what was read and has the length stored in \<^verbatim>\<open>*len\<close>, the position of
  the end of the file. It returns a buffer when every step succeeds and all bytes are read.
\<close>

theorem os_readfile_correct:
  "(\<exists>r n. os_readfile e l = ((r, n), if r = None then l else alloc_block l) \<and>
      (\<forall>b. r = Some b \<longrightarrow> n = Some (length b) \<and> int (length b) = ftell_pos e)) \<and>
   (fopen_ok e \<and> seek_end_ok e \<and> 0 \<le> ftell_pos e \<and> seek_set_ok e \<and> read_malloc_ok e \<and>
      length (fread_bytes e (nat (ftell_pos e))) = nat (ftell_pos e) \<longrightarrow>
    fst (fst (os_readfile e l)) = Some (fread_bytes e (nat (ftell_pos e))))"
  by (auto simp: os_readfile_def Let_def)

theorem os_readfile_correct_witness:
  "fst (fst (os_readfile \<lparr>fopen_ok = True, seek_end_ok = True, ftell_pos = 3, seek_set_ok = True,
     read_malloc_ok = True, fread_bytes = (\<lambda>n. take n ''abcdef'')\<rparr> \<lparr>blocks = 0, streams = 0\<rparr>)) =
   Some ''abc''"
  using os_readfile_correct [of "\<lparr>fopen_ok = True, seek_end_ok = True, ftell_pos = 3,
     seek_set_ok = True, read_malloc_ok = True, fread_bytes = (\<lambda>n. take n ''abcdef'')\<rparr>"
     "\<lparr>blocks = 0, streams = 0\<rparr>"]
  by (simp add: numeral_eq_Suc)

end
