(* ===== verification/Ctrl_Socket.thy ===== *)
theory Ctrl_Socket
  imports Prelude Os_Time
begin

text \<open>
  The part of \<^verbatim>\<open>src/src/wpa_ctrl/wpa_ctrl.c\<close> that talks over the connected datagram socket
  (\<^verbatim>\<open>CTRL_IFACE_SOCKET\<close>, built for UNIX sockets): \<^verbatim>\<open>wpa_ctrl_request\<close>, \<^verbatim>\<open>wpa_ctrl_attach\<close>,
  \<^verbatim>\<open>wpa_ctrl_detach\<close>, \<^verbatim>\<open>wpa_ctrl_recv\<close> and \<^verbatim>\<open>wpa_ctrl_pending\<close>. The kernel object behind
  \<^verbatim>\<open>ctrl->s\<close> is a record of the answers it gives to successive \<^verbatim>\<open>send\<close>, \<^verbatim>\<open>select\<close> and \<^verbatim>\<open>recv\<close>
  calls and a log of the datagrams it took, so that a statement about every such record is a
  statement about every behaviour of the daemon and the kernel. When a list of answers is
  used up the process waits for ever, which is the outcome \<open>Blocked\<close>. The callback for
  unsolicited messages works on a state of its own, of any type.
\<close>

section \<open>The socket\<close>

text \<open>
  \<^verbatim>\<open>select\<close> on the socket fails, times out or finds it readable; \<^verbatim>\<open>recv\<close> fails or takes the
  next datagram, cut to the size of the buffer; \<^verbatim>\<open>send\<close> succeeds (\<open>None\<close>) or fails.
\<close>

datatype select_answer = SelError errno | SelTimeout | SelReady

datatype recv_answer = RecvError errno | RecvMsg bytes

record sock =
  send_answers :: "errno option list"
  select_answers :: "select_answer list"
  recv_answers :: "recv_answer list"
  sock_clock :: os_clock
  sent :: "bytes list"
  slept :: int

type_synonym 'o msg_cb = "bytes \<Rightarrow> nat \<Rightarrow> 'o \<Rightarrow> unit outcome \<times> 'o"

section \<open>wpa\_ctrl\_request\<close>

text \<open>
  The part from \<^verbatim>\<open>retry_send\<close> on: \<open>Ret True\<close> when \<^verbatim>\<open>send\<close> took the command, \<open>Ret False\<close> at
  \<^verbatim>\<open>send_err\<close>. When no clock works \<^verbatim>\<open>started_at\<close> keeps its value, and \<^verbatim>\<open>n\<close> would be read
  without a value.
\<close>

function retry_send :: "bytes \<Rightarrow> os_reltime \<Rightarrow> sock \<Rightarrow> bool outcome \<times> sock" where
  "retry_send cmd started_at s =
     (case send_answers s of
        [] \<Rightarrow> (Blocked, s)
      | None # r \<Rightarrow> (Ret True, s\<lparr>send_answers := r, sent := sent s @ [cmd]\<rparr>)
      | Some err # r \<Rightarrow>
          (if err = EAGAIN \<or> err = EBUSY \<or> err = EWOULDBLOCK then
             (case os_get_reltime (sock_clock s) of
                (Ret t, c) \<Rightarrow>
                  (if sec started_at = 0 then
                     retry_send cmd (case t of None \<Rightarrow> started_at | Some now \<Rightarrow> now)
                       (s\<lparr>send_answers := r, sock_clock := c, slept := os_sleep 1 0 (slept s)\<rparr>)
                   else
                     (case t of
                        None \<Rightarrow> (Fault, s\<lparr>send_answers := r, sock_clock := c\<rparr>)
                      | Some n \<Rightarrow>
                          (if os_reltime_expired n started_at 5
                           then (Ret False, s\<lparr>send_answers := r, sock_clock := c\<rparr>)
                           else retry_send cmd started_at
                             (s\<lparr>send_answers := r, sock_clock := c,
                                slept := os_sleep 1 0 (slept s)\<rparr>))))
              | (_, c) \<Rightarrow> (Blocked, s\<lparr>send_answers := r, sock_clock := c\<rparr>))
           else (Ret False, s\<lparr>send_answers := r\<rparr>)))"
  by pat_completeness auto
termination
  by (relation "measure (\<lambda>(cmd, t, s). length (send_answers s))") auto

declare retry_send.simps [simp del]

text \<open>
  The loop that waits for the reply. It gives the return value of the function, the contents
  of \<^verbatim>\<open>reply\<close> and the value of \<^verbatim>\<open>*reply_len\<close>; \<open>None\<close> as callback is a null pointer.
\<close>

function recv_loop ::
  "'o msg_cb option \<Rightarrow> nat \<Rightarrow> bytes \<Rightarrow> sock \<Rightarrow> 'o \<Rightarrow>
   (int \<times> bytes \<times> nat) outcome \<times> sock \<times> 'o" where
  "recv_loop msg_cb reply_len reply s st =
     (case select_answers s of
        [] \<Rightarrow> (Blocked, s, st)
      | SelError e # r \<Rightarrow> (Ret (-1, reply, reply_len), s\<lparr>select_answers := r\<rparr>, st)
      | SelTimeout # r \<Rightarrow> (Ret (-2, reply, reply_len), s\<lparr>select_answers := r\<rparr>, st)
      | SelReady # r \<Rightarrow>
          (case recv_answers s of
             [] \<Rightarrow> (Blocked, s\<lparr>select_answers := r\<rparr>, st)
           | RecvError e # q \<Rightarrow>
               (Ret (-1, reply, reply_len), s\<lparr>select_answers := r, recv_answers := q\<rparr>, st)
           | RecvMsg m # q \<Rightarrow>
               (let s1 = s\<lparr>select_answers := r, recv_answers := q\<rparr>;
                    res = length (take reply_len m)
                in case mem_write 0 (take reply_len m) reply of
                     None \<Rightarrow> (Fault, s1, st)
                   | Some reply1 \<Rightarrow>
                       (if res > 0 \<and> reply1 ! 0 = CHR ''<'' then
                          (case msg_cb of
                             None \<Rightarrow> recv_loop msg_cb reply_len reply1 s1 st
                           | Some cb \<Rightarrow>
                               (let res1 = (if res = reply_len then reply_len - 1 else res)
                                in case mem_write res1 [NUL] reply1 of
                                     None \<Rightarrow> (Fault, s1, st)
                                   | Some reply2 \<Rightarrow>
                                       (case cb reply2 res1 st of
                                          (Ret _, st1) \<Rightarrow> recv_loop msg_cb reply_len reply2 s1 st1
                                        | (Exit c msg, st1) \<Rightarrow> (Exit c msg, s1, st1)
                                        | (Blocked, st1) \<Rightarrow> (Blocked, s1, st1)
                                        | (Fault, st1) \<Rightarrow> (Fault, s1, st1))))
                        else (Ret (0, reply1, res), s1, st)))))"
  by pat_completeness auto
termination
  by (relation "measure (\<lambda>(cb, n, reply, s, st). length (select_answers s))") auto

declare recv_loop.simps [simp del]

definition wpa_ctrl_request ::
  "'o msg_cb option \<Rightarrow> bytes \<Rightarrow> nat \<Rightarrow> bytes \<Rightarrow> nat \<Rightarrow> sock \<Rightarrow> 'o \<Rightarrow>
   (int \<times> bytes \<times> nat) outcome \<times> sock \<times> 'o" where
  "wpa_ctrl_request msg_cb cmd cmd_len reply reply_len s st =
     (case mem_read 0 cmd_len cmd of
        None \<Rightarrow> (Fault, s, st)
      | Some c \<Rightarrow>
          (case retry_send c \<lparr>sec = 0, usec = 0\<rparr> s of
             (Ret True, s1) \<Rightarrow> recv_loop msg_cb reply_len reply s1 st
           | (Ret False, s1) \<Rightarrow> (Ret (-1, reply, reply_len), s1, st)
           | (Exit k msg, s1) \<Rightarrow> (Exit k msg, s1, st)
           | (Blocked, s1) \<Rightarrow> (Blocked, s1, st)
           | (Fault, s1) \<Rightarrow> (Fault, s1, st)))"

section \<open>Attaching, receiving and polling\<close>

text \<open>\<open>buf\<close> is the ten bytes of uninitialised stack the helper receives into.\<close>

definition wpa_ctrl_attach_helper :: "bytes \<Rightarrow> bool \<Rightarrow> sock \<Rightarrow> int outcome \<times> sock" where
  "wpa_ctrl_attach_helper buf attach s =
     (case wpa_ctrl_request None (if attach then ''ATTACH'' else ''DETACH'') 6 buf 10 s () of
        (Ret (ret, buf1, len), s1, _) \<Rightarrow>
          (if ret < 0 then (Ret ret, s1)
           else if len = 3 then
             (case mem_read 0 3 buf1 of
                None \<Rightarrow> (Fault, s1)
              | Some b \<Rightarrow> (Ret (if b = ''OK\<newline>'' then 0 else -1), s1))
           else (Ret (-1), s1))
      | (Exit k msg, s1, _) \<Rightarrow> (Exit k msg, s1)
      | (Blocked, s1, _) \<Rightarrow> (Blocked, s1)
      | (Fault, s1, _) \<Rightarrow> (Fault, s1))"

definition wpa_ctrl_attach :: "bytes \<Rightarrow> sock \<Rightarrow> int outcome \<times> sock" where
  "wpa_ctrl_attach buf s = wpa_ctrl_attach_helper buf True s"

definition wpa_ctrl_detach :: "bytes \<Rightarrow> sock \<Rightarrow> int outcome \<times> sock" where
  "wpa_ctrl_detach buf s = wpa_ctrl_attach_helper buf False s"

definition wpa_ctrl_recv ::
  "bytes \<Rightarrow> nat \<Rightarrow> sock \<Rightarrow> (int \<times> bytes \<times> nat) outcome \<times> sock" where
  "wpa_ctrl_recv reply reply_len s =
     (case recv_answers s of
        [] \<Rightarrow> (Blocked, s)
      | RecvError e # q \<Rightarrow> (Ret (-1, reply, reply_len), s\<lparr>recv_answers := q\<rparr>)
      | RecvMsg m # q \<Rightarrow>
          (case mem_write 0 (take reply_len m) reply of
             None \<Rightarrow> (Fault, s\<lparr>recv_answers := q\<rparr>)
           | Some reply1 \<Rightarrow>
               (Ret (0, reply1, length (take reply_len m)), s\<lparr>recv_answers := q\<rparr>)))"

text \<open>
  A failing \<^verbatim>\<open>select\<close> leaves the descriptor set as it was, with the socket in it, and its
  return value is not looked at.
\<close>

definition wpa_ctrl_pending :: "sock \<Rightarrow> bool outcome \<times> sock" where
  "wpa_ctrl_pending s =
     (case select_answers s of
        [] \<Rightarrow> (Blocked, s)
      | SelError e # r \<Rightarrow> (Ret True, s\<lparr>select_answers := r\<rparr>)
      | SelTimeout # r \<Rightarrow> (Ret False, s\<lparr>select_answers := r\<rparr>)
      | SelReady # r \<Rightarrow> (Ret True, s\<lparr>select_answers := r\<rparr>))"

section \<open>Waiting for a reply, without the buffer\<close>

text \<open>
  What the receive loop promises, stated on the answers alone: messages that begin with
  \<^verbatim>\<open><\<close> are handed to \<open>g\<close> one by one, the last byte of one that fills the buffer giving way to
  the terminator, and the first other message is the reply.
\<close>

datatype reply = Reply bytes | ReplyError | ReplyTimeout

definition unsolicited :: "bytes \<Rightarrow> bool" where
  "unsolicited m \<longleftrightarrow> m \<noteq> [] \<and> m ! 0 = CHR ''<''"

definition notice :: "nat \<Rightarrow> bytes \<Rightarrow> bytes" where
  "notice n m = take (if n \<le> length m then n - 1 else length m) m"

fun await_reply ::
  "(bytes \<Rightarrow> 'o \<Rightarrow> unit outcome \<times> 'o) \<Rightarrow> nat \<Rightarrow> select_answer list \<Rightarrow> recv_answer list \<Rightarrow> 'o \<Rightarrow>
   reply outcome \<times> (select_answer list \<times> recv_answer list) \<times> 'o" where
  "await_reply g n [] q st = (Blocked, ([], q), st)"
| "await_reply g n (SelError e # r) q st = (Ret ReplyError, (r, q), st)"
| "await_reply g n (SelTimeout # r) q st = (Ret ReplyTimeout, (r, q), st)"
| "await_reply g n (SelReady # r) [] st = (Blocked, (r, []), st)"
| "await_reply g n (SelReady # r) (RecvError e # q) st = (Ret ReplyError, (r, q), st)"
| "await_reply g n (SelReady # r) (RecvMsg m # q) st =
     (if unsolicited m then
        (case g (notice n m) st of
           (Ret _, st1) \<Rightarrow> await_reply g n r q st1
         | (Exit c msg, st1) \<Rightarrow> (Exit c msg, (r, q), st1)
         | (Blocked, st1) \<Rightarrow> (Blocked, (r, q), st1)
         | (Fault, st1) \<Rightarrow> (Fault, (r, q), st1))
      else (Ret (Reply (take n m)), (r, q), st))"

definition abs_reply :: "int \<times> bytes \<times> nat \<Rightarrow> reply" where
  "abs_reply x =
     (case x of (ret, buf, len) \<Rightarrow>
        if ret = 0 then Reply (take len buf) else if ret = -1 then ReplyError else ReplyTimeout)"

text \<open>
  The contract of a callback: it sees the message only through the pointer and the length it is
  given, so that its effect is a function \<open>g\<close> of the message's bytes; a null pointer has none.
\<close>

locale message_callback =
  fixes cb :: "'o msg_cb option"
    and g :: "bytes \<Rightarrow> 'o \<Rightarrow> unit outcome \<times> 'o"
  assumes no_callback: "cb = None \<Longrightarrow> g m st = (Ret (), st)"
    and callback: "cb = Some f \<Longrightarrow> k \<le> length b \<Longrightarrow> f b k st = g (take k b) st"
begin

text \<open>One turn of the loop on a message.\<close>

lemma recv_loop_message:
  assumes ans: "select_answers s = SelReady # r" "recv_answers s = RecvMsg m # q"
    and n: "0 < n" "n \<le> length reply"
  defines "s1 \<equiv> s\<lparr>select_answers := r, recv_answers := q\<rparr>"
  shows "if unsolicited m
    then \<exists>reply2. length reply2 = length reply \<and>
      recv_loop cb n reply s st =
        (case g (notice n m) st of
           (Ret _, st1) \<Rightarrow> recv_loop cb n reply2 s1 st1
         | (Exit c msg, st1) \<Rightarrow> (Exit c msg, s1, st1)
         | (Blocked, st1) \<Rightarrow> (Blocked, s1, st1)
         | (Fault, st1) \<Rightarrow> (Fault, s1, st1))
    else \<exists>reply1. length reply1 = length reply \<and> take (length (take n m)) reply1 = take n m \<and>
      recv_loop cb n reply s st = (Ret (0, reply1, length (take n m)), s1, st)"
proof -
  define reply1 where "reply1 = take n m @ drop (length (take n m)) reply"
  define res1 where "res1 = (if n \<le> length m then n - 1 else length m)"
  define reply2 where "reply2 = take res1 reply1 @ NUL # drop (Suc res1) reply1"
  have w1: "mem_write 0 (take n m) reply = Some reply1"
    using n by (simp add: mem_write_def reply1_def)
  have len1: "length reply1 = length reply" using n by (simp add: reply1_def)
  have res1: "res1 < n" using n by (auto simp: res1_def)
  have w2: "mem_write res1 [NUL] reply1 = Some reply2"
    using res1 n len1 by (simp add: mem_write_def reply2_def)
  have len2: "length reply2 = length reply" using res1 n len1 by (simp add: reply2_def)
  have test: "length (take n m) > 0 \<and> reply1 ! 0 = CHR ''<'' \<longleftrightarrow> unsolicited m"
    using n by (cases m) (auto simp: reply1_def unsolicited_def nth_append)
  have res: "(if min (length m) n = n then n - 1 else min (length m) n) = res1"
    by (auto simp: res1_def)
  have note_eq: "take res1 reply2 = notice n m"
    using res1 n len1 by (auto simp: reply2_def reply1_def notice_def res1_def)
  show ?thesis
  proof (cases "unsolicited m")
    case False
    then show ?thesis using ans w1 test len1
      by (auto simp: recv_loop.simps [of cb n reply s st] s1_def reply1_def Let_def
          intro!: exI [of _ reply1])
  next
    case True
    show ?thesis
    proof (cases cb)
      case None
      then show ?thesis using True ans w1 test len1 no_callback [OF None]
        by (auto simp: recv_loop.simps [of None n reply s st] s1_def Let_def
            intro!: exI [of _ reply1])
    next
      case (Some f)
      have "f reply2 res1 st = g (notice n m) st"
        using callback [OF Some, of res1 reply2 st] len2 res1 n note_eq by simp
      moreover have "recv_loop (Some f) n reply s st =
          (case f reply2 res1 st of
             (Ret _, st1) \<Rightarrow> recv_loop (Some f) n reply2 s1 st1
           | (Exit c msg, st1) \<Rightarrow> (Exit c msg, s1, st1)
           | (Blocked, st1) \<Rightarrow> (Blocked, s1, st1)
           | (Fault, st1) \<Rightarrow> (Fault, s1, st1))"
        unfolding s1_def using True test
        by (simp add: recv_loop.simps [of "Some f" n reply s st] ans w1 w2 res Let_def)
      ultimately show ?thesis using True Some len2 by (auto intro!: exI [of _ reply2])
    qed
  qed
qed

text \<open>The loop with its buffer does what \<open>await_reply\<close> says, and the buffer keeps its size.\<close>

lemma recv_loop_refines:
  assumes "recv_loop cb n reply s st = (out, s', st')" and "0 < n" and "n \<le> length reply"
  shows "await_reply g n (select_answers s) (recv_answers s) st =
      (map_outcome abs_reply out, (select_answers s', recv_answers s'), st') \<and>
    s' = s\<lparr>select_answers := select_answers s', recv_answers := recv_answers s'\<rparr> \<and>
    (\<forall>ret buf len. out = Ret (ret, buf, len) \<longrightarrow>
       length buf = length reply \<and> len \<le> n \<and> ret \<in> {0, -1, -2})"
  using assms(1,3)
proof (induction "length (select_answers s)" arbitrary: reply s st)
  case 0
  then show ?case by (auto simp: recv_loop.simps [of cb n reply s st])
next
  case (Suc k)
  then obtain a r where sel: "select_answers s = a # r" by (cases "select_answers s") auto
  show ?case
  proof (cases "\<exists>m q. a = SelReady \<and> recv_answers s = RecvMsg m # q")
    case False
    then show ?thesis using Suc.prems sel
      by (auto simp: recv_loop.simps [of cb n reply s st] abs_reply_def
          split: select_answer.splits list.splits recv_answer.splits)
  next
    case True
    then obtain m q where a: "a = SelReady" and rcv: "recv_answers s = RecvMsg m # q" by blast
    let ?s1 = "s\<lparr>select_answers := r, recv_answers := q\<rparr>"
    note msg = recv_loop_message [OF sel [unfolded a] rcv \<open>0 < n\<close> Suc.prems(2), of st]
    show ?thesis
    proof (cases "unsolicited m")
      case False
      then obtain reply1 where "length reply1 = length reply"
        "take (length (take n m)) reply1 = take n m"
        "recv_loop cb n reply s st = (Ret (0, reply1, length (take n m)), ?s1, st)"
        using msg by auto
      then show ?thesis using Suc.prems(1) False sel a rcv by (auto simp: abs_reply_def)
    next
      case True
      then obtain reply2 where len: "length reply2 = length reply" and
        eq: "recv_loop cb n reply s st =
          (case g (notice n m) st of
             (Ret _, st1) \<Rightarrow> recv_loop cb n reply2 ?s1 st1
           | (Exit c msg, st1) \<Rightarrow> (Exit c msg, ?s1, st1)
           | (Blocked, st1) \<Rightarrow> (Blocked, ?s1, st1)
           | (Fault, st1) \<Rightarrow> (Fault, ?s1, st1))"
        using msg by auto
      obtain o1 st1 where g: "g (notice n m) st = (o1, st1)" by (cases "g (notice n m) st")
      show ?thesis
      proof (cases o1)
        case (Ret u)
        then have "recv_loop cb n reply2 ?s1 st1 = (out, s', st')"
          using eq g Suc.prems(1) by simp
        from Suc.hyps(1) [OF _ this] show ?thesis
          using Suc.hyps(2) Suc.prems(2) len sel a rcv True g Ret by simp
      qed (use eq g Suc.prems sel a rcv True in auto)
    qed
  qed
qed

end

text \<open>
  The contract holds for the null pointer, and for every callback that is given by a function of
  the message.
\<close>

interpretation null_callback: message_callback None "\<lambda>m st. (Ret (), st)"
  by unfold_locales auto

interpretation bytes_callback: message_callback "Some (\<lambda>b k. g (take k b))" g for g
  by unfold_locales auto

section \<open>What the reply is\<close>

text \<open>Handing a list of messages to a callback, stopping where it does not return.\<close>

fun deliver :: "(bytes \<Rightarrow> 'o \<Rightarrow> unit outcome \<times> 'o) \<Rightarrow> bytes list \<Rightarrow> 'o \<Rightarrow> unit outcome \<times> 'o" where
  "deliver g [] st = (Ret (), st)"
| "deliver g (m # ms) st = bind_out (g m st) (\<lambda>_. deliver g ms)"

lemma deliver_append:
  "deliver g (xs @ ys) st = bind_out (deliver g xs st) (\<lambda>_. deliver g ys)"
proof (induction xs arbitrary: st)
  case (Cons x xs)
  obtain out st1 where "g x st = (out, st1)" by (cases "g x st")
  with Cons show ?case by (cases out) simp_all
qed simp

lemma await_reply_delivers:
  "\<forall>x \<in> set ns. unsolicited x \<Longrightarrow> \<not> unsolicited m \<Longrightarrow>
   deliver g (map (notice n) ns) st = (Ret (), st1) \<Longrightarrow>
   await_reply g n (replicate (Suc (length ns)) SelReady @ r) (map RecvMsg ns @ RecvMsg m # q) st =
     (Ret (Reply (take n m)), (r, q), st1)"
  by (induction ns arbitrary: st) (auto simp: bind_out_Ret_iff)

lemma await_reply_inversion:
  "await_reply g n sel rcv st = (Ret (Reply d), (r, q), st1) \<Longrightarrow>
   \<exists>ns m. sel = replicate (Suc (length ns)) SelReady @ r \<and> rcv = map RecvMsg ns @ RecvMsg m # q \<and>
     (\<forall>x \<in> set ns. unsolicited x) \<and> \<not> unsolicited m \<and> d = take n m \<and>
     deliver g (map (notice n) ns) st = (Ret (), st1)"
proof (induction g n sel rcv st rule: await_reply.induct)
  case (6 g n r' m q' st)
  show ?case
  proof (cases "unsolicited m")
    case False
    with "6.prems" show ?thesis by (intro exI [of _ "[]"] exI [of _ m]) auto
  next
    case True
    obtain o2 st2 where g: "g (notice n m) st = (o2, st2)" by (cases "g (notice n m) st")
    then obtain u where u: "o2 = Ret u" using "6.prems" True by (cases o2) auto
    then have "await_reply g n r' q' st2 = (Ret (Reply d), (r, q), st1)" using "6.prems" True g by simp
    from "6.IH" [OF True g [symmetric] _ this] u obtain ns m' where
      "r' = replicate (Suc (length ns)) SelReady @ r" "q' = map RecvMsg ns @ RecvMsg m' # q"
      "\<forall>x \<in> set ns. unsolicited x" "\<not> unsolicited m'" "d = take n m'"
      "deliver g (map (notice n) ns) st2 = (Ret (), st1)" by blast
    then show ?thesis using True g u by (intro exI [of _ "m # ns"] exI [of _ m']) auto
  qed
qed auto

section \<open>Sending the command\<close>

text \<open>Everything but the answers used, the clock and the log is left alone.\<close>

lemma os_get_reltime_outcome: "os_get_reltime c = (out, c') \<Longrightarrow> out = Blocked \<or> (\<exists>t. out = Ret t)"
proof (induction c arbitrary: out c' rule: os_get_reltime.induct)
  case (1 c)
  then show ?case
    by (auto simp: os_get_reltime.simps [of c] split: list.splits option.splits clockid.splits)
qed

lemma retry_send_frame:
  "retry_send cmd t s = (out, s') \<Longrightarrow>
   s' = s\<lparr>send_answers := send_answers s', sock_clock := sock_clock s', slept := slept s',
          sent := sent s @ (if out = Ret True then [cmd] else [])\<rparr>"
proof (induction cmd t s arbitrary: out s' rule: retry_send.induct)
  case (1 cmd t s)
  note IH = "1.IH" and eq = "1.prems"
  show ?case
  proof (cases "send_answers s")
    case Nil
    then show ?thesis using eq by (auto simp: retry_send.simps [of cmd t s])
  next
    case (Cons a r)
    obtain o1 c where clk: "os_get_reltime (sock_clock s) = (o1, c)"
      by (cases "os_get_reltime (sock_clock s)")
    show ?thesis
    proof (cases a)
      case None
      then show ?thesis using eq Cons by (auto simp: retry_send.simps [of cmd t s])
    next
      case (Some err)
      show ?thesis
      proof (cases "err = EAGAIN \<or> err = EBUSY \<or> err = EWOULDBLOCK")
        case False
        then show ?thesis using eq Cons Some by (auto simp: retry_send.simps [of cmd t s])
      next
        case again: True
        from os_get_reltime_outcome [OF clk] consider "o1 = Blocked" | v where "o1 = Ret v" by blast
        then show ?thesis
        proof cases
          case 1
          then show ?thesis using eq Cons Some again clk by (auto simp: retry_send.simps [of cmd t s])
        next
          case (2 v)
          note IH1 = IH(1) [OF Cons Some again clk [symmetric] 2]
            and IH2 = IH(2) [OF Cons Some again clk [symmetric] 2]
          show ?thesis
          proof (cases "sec t = 0")
            case True
            then show ?thesis using eq Cons Some again clk 2 IH1
              by (fastforce simp: retry_send.simps [of cmd t s])
          next
            case False
            then show ?thesis using eq Cons Some again clk 2 IH2
              by (cases v) (fastforce simp: retry_send.simps [of cmd t s] split: if_splits)+
          qed
        qed
      qed
    qed
  qed
qed

lemmas retry_send_sent = retry_send_frame [THEN arg_cong [where f = sent], simplified]
lemmas retry_send_select = retry_send_frame [THEN arg_cong [where f = select_answers], simplified]
lemmas retry_send_recv = retry_send_frame [THEN arg_cong [where f = recv_answers], simplified]

lemma os_get_reltime_no_failure:
  "None \<notin> set (clock_answers c) \<Longrightarrow> os_get_reltime c = (out, c') \<Longrightarrow>
     out \<noteq> Ret None \<and> None \<notin> set (clock_answers c')"
  by (auto simp: os_get_reltime.simps [of c] split: list.splits option.splits)

lemma retry_send_no_fault:
  "None \<notin> set (clock_answers (sock_clock s)) \<Longrightarrow> fst (retry_send cmd t s) \<noteq> Fault"
proof (induction cmd t s rule: retry_send.induct)
  case (1 cmd t s)
  obtain o1 c where clk: "os_get_reltime (sock_clock s) = (o1, c)"
    by (cases "os_get_reltime (sock_clock s)")
  note nf = os_get_reltime_no_failure [OF "1.prems" clk]
  from os_get_reltime_outcome [OF clk] nf consider "o1 = Blocked" | v where "o1 = Ret (Some v)"
    by (metis not_Some_eq)
  then show ?case
    by cases (use "1.IH" clk nf in \<open>auto simp: retry_send.simps [of cmd t s] split: list.splits option.splits\<close>)
qed

text \<open>A clock that has not failed so far.\<close>

definition clock_ok :: "sock \<Rightarrow> bool" where
  "clock_ok s \<longleftrightarrow> None \<notin> set (clock_answers (sock_clock s))"

lemma retry_send_clock:
  "clock_ok s \<Longrightarrow> retry_send cmd t s = (out, s') \<Longrightarrow> clock_ok s'"
proof (induction cmd t s arbitrary: out s' rule: retry_send.induct)
  case (1 cmd t s)
  obtain o1 c where clk: "os_get_reltime (sock_clock s) = (o1, c)"
    by (cases "os_get_reltime (sock_clock s)")
  note nf = os_get_reltime_no_failure [OF "1.prems"(1) [unfolded clock_ok_def] clk]
  from os_get_reltime_outcome [OF clk] nf consider "o1 = Blocked" | v where "o1 = Ret (Some v)"
    by (metis not_Some_eq)
  then show ?case
    by cases (use "1.IH" "1.prems" clk nf in
        \<open>auto simp: retry_send.simps [of cmd t s] clock_ok_def split: list.splits option.splits if_splits\<close>)
qed

lemma retry_send_no_exit: "fst (retry_send cmd t s) \<noteq> Exit c x"
proof (induction cmd t s rule: retry_send.induct)
  case (1 cmd t s)
  obtain o1 k where clk: "os_get_reltime (sock_clock s) = (o1, k)"
    by (cases "os_get_reltime (sock_clock s)")
  from os_get_reltime_outcome [OF clk] consider "o1 = Blocked" | v where "o1 = Ret v" by blast
  then show ?case
    by cases (use "1.IH" clk in \<open>auto simp: retry_send.simps [of cmd t s] split: list.splits option.splits\<close>)
qed

section \<open>A request as a whole\<close>

context message_callback
begin

lemma recv_loop_sent:
  assumes "recv_loop cb n reply s st = (out, s', st')" and "0 < n" and "n \<le> length reply"
  shows "sent s' = sent s"
proof -
  have "s' = s\<lparr>select_answers := select_answers s', recv_answers := recv_answers s'\<rparr>"
    using recv_loop_refines [OF assms] by blast
  from arg_cong [OF this, of sent] show ?thesis by simp
qed

lemma recv_loop_rest:
  assumes "recv_loop cb n reply s st = (out, s', st')" and "0 < n" and "n \<le> length reply"
  shows "send_answers s' = send_answers s" and "sock_clock s' = sock_clock s"
proof -
  have eq: "s' = s\<lparr>select_answers := select_answers s', recv_answers := recv_answers s'\<rparr>"
    using recv_loop_refines [OF assms] by blast
  from arg_cong [OF eq, of send_answers] show "send_answers s' = send_answers s" by simp
  from arg_cong [OF eq, of sock_clock] show "sock_clock s' = sock_clock s" by simp
qed

lemma request_clock:
  assumes req: "wpa_ctrl_request cb cmd cmd_len reply n s st = (out, s', st')"
    and n: "0 < n" "n \<le> length reply" and clk: "clock_ok s"
  shows "clock_ok s'"
proof -
  obtain o1 s1 where snd: "retry_send (take cmd_len cmd) \<lparr>sec = 0, usec = 0\<rparr> s = (o1, s1)"
    by (cases "retry_send (take cmd_len cmd) \<lparr>sec = 0, usec = 0\<rparr> s")
  then have "s' = s \<or> s' = s1 \<or> recv_loop cb n reply s1 st = (out, s', st')"
    using req
    by (auto simp: wpa_ctrl_request_def mem_read_def split: outcome.splits bool.splits if_splits)
  then show ?thesis using recv_loop_rest(2) [OF _ n] retry_send_clock [OF clk snd] clk
    by (auto simp: clock_ok_def)
qed

text \<open>What the callback is given in a request.\<close>

lemma request_awaits:
  assumes req: "wpa_ctrl_request cb cmd cmd_len reply n s st = (out, s', st')"
    and n: "0 < n" "n \<le> length reply"
  shows "st' = st \<or> (\<exists>(s1 :: sock) x. await_reply g n (select_answers s1) (recv_answers s1) st =
    (map_outcome abs_reply out, x, st'))"
proof -
  obtain o1 s1 where snd: "retry_send (take cmd_len cmd) \<lparr>sec = 0, usec = 0\<rparr> s = (o1, s1)"
    by (cases "retry_send (take cmd_len cmd) \<lparr>sec = 0, usec = 0\<rparr> s")
  then have "st' = st \<or> recv_loop cb n reply s1 st = (out, s', st')"
    using req by (auto simp: wpa_ctrl_request_def mem_read_def split: outcome.splits bool.splits if_splits)
  then show ?thesis
  proof
    assume "recv_loop cb n reply s1 st = (out, s', st')"
    from conjunct1 [OF recv_loop_refines [OF this n]] show ?thesis by blast
  qed simp
qed

lemma request_codes:
  assumes req: "wpa_ctrl_request cb cmd cmd_len reply n s st = (Ret (ret, buf, len), s', st')"
    and n: "0 < n" "n \<le> length reply"
  shows "ret \<in> {0, -1, -2}"
proof -
  obtain o1 s1 where "retry_send (take cmd_len cmd) \<lparr>sec = 0, usec = 0\<rparr> s = (o1, s1)"
    by (cases "retry_send (take cmd_len cmd) \<lparr>sec = 0, usec = 0\<rparr> s")
  then have "ret = -1 \<or> recv_loop cb n reply s1 st = (Ret (ret, buf, len), s', st')"
    using req
    by (auto simp: wpa_ctrl_request_def mem_read_def split: outcome.splits bool.splits if_splits)
  then show ?thesis using recv_loop_refines [OF _ n] by blast
qed

text \<open>A request that returns 0 got its command out and brought the first proper reply.\<close>

lemma request_success:
  assumes req: "wpa_ctrl_request cb cmd cmd_len reply n s st = (Ret (0, buf, len), s', st')"
    and n: "0 < n" "n \<le> length reply"
  shows "cmd_len \<le> length cmd \<and> sent s' = sent s @ [take cmd_len cmd] \<and>
    length buf = length reply \<and> len \<le> n \<and>
    (\<exists>ns m. recv_answers s = map RecvMsg ns @ RecvMsg m # recv_answers s' \<and>
       select_answers s = replicate (Suc (length ns)) SelReady @ select_answers s' \<and>
       (\<forall>x \<in> set ns. unsolicited x) \<and> \<not> unsolicited m \<and> take len buf = take n m \<and>
       deliver g (map (notice n) ns) st = (Ret (), st'))"
proof -
  have cl: "cmd_len \<le> length cmd"
    using req by (auto simp: wpa_ctrl_request_def mem_read_def split: if_splits)
  obtain o1 s1 where send: "retry_send (take cmd_len cmd) \<lparr>sec = 0, usec = 0\<rparr> s = (o1, s1)"
    by (cases "retry_send (take cmd_len cmd) \<lparr>sec = 0, usec = 0\<rparr> s")
  have o1: "o1 = Ret True" and loop: "recv_loop cb n reply s1 st = (Ret (0, buf, len), s', st')"
    using req cl send
    by (auto simp: wpa_ctrl_request_def mem_read_def split: outcome.splits bool.splits)
  note ref = recv_loop_refines [OF loop n]
  have "await_reply g n (select_answers s1) (recv_answers s1) st =
      (Ret (Reply (take len buf)), (select_answers s', recv_answers s'), st')"
    using ref by (simp add: abs_reply_def)
  from await_reply_inversion [OF this]
  show ?thesis
    using cl ref recv_loop_sent [OF loop n] retry_send_sent [OF send] retry_send_select [OF send]
      retry_send_recv [OF send] o1 by auto
qed

text \<open>Conversely, when the daemon answers, the request returns with the answer.\<close>

lemma request_delivers:
  assumes cl: "cmd_len \<le> length cmd"
    and send: "retry_send (take cmd_len cmd) \<lparr>sec = 0, usec = 0\<rparr> s = (Ret True, s1)"
    and sel: "select_answers s = replicate (Suc (length ns)) SelReady @ r"
    and rcv: "recv_answers s = map RecvMsg ns @ RecvMsg m # q"
    and ns: "\<forall>x \<in> set ns. unsolicited x" and m: "\<not> unsolicited m"
    and del: "deliver g (map (notice n) ns) st = (Ret (), st')"
    and n: "0 < n" "n \<le> length reply"
  shows "\<exists>buf s'. wpa_ctrl_request cb cmd cmd_len reply n s st =
      (Ret (0, buf, length (take n m)), s', st') \<and> take (length (take n m)) buf = take n m \<and>
    length buf = length reply \<and> sent s' = sent s @ [take cmd_len cmd] \<and>
    select_answers s' = r \<and> recv_answers s' = q \<and>
    send_answers s' = send_answers s1 \<and> sock_clock s' = sock_clock s1"
proof -
  obtain out s' st2 where loop: "recv_loop cb n reply s1 st = (out, s', st2)"
    by (cases "recv_loop cb n reply s1 st")
  note ref = recv_loop_refines [OF loop n]
  have "await_reply g n (select_answers s1) (recv_answers s1) st = (Ret (Reply (take n m)), (r, q), st')"
    using await_reply_delivers [OF ns m del, of r q] sel rcv retry_send_select [OF send]
      retry_send_recv [OF send] by simp
  with ref have abs: "map_outcome abs_reply out = Ret (Reply (take n m))"
    and st2: "st2 = st'" "select_answers s' = r" "recv_answers s' = q" by auto
  then obtain ret buf len where out: "out = Ret (ret, buf, len)"
    and rep: "abs_reply (ret, buf, len) = Reply (take n m)"
    by (cases out) auto
  then have ret: "ret = 0" and tl: "take len buf = take n m"
    by (auto simp: abs_reply_def split: if_splits)
  have lens: "length buf = length reply" "len \<le> n" using ref out by auto
  then have "len = length (take n m)" using tl n by (metis length_take min.absorb2 order.trans)
  then show ?thesis
    using loop out ret tl lens cl send st2 recv_loop_sent [OF loop n] retry_send_sent [OF send]
      recv_loop_rest [OF loop n]
    by (auto simp: wpa_ctrl_request_def mem_read_def)
qed

text \<open>No run of a request leaves its buffers, whatever the socket does.\<close>

lemma await_reply_no_fault:
  assumes "\<And>m st. fst (g m st) \<noteq> Fault"
  shows "fst (await_reply g n sel rcv st) \<noteq> Fault"
  using assms
proof (induction g n sel rcv st rule: await_reply.induct)
  case (6 g n r m q st)
  obtain out st1 where g: "g (notice n m) st = (out, st1)" by (cases "g (notice n m) st")
  have "out \<noteq> Fault" using "6.prems" [of "notice n m" st] g by simp
  then show ?case using 6 g by (cases out) auto
qed auto

text \<open>Only the callback ends the process.\<close>

lemma await_reply_exit:
  assumes "\<And>m st c x. fst (g m st) = Exit c x \<Longrightarrow> P c x"
    and "fst (await_reply g n sel rcv st) = Exit c x"
  shows "P c x"
  using assms
proof (induction g n sel rcv st rule: await_reply.induct)
  case (6 g n r m q st)
  obtain out st1 where g: "g (notice n m) st = (out, st1)" by (cases "g (notice n m) st")
  then show ?case using 6 "6.prems"(1) [of "notice n m" st c x]
    by (cases out) (auto split: if_splits)
qed auto

lemma request_exit:
  assumes "\<And>m st c x. fst (g m st) = Exit c x \<Longrightarrow> P c x" and n: "0 < n" "n \<le> length reply"
    and req: "wpa_ctrl_request cb cmd cmd_len reply n s st = (Exit c x, s', st')"
  shows "P c x"
proof -
  obtain o1 s1 where snd: "retry_send (take cmd_len cmd) \<lparr>sec = 0, usec = 0\<rparr> s = (o1, s1)"
    by (cases "retry_send (take cmd_len cmd) \<lparr>sec = 0, usec = 0\<rparr> s")
  have "o1 \<noteq> Exit a b" for a b using retry_send_no_exit snd by (metis fst_conv)
  then have "recv_loop cb n reply s1 st = (Exit c x, s', st')"
    using req snd
    by (auto simp: wpa_ctrl_request_def mem_read_def split: outcome.splits bool.splits if_splits)
  from recv_loop_refines [OF this n]
  have "fst (await_reply g n (select_answers s1) (recv_answers s1) st) = Exit c x" by simp
  then show ?thesis using await_reply_exit assms(1) by blast
qed

lemma request_no_fault:
  assumes "cmd_len \<le> length cmd" and "None \<notin> set (clock_answers (sock_clock s))"
    and "\<And>m st. fst (g m st) \<noteq> Fault" and n: "0 < n" "n \<le> length reply"
  shows "fst (wpa_ctrl_request cb cmd cmd_len reply n s st) \<noteq> Fault"
proof -
  obtain o1 s1 where send: "retry_send (take cmd_len cmd) \<lparr>sec = 0, usec = 0\<rparr> s = (o1, s1)"
    by (cases "retry_send (take cmd_len cmd) \<lparr>sec = 0, usec = 0\<rparr> s")
  obtain out s' st2 where loop: "recv_loop cb n reply s1 st = (out, s', st2)"
    by (cases "recv_loop cb n reply s1 st")
  have "out \<noteq> Fault"
    using recv_loop_refines [OF loop n]
      await_reply_no_fault [OF assms(3), of n "select_answers s1" "recv_answers s1" st]
    by auto
  moreover have "o1 \<noteq> Fault" using retry_send_no_fault [OF assms(2)] send by (metis fst_conv)
  ultimately show ?thesis using assms(1) send loop
    by (auto simp: wpa_ctrl_request_def mem_read_def split: outcome.splits bool.splits)
qed

end

section \<open>How long a send is retried\<close>

text \<open>A clock reading in nanoseconds; a list of readings at least a second apart.\<close>

definition nsec_of :: "int \<times> int \<Rightarrow> int" where
  "nsec_of t = fst t * 1000000000 + snd t"

definition ticking :: "(int \<times> int) list \<Rightarrow> bool" where
  "ticking ts \<longleftrightarrow>
     (\<forall>t \<in> set ts. 1 \<le> fst t \<and> 0 \<le> snd t \<and> snd t < 1000000000) \<and>
     (\<forall>i. Suc i < length ts \<longrightarrow> nsec_of (ts ! i) + 1000000000 \<le> nsec_of (ts ! Suc i))"

lemma ticking_adds: "ticking ts \<Longrightarrow> i < length ts \<Longrightarrow>
    nsec_of (ts ! 0) + int i * 1000000000 \<le> nsec_of (ts ! i)"
proof (induction i)
  case (Suc i)
  then have "nsec_of (ts ! i) + 1000000000 \<le> nsec_of (ts ! Suc i)" by (simp add: ticking_def)
  with Suc show ?case by simp
qed simp

text \<open>A reading as the sources keep it loses less than a microsecond.\<close>

lemma reading_total:
  assumes "0 \<le> snd t" and "snd t < 1000000000"
  defines "r \<equiv> \<lparr>sec = fst t, usec = c_div (snd t) 1000\<rparr>"
  shows "1000 * total_usec r \<le> nsec_of t" and "nsec_of t < 1000 * total_usec r + 1000"
    and "normalised r"
proof -
  have d: "c_div (snd t) 1000 = snd t div 1000" using assms by (simp add: c_div_nonneg)
  have "1000 * (snd t div 1000) \<le> snd t" "snd t < 1000 * (snd t div 1000) + 1000" by auto
  then show "1000 * total_usec r \<le> nsec_of t" "nsec_of t < 1000 * total_usec r + 1000"
    by (auto simp: r_def total_usec_def nsec_of_def d)
  show "normalised r" using usec_of_nsec [OF assms(1,2)] by (simp add: r_def normalised_def)
qed

lemma os_get_reltime_answer:
  "clock_answers c = Some t # r \<Longrightarrow>
   os_get_reltime c =
     (Ret (Some \<lparr>sec = fst t, usec = c_div (snd t) 1000\<rparr>), c\<lparr>clock_answers := r\<rparr>)"
  by (cases t) (simp add: os_get_reltime.simps [of c])

text \<open>
  The retries after the first: \<open>j\<close> sends have failed, and the \<open>i\<close>-th reading to come is at
  least \<open>j + i\<close> seconds after \<^verbatim>\<open>started_at\<close>.
\<close>

lemma retry_send_again:
  assumes "clock_answers (sock_clock s) = map Some ts @ cr"
    and "\<forall>i < length ts. 0 \<le> snd (ts ! i) \<and> snd (ts ! i) < 1000000000 \<and>
      1000 * total_usec st0 + int (j + i) * 1000000000 \<le> nsec_of (ts ! i)"
    and "normalised st0" and "1 \<le> sec st0"
    and "7 \<le> j + length ts" and "7 \<le> j + length (send_answers s)" and "j \<le> 6"
  shows "\<exists>b s'. retry_send cmd st0 s = (Ret b, s') \<and>
    length (send_answers s) \<le> length (send_answers s') + (7 - j)"
  using assms
proof (induction "6 - j" arbitrary: j ts s)
  case (0 j ts s)
  then obtain t ts' where ts: "ts = t # ts'" by (cases ts) auto
  from "0.prems" obtain a r where sa: "send_answers s = a # r" by (cases "send_answers s") auto
  let ?r = "\<lparr>sec = fst t, usec = c_div (snd t) 1000\<rparr>"
  have "j = 6" using 0 by simp
  then have v: "0 \<le> snd t" "snd t < 1000000000"
      "1000 * total_usec st0 + 6000000000 \<le> nsec_of t"
    using "0.prems"(2) ts by fastforce+
  have "os_reltime_expired ?r st0 5"
    using reading_total [OF v(1,2)] v(3) expired_total [OF reading_total(3) [OF v(1,2)] \<open>normalised st0\<close>]
    by auto
  moreover have "os_get_reltime (sock_clock s) =
      (Ret (Some ?r), sock_clock s\<lparr>clock_answers := map Some ts' @ cr\<rparr>)"
    using "0.prems"(1) ts by (intro os_get_reltime_answer) simp
  ultimately show ?case using sa \<open>1 \<le> sec st0\<close> \<open>j = 6\<close>
    by (cases a) (auto simp: retry_send.simps [of cmd st0 s])
next
  case (Suc k j ts s)
  then obtain t ts' where ts: "ts = t # ts'" by (cases ts) auto
  from Suc obtain a r where sa: "send_answers s = a # r" by (cases "send_answers s") auto
  let ?r = "\<lparr>sec = fst t, usec = c_div (snd t) 1000\<rparr>"
  let ?c = "sock_clock s\<lparr>clock_answers := map Some ts' @ cr\<rparr>"
  let ?s = "s\<lparr>send_answers := r, sock_clock := ?c, slept := os_sleep 1 0 (slept s)\<rparr>"
  have clk: "os_get_reltime (sock_clock s) = (Ret (Some ?r), ?c)"
    using Suc.prems(1) ts by (intro os_get_reltime_answer) simp
  have "\<forall>i < length ts'. 0 \<le> snd (ts' ! i) \<and> snd (ts' ! i) < 1000000000 \<and>
      1000 * total_usec st0 + int (Suc j + i) * 1000000000 \<le> nsec_of (ts' ! i)"
  proof (intro allI impI)
    fix i assume "i < length ts'"
    then show "0 \<le> snd (ts' ! i) \<and> snd (ts' ! i) < 1000000000 \<and>
        1000 * total_usec st0 + int (Suc j + i) * 1000000000 \<le> nsec_of (ts' ! i)"
      using Suc.prems(2) [rule_format, of "Suc i"] ts by simp
  qed
  then have IH: "\<exists>b s'. retry_send cmd st0 ?s = (Ret b, s') \<and>
      length (send_answers ?s) \<le> length (send_answers s') + (7 - Suc j)"
    using Suc.hyps(2) Suc.prems ts sa by (intro Suc.hyps(1) [of "Suc j" ?s ts']) auto
  have "retry_send cmd st0 s = retry_send cmd st0 ?s \<or>
      (\<exists>b s'. retry_send cmd st0 s = (Ret b, s') \<and> send_answers s' = r)"
    using sa clk Suc.prems(4) by (cases a) (auto simp: retry_send.simps [of cmd st0 s])
  then show ?case using IH sa Suc.hyps(2) by auto
qed

text \<open>
  C19: a send on a socket that stays full is not retried for ever: when every \<^verbatim>\<open>sleep(1)\<close> moves the
  clock by at least a second, \<^verbatim>\<open>wpa_ctrl_request\<close> gives up or gets its command out after at most
  seven calls of \<^verbatim>\<open>send\<close>, whatever they answer.
\<close>

theorem send_retries_bounded:
  assumes clk: "clock_answers (sock_clock s) = map Some ts @ cr" and tick: "ticking ts"
    and len: "7 \<le> length ts" "7 \<le> length (send_answers s)"
  shows "\<exists>b s'. retry_send cmd \<lparr>sec = 0, usec = 0\<rparr> s = (Ret b, s') \<and>
    length (send_answers s) \<le> length (send_answers s') + 7"
proof -
  obtain t ts' where ts: "ts = t # ts'" using len by (cases ts) auto
  obtain a r where sa: "send_answers s = a # r" using len by (cases "send_answers s") auto
  let ?r = "\<lparr>sec = fst t, usec = c_div (snd t) 1000\<rparr>"
  let ?c = "sock_clock s\<lparr>clock_answers := map Some ts' @ cr\<rparr>"
  let ?s = "s\<lparr>send_answers := r, sock_clock := ?c, slept := os_sleep 1 0 (slept s)\<rparr>"
  have t: "1 \<le> fst t" "0 \<le> snd t" "snd t < 1000000000"
    using tick ts by (auto simp: ticking_def)
  have "\<forall>i < length ts'. 0 \<le> snd (ts' ! i) \<and> snd (ts' ! i) < 1000000000 \<and>
      1000 * total_usec ?r + int (1 + i) * 1000000000 \<le> nsec_of (ts' ! i)"
  proof (intro allI impI)
    fix i assume i: "i < length ts'"
    then have "ts' ! i \<in> set ts" using ts by simp
    then show "0 \<le> snd (ts' ! i) \<and> snd (ts' ! i) < 1000000000 \<and>
        1000 * total_usec ?r + int (1 + i) * 1000000000 \<le> nsec_of (ts' ! i)"
      using ticking_adds [OF tick, of "Suc i"] ts i tick reading_total(1) [OF t(2,3)]
      by (auto simp: ticking_def algebra_simps)
  qed
  then have IH: "\<exists>b s'. retry_send cmd ?r ?s = (Ret b, s') \<and>
      length (send_answers ?s) \<le> length (send_answers s') + (7 - 1)"
    using len ts sa t reading_total(3) [OF t(2,3)] by (intro retry_send_again [of ?s ts' cr]) auto
  have "os_get_reltime (sock_clock s) = (Ret (Some ?r), ?c)"
    using clk ts by (intro os_get_reltime_answer) simp
  then have "retry_send cmd \<lparr>sec = 0, usec = 0\<rparr> s = retry_send cmd ?r ?s \<or>
      (\<exists>b s'. retry_send cmd \<lparr>sec = 0, usec = 0\<rparr> s = (Ret b, s') \<and> send_answers s' = r)"
    using sa by (cases a) (auto simp: retry_send.simps [of cmd "\<lparr>sec = 0, usec = 0\<rparr>" s])
  then show ?thesis using IH sa by auto
qed

text \<open>Seven readings of a clock that moves by one second, and a socket that stays full.\<close>

definition tick7 :: "(int \<times> int) list" where
  "tick7 = [(100, 5), (101, 5), (102, 5), (103, 5), (104, 5), (105, 5), (106, 5)]"

definition full_sock :: sock where
  "full_sock = \<lparr>send_answers = replicate 7 (Some EAGAIN), select_answers = [], recv_answers = [],
     sock_clock = \<lparr>clock_id = CLOCK_MONOTONIC, clock_answers = map Some tick7\<rparr>, sent = [],
     slept = 0\<rparr>"

theorem send_retries_bounded_witness:
  "ticking tick7 \<and>
   (\<exists>b s'. retry_send ''PING'' \<lparr>sec = 0, usec = 0\<rparr> full_sock = (Ret b, s') \<and>
      length (send_answers full_sock) \<le> length (send_answers s') + 7)"
proof -
  have len: "7 \<le> length tick7" "7 \<le> length (send_answers full_sock)"
    by (simp_all add: tick7_def full_sock_def)
  have clk: "clock_answers (sock_clock full_sock) = map Some tick7 @ []"
    by (simp add: full_sock_def)
  have step: "nsec_of (tick7 ! i) + 1000000000 \<le> nsec_of (tick7 ! Suc i)" if "i < 6" for i
  proof -
    have "i \<in> {0, 1, 2, 3, 4, 5}" using that by auto
    then show ?thesis by (auto simp: tick7_def nsec_of_def)
  qed
  have tick: "ticking tick7"
    unfolding ticking_def
  proof (intro conjI allI impI)
    show "\<forall>t \<in> set tick7. 1 \<le> fst t \<and> 0 \<le> snd t \<and> snd t < 1000000000"
      by (simp add: tick7_def)
    show "nsec_of (tick7 ! i) + 1000000000 \<le> nsec_of (tick7 ! Suc i)"
      if "Suc i < length tick7" for i using that by (intro step) (simp add: tick7_def)
  qed
  show ?thesis using send_retries_bounded [OF clk tick len] tick by simp
qed

section \<open>Properties of a request\<close>

text \<open>
  C9: a request that reports success sent its command exactly once and returns the first datagram
  that is not an unsolicited message (cut to the buffer), in a buffer of unchanged size; every
  datagram received before it began with \<^verbatim>\<open><\<close> and was handed to the callback, in order, none lost
  and none repeated.
\<close>

theorem request_returns_first_reply:
  assumes "wpa_ctrl_request (Some (\<lambda>b k. g (take k b))) cmd cmd_len reply n s st =
      (Ret (0, buf, len), s', st')"
    and "0 < n" and "n \<le> length reply"
  shows "cmd_len \<le> length cmd \<and> sent s' = sent s @ [take cmd_len cmd] \<and>
    length buf = length reply \<and> len \<le> n \<and>
    (\<exists>ns m. recv_answers s = map RecvMsg ns @ RecvMsg m # recv_answers s' \<and>
       select_answers s = replicate (Suc (length ns)) SelReady @ select_answers s' \<and>
       (\<forall>x \<in> set ns. unsolicited x) \<and> \<not> unsolicited m \<and> take len buf = take n m \<and>
       deliver g (map (notice n) ns) st = (Ret (), st'))"
  using assms by (rule bytes_callback.request_success)

text \<open>A daemon that sends an event and then the reply, with a callback that collects messages.\<close>

definition collect :: "bytes \<Rightarrow> bytes list \<Rightarrow> unit outcome \<times> bytes list" where
  "collect m st = (Ret (), st @ [m])"

definition pong_sock :: sock where
  "pong_sock = \<lparr>send_answers = [None], select_answers = [SelReady, SelReady],
     recv_answers = [RecvMsg ''<2>EV'', RecvMsg ''PONG''],
     sock_clock = \<lparr>clock_id = CLOCK_BOOTTIME, clock_answers = []\<rparr>, sent = [], slept = 0\<rparr>"

lemma pong_run:
  "wpa_ctrl_request (Some (\<lambda>b k. collect (take k b))) ''PING'' 4 ''........'' 8 pong_sock [] =
     (Ret (0, ''PONGV'' @ [NUL] @ ''..'', 4),
      pong_sock\<lparr>send_answers := [], select_answers := [], recv_answers := [], sent := [''PING'']\<rparr>,
      [''<2>EV''])"
  by code_simp

theorem request_returns_first_reply_witness:
  "\<exists>ns m. recv_answers pong_sock = map RecvMsg ns @ RecvMsg m # [] \<and>
     (\<forall>x \<in> set ns. unsolicited x) \<and> \<not> unsolicited m \<and> take 8 m = ''PONG''"
  using request_returns_first_reply [OF pong_run] by auto

text \<open>
  C10: when \<^verbatim>\<open>send\<close> takes the command and the daemon sends any number of unsolicited messages and
  then a reply, the request returns 0 with that reply, and the callback has been given all of the
  messages, provided it returned each time.
\<close>

theorem request_completes:
  assumes "cmd_len \<le> length cmd" and "send_answers s = None # sa"
    and "select_answers s = replicate (Suc (length ns)) SelReady @ r"
    and "recv_answers s = map RecvMsg ns @ RecvMsg m # q"
    and "\<forall>x \<in> set ns. unsolicited x" and "\<not> unsolicited m"
    and "deliver g (map (notice n) ns) st = (Ret (), st')"
    and "0 < n" and "n \<le> length reply"
  shows "\<exists>buf s'. wpa_ctrl_request (Some (\<lambda>b k. g (take k b))) cmd cmd_len reply n s st =
      (Ret (0, buf, length (take n m)), s', st') \<and> take (length (take n m)) buf = take n m \<and>
    sent s' = sent s @ [take cmd_len cmd]"
proof -
  have send: "retry_send (take cmd_len cmd) \<lparr>sec = 0, usec = 0\<rparr> s =
      (Ret True, s\<lparr>send_answers := sa, sent := sent s @ [take cmd_len cmd]\<rparr>)"
    using assms(2) by (simp add: retry_send.simps [of _ _ s])
  from bytes_callback.request_delivers [OF assms(1) send assms(3-9)] show ?thesis by blast
qed

theorem request_completes_witness:
  "\<exists>buf s'. wpa_ctrl_request (Some (\<lambda>b k. collect (take k b))) ''PING'' 4 ''........'' 8 pong_sock [] =
     (Ret (0, buf, 4), s', [''<2>EV'']) \<and> take 4 buf = ''PONG'' \<and> sent s' = [''PING'']"
proof -
  have "deliver collect (map (notice 8) [''<2>EV'']) [] = (Ret (), [''<2>EV''])"
    by (simp add: collect_def notice_def)
  from request_completes [OF _ _ _ _ _ _ this, of 4 "''PING''" pong_sock "[]" "[]" "''PONG''" "[]"
      "''........''"]
  show ?thesis by (simp add: pong_sock_def unsolicited_def numeral_eq_Suc)
qed

text \<open>
  No run of a request makes an access outside the command, the reply buffer or the clock
  values, whatever \<^verbatim>\<open>send\<close>, \<^verbatim>\<open>select\<close> and \<^verbatim>\<open>recv\<close> answer and however long the datagrams are, as long as
  a clock works and the callback makes no such access.
\<close>

theorem request_memory_safe:
  assumes "cmd_len \<le> length cmd" and "None \<notin> set (clock_answers (sock_clock s))"
    and "\<And>m st. fst (g m st) \<noteq> Fault" and "0 < n" and "n \<le> length reply"
  shows "fst (wpa_ctrl_request (Some (\<lambda>b k. g (take k b))) cmd cmd_len reply n s st) \<noteq> Fault"
  using assms by (rule bytes_callback.request_no_fault)

theorem request_memory_safe_witness:
  "fst (wpa_ctrl_request (Some (\<lambda>b k. collect (take k b))) ''PING'' 4 ''....'' 4 pong_sock []) \<noteq> Fault"
  using request_memory_safe [of 4 "''PING''" pong_sock collect 4 "''....''" "[]"]
  by (simp add: pong_sock_def collect_def)

text \<open>The answer the attach helper looks for.\<close>

lemma take_OK: "length (take 10 m) = 3 \<and> take 3 (take 10 m) = ''OK\<newline>'' \<longleftrightarrow> m = ''OK\<newline>''"
  by (cases "length m \<le> 10") auto

lemma attach_helper_result:
  assumes buf: "length buf = 10" and send: "send_answers s = None # sa"
    and rest: "select_answers s = replicate (Suc (length ns)) SelReady @ r"
      "recv_answers s = map RecvMsg ns @ RecvMsg m # q"
      "\<forall>x \<in> set ns. unsolicited x" "\<not> unsolicited m"
  shows "\<exists>s'. wpa_ctrl_attach_helper buf att s = (Ret (if m = ''OK\<newline>'' then 0 else -1), s') \<and>
    sent s' = sent s @ [if att then ''ATTACH'' else ''DETACH''] \<and>
    select_answers s' = r \<and> recv_answers s' = q \<and> send_answers s' = sa \<and>
    sock_clock s' = sock_clock s"
proof -
  let ?cmd = "if att then ''ATTACH'' else ''DETACH''"
  have cmd: "take 6 ?cmd = ?cmd" "6 \<le> length ?cmd" by simp_all
  have snd: "retry_send (take 6 ?cmd) \<lparr>sec = 0, usec = 0\<rparr> s =
      (Ret True, s\<lparr>send_answers := sa, sent := sent s @ [?cmd]\<rparr>)"
    unfolding cmd(1) using send by (simp add: retry_send.simps [of _ _ s])
  have del: "deliver (\<lambda>m st. (Ret (), st)) ms () = (Ret (), ())" for ms by (induction ms) simp_all
  obtain b s' where req: "wpa_ctrl_request None ?cmd 6 buf 10 s () =
      (Ret (0, b, length (take 10 m)), s', ())"
    and b: "take (length (take 10 m)) b = take 10 m" "length b = length buf"
    and s': "sent s' = sent s @ [take 6 ?cmd]" "select_answers s' = r" "recv_answers s' = q"
      "send_answers s' = sa" "sock_clock s' = sock_clock s"
    using null_callback.request_delivers [OF cmd(2) snd rest del, of 10 buf] buf by auto
  have "mem_read 0 3 b = Some (take 3 b)" using b buf by (simp add: mem_read_def)
  moreover have "length (take 10 m) = 3 \<Longrightarrow> take 3 b = take 3 (take 10 m)"
    using b(1) by (metis take_all order_refl)
  ultimately show ?thesis
    using req s' cmd(1) take_OK [of m] unfolding wpa_ctrl_attach_helper_def by auto
qed

text \<open>
  \<^verbatim>\<open>wpa_ctrl_attach\<close> sends \<^verbatim>\<open>ATTACH\<close>, passes over any unsolicited messages and succeeds exactly
  when the daemon's reply is the three bytes \<^verbatim>\<open>OK\<close> and newline; \<^verbatim>\<open>wpa_ctrl_detach\<close> does the same with
  \<^verbatim>\<open>DETACH\<close>.
\<close>

theorem attach_detach_result:
  assumes "length buf = 10" and "send_answers s = None # sa"
    and "select_answers s = replicate (Suc (length ns)) SelReady @ r"
    and "recv_answers s = map RecvMsg ns @ RecvMsg m # q"
    and "\<forall>x \<in> set ns. unsolicited x" and "\<not> unsolicited m"
  shows "(\<exists>s'. wpa_ctrl_attach buf s = (Ret (if m = ''OK\<newline>'' then 0 else -1), s') \<and>
      sent s' = sent s @ [''ATTACH''] \<and> recv_answers s' = q) \<and>
    (\<exists>s'. wpa_ctrl_detach buf s = (Ret (if m = ''OK\<newline>'' then 0 else -1), s') \<and>
      sent s' = sent s @ [''DETACH''] \<and> recv_answers s' = q)"
  using attach_helper_result [OF assms, of True] attach_helper_result [OF assms, of False]
  unfolding wpa_ctrl_attach_def wpa_ctrl_detach_def by auto

theorem attach_detach_result_witness:
  "\<exists>s'. wpa_ctrl_attach ''..........'' (pong_sock\<lparr>recv_answers := [RecvMsg ''<2>EV'', RecvMsg ''OK\<newline>'']\<rparr>)
     = (Ret 0, s') \<and> sent s' = [''ATTACH''] \<and> recv_answers s' = []"
  using attach_detach_result
    [of "''..........''" "pong_sock\<lparr>recv_answers := [RecvMsg ''<2>EV'', RecvMsg ''OK\<newline>'']\<rparr>" "[]"
      "[''<2>EV'']" "[]" "''OK\<newline>''" "[]"]
  by (simp add: pong_sock_def unsolicited_def)

lemma await_reply_errors:
  "\<forall>x \<in> set ns. unsolicited x \<Longrightarrow> deliver g (map (notice n) ns) st = (Ret (), st1) \<Longrightarrow>
   await_reply g n (replicate (length ns) SelReady @ SelTimeout # r) (map RecvMsg ns @ q) st =
     (Ret ReplyTimeout, (r, q), st1) \<and>
   await_reply g n (replicate (length ns) SelReady @ SelError e # r) (map RecvMsg ns @ q) st =
     (Ret ReplyError, (r, q), st1) \<and>
   await_reply g n (replicate (length ns) SelReady @ SelReady # r)
     (map RecvMsg ns @ RecvError e # q) st = (Ret ReplyError, (r, q), st1)"
  by (induction ns arbitrary: st) (auto simp: bind_out_Ret_iff)

context message_callback
begin

lemma request_fails:
  assumes cl: "cmd_len \<le> length cmd" and send: "send_answers s = None # sa"
    and aw: "await_reply g n (select_answers s) (recv_answers s) st = (Ret R, (r, q), st')"
    and R: "R = ReplyTimeout \<or> R = ReplyError" and n: "0 < n" "n \<le> length reply"
  shows "\<exists>buf len s'. wpa_ctrl_request cb cmd cmd_len reply n s st =
    (Ret (if R = ReplyTimeout then -2 else -1, buf, len), s', st')"
proof -
  let ?s1 = "s\<lparr>send_answers := sa, sent := sent s @ [take cmd_len cmd]\<rparr>"
  have snd: "retry_send (take cmd_len cmd) \<lparr>sec = 0, usec = 0\<rparr> s = (Ret True, ?s1)"
    using send by (simp add: retry_send.simps [of _ _ s])
  obtain out s' st2 where loop: "recv_loop cb n reply ?s1 st = (out, s', st2)"
    by (cases "recv_loop cb n reply ?s1 st")
  note ref = recv_loop_refines [OF loop n]
  have "map_outcome abs_reply out = Ret R" and st2: "st2 = st'" using ref aw by auto
  then obtain ret buf len where out: "out = Ret (ret, buf, len)" "abs_reply (ret, buf, len) = R"
    by (cases out) auto
  moreover have "ret \<in> {0, -1, -2}" using ref out by auto
  ultimately show ?thesis using R loop snd cl st2
    by (auto simp: wpa_ctrl_request_def mem_read_def abs_reply_def split: if_splits)
qed

end

text \<open>
  A request ends with -2 when ten seconds pass without a datagram and with -1 when \<^verbatim>\<open>select\<close> or
  \<^verbatim>\<open>recv\<close> fails, after any number of unsolicited messages, which have all reached the callback.
\<close>

theorem request_error_codes:
  assumes cl: "cmd_len \<le> length cmd" and send: "send_answers s = None # sa"
    and ns: "\<forall>x \<in> set ns. unsolicited x" "deliver g (map (notice n) ns) st = (Ret (), st')"
    and n: "0 < n" "n \<le> length reply"
  defines "req \<equiv> \<lambda>sel rcv. wpa_ctrl_request (Some (\<lambda>b k. g (take k b))) cmd cmd_len reply n
    (s\<lparr>select_answers := replicate (length ns) SelReady @ sel, recv_answers := map RecvMsg ns @ rcv\<rparr>) st"
  shows "(\<exists>buf len s'. req (SelTimeout # r) q = (Ret (-2, buf, len), s', st')) \<and>
    (\<exists>buf len s'. req (SelError e # r) q = (Ret (-1, buf, len), s', st')) \<and>
    (\<exists>buf len s'. req (SelReady # r) (RecvError e # q) = (Ret (-1, buf, len), s', st'))"
proof -
  have *: "\<exists>buf len s'. req sel rcv = (Ret (if R = ReplyTimeout then -2 else -1, buf, len), s', st')"
    if "await_reply g n (replicate (length ns) SelReady @ sel) (map RecvMsg ns @ rcv) st =
        (Ret R, (r, q), st')" and "R = ReplyTimeout \<or> R = ReplyError" for sel rcv R
    unfolding req_def using that cl send n by (intro bytes_callback.request_fails) auto
  from await_reply_errors [OF ns] show ?thesis
    using * [of "SelTimeout # r" q ReplyTimeout] * [of "SelError e # r" q ReplyError]
      * [of "SelReady # r" "RecvError e # q" ReplyError] by simp
qed

theorem request_error_codes_witness:
  "\<exists>buf len s'. wpa_ctrl_request (Some (\<lambda>b k. collect (take k b))) ''PING'' 4 ''....'' 4
     (pong_sock\<lparr>select_answers := [SelReady, SelTimeout], recv_answers := [RecvMsg ''<2>'']\<rparr>) [] =
     (Ret (-2, buf, len), s', [''<2>''])"
proof -
  have "deliver collect (map (notice 4) [''<2>'']) [] = (Ret (), [''<2>''])"
    by (simp add: collect_def notice_def)
  from request_error_codes [OF _ _ _ this, of 4 "''PING''" pong_sock "[]" "''....''" "[]" "[]"]
  show ?thesis by (simp add: pong_sock_def unsolicited_def)
qed

end
