(* ===== verification/Ctrl_Open.thy ===== *)
theory Ctrl_Open
  imports Prelude Os_Unix
begin

text \<open>
  Opening and closing a control connection over UNIX sockets (\<^verbatim>\<open>CONFIG_CTRL_IFACE_UNIX\<close> in
  \<^verbatim>\<open>src/src/wpa_ctrl/wpa_ctrl.c\<close>): \<^verbatim>\<open>struct wpa_ctrl\<close>, \<^verbatim>\<open>wpa_ctrl_open\<close>, \<^verbatim>\<open>wpa_ctrl_close\<close> and
  \<^verbatim>\<open>wpa_ctrl_get_fd\<close>. The operating system is a record of what is allocated, open and present in
  the file system, and of how it answers the calls.
\<close>

section \<open>State\<close>

text \<open>\<^verbatim>\<open>sun_path\<close> has 108 bytes.\<close>

definition SUN_PATH_SIZE :: nat where
  "SUN_PATH_SIZE = 108"

definition AF_UNIX :: int where
  "AF_UNIX = 1"

record sockaddr_un =
  sun_family :: int
  sun_path :: bytes

record wpa_ctrl =
  ctrl_s :: int
  local_addr :: sockaddr_un
  dest :: sockaddr_un

text \<open>
  The process and its kernel: the static \<^verbatim>\<open>counter\<close>, the number of live heap blocks, the open
  descriptors, those of them that are non-blocking, the socket files; then the process id and the
  answers: whether \<^verbatim>\<open>malloc\<close> succeeds, the descriptor \<^verbatim>\<open>socket\<close> gives, why \<^verbatim>\<open>bind\<close> fails on a free
  name, whether \<^verbatim>\<open>unlink\<close> may remove a file, which addresses \<^verbatim>\<open>connect\<close> reaches, which names
  \<^verbatim>\<open>socket_local_client_connect\<close> does on Android, and the two answers of \<^verbatim>\<open>fcntl\<close>.
\<close>

record sys =
  counter :: int
  heap :: nat
  fds :: "int list"
  nonblocking :: "int list"
  files :: "string list"
  pid :: int
  malloc_ok :: bool
  socket_answer :: "int option"
  bind_error :: "errno option"
  unlink_ok :: bool
  connect_ok :: "sockaddr_un \<Rightarrow> bool"
  local_connect_ok :: "string \<Rightarrow> bool"
  getfl_ok :: bool
  setfl_ok :: bool

section \<open>System calls\<close>

definition sys_bind :: "string \<Rightarrow> sys \<Rightarrow> errno option \<times> sys" where
  "sys_bind path k =
     (if path \<in> set (files k) then (Some EADDRINUSE, k)
      else (case bind_error k of Some e \<Rightarrow> (Some e, k) | None \<Rightarrow> (None, k\<lparr>files := path # files k\<rparr>)))"

definition sys_unlink :: "string \<Rightarrow> sys \<Rightarrow> sys" where
  "sys_unlink path k = (if unlink_ok k then k\<lparr>files := removeAll path (files k)\<rparr> else k)"

definition sys_close :: "int \<Rightarrow> sys \<Rightarrow> sys" where
  "sys_close fd k = k\<lparr>fds := remove1 fd (fds k), nonblocking := removeAll fd (nonblocking k)\<rparr>"

definition sys_free :: "sys \<Rightarrow> sys" where
  "sys_free k = k\<lparr>heap := heap k - 1\<rparr>"

text \<open>
  \<^verbatim>\<open>snprintf\<close> of a string without conversions left: at most \<open>size - 1\<close> bytes and a NUL are stored,
  and the full length is returned.
\<close>

definition os_snprintf :: "bytes \<Rightarrow> nat \<Rightarrow> string \<Rightarrow> (bytes \<times> nat) option" where
  "os_snprintf buf siz str =
     (if siz = 0 then Some (buf, length str)
      else (case mem_write 0 (take (siz - 1) str @ [NUL]) buf of
              None \<Rightarrow> None
            | Some b \<Rightarrow> Some (b, length str)))"

text \<open>\<^verbatim>\<open>strncmp(a, b, n) == 0\<close>; \<open>None\<close> when it reads past the end of one of the objects.\<close>

fun os_strncmp_eq :: "bytes \<Rightarrow> bytes \<Rightarrow> nat \<Rightarrow> bool option" where
  "os_strncmp_eq a b 0 = Some True"
| "os_strncmp_eq (x # a) (y # b) (Suc n) =
     (if x \<noteq> y then Some False else if x = NUL then Some True else os_strncmp_eq a b n)"
| "os_strncmp_eq _ _ (Suc n) = None"

section \<open>wpa\_ctrl\_open\<close>

definition local_name :: "int \<Rightarrow> int \<Rightarrow> string" where
  "local_name p c = ''/tmp/wpa_ctrl_'' @ dec_int p @ ''-'' @ dec_int c"

text \<open>
  The C string in a buffer.
\<close>

definition c_string :: "bytes \<Rightarrow> string" where
  "c_string b = takeWhile (\<lambda>c. c \<noteq> NUL) b"

text \<open>
  From the label \<^verbatim>\<open>try_again\<close> to the end of the \<^verbatim>\<open>bind\<close>: \<open>Ret (Some ctrl)\<close> when the socket is bound,
  \<open>Ret None\<close> after one of the two returns of \<^verbatim>\<open>NULL\<close>.
\<close>

function try_again :: "nat \<Rightarrow> wpa_ctrl \<Rightarrow> sys \<Rightarrow> wpa_ctrl option outcome \<times> sys" where
  "try_again tries ctrl k =
     (case os_snprintf (sun_path (local_addr ctrl)) SUN_PATH_SIZE (local_name (pid k) (counter k)) of
        None \<Rightarrow> (Fault, k)
      | Some (b, ret) \<Rightarrow>
          (let ctrl1 = ctrl\<lparr>local_addr := (local_addr ctrl)\<lparr>sun_path := b\<rparr>\<rparr>
           in if ret \<ge> SUN_PATH_SIZE then (Ret None, sys_free (sys_close (ctrl_s ctrl1) k))
              else
                (case sys_bind (c_string b) k of
                   (None, k1) \<Rightarrow> (Ret (Some ctrl1), k1)
                 | (Some e, k1) \<Rightarrow>
                     (if e = EADDRINUSE \<and> Suc tries < 2
                      then try_again (Suc tries) ctrl1 (sys_unlink (c_string b) k1)
                      else (Ret None, sys_free (sys_close (ctrl_s ctrl1) k1))))))"
  by pat_completeness auto
termination
  by (relation "measure (\<lambda>(tries, ctrl, k). 2 - tries)") auto

declare try_again.simps [simp del]

text \<open>
  The destination address: \<open>None\<close> for an access outside the objects; the flag says that the path
  did not fit.
\<close>

definition set_dest :: "bytes \<Rightarrow> wpa_ctrl \<Rightarrow> (wpa_ctrl \<times> bool) option" where
  "set_dest ctrl_path ctrl =
     (let d = (dest ctrl)\<lparr>sun_family := AF_UNIX\<rparr>
      in case os_strncmp_eq ctrl_path (''@abstract:'' @ [NUL]) 10 of
           None \<Rightarrow> None
         | Some True \<Rightarrow>
             (case mem_write 0 [NUL] (sun_path d) of
                None \<Rightarrow> None
              | Some b0 \<Rightarrow>
                  (case os_strlcpy (drop 1 b0) (drop 10 ctrl_path) (SUN_PATH_SIZE - 1) of
                     None \<Rightarrow> None
                   | Some (b1, _) \<Rightarrow>
                       Some (ctrl\<lparr>dest := d\<lparr>sun_path := take 1 b0 @ b1\<rparr>\<rparr>, False)))
         | Some False \<Rightarrow>
             (case os_strlcpy (sun_path d) ctrl_path SUN_PATH_SIZE of
                None \<Rightarrow> None
              | Some (b1, res) \<Rightarrow>
                  Some (ctrl\<lparr>dest := d\<lparr>sun_path := b1\<rparr>\<rparr>, res \<ge> SUN_PATH_SIZE)))"

definition set_nonblocking :: "wpa_ctrl \<Rightarrow> sys \<Rightarrow> sys" where
  "set_nonblocking ctrl k =
     (if getfl_ok k \<and> setfl_ok k then k\<lparr>nonblocking := ctrl_s ctrl # nonblocking k\<rparr> else k)"

text \<open>From the destination address to the end of the function.\<close>

definition open_connect :: "bytes \<Rightarrow> wpa_ctrl \<Rightarrow> sys \<Rightarrow> wpa_ctrl option outcome \<times> sys" where
  "open_connect path ctrl k =
     (case set_dest path ctrl of
        None \<Rightarrow> (Fault, k)
      | Some (ctrl1, too_long) \<Rightarrow>
          (if too_long then (Ret None, sys_free (sys_close (ctrl_s ctrl1) k))
           else if \<not> connect_ok k (dest ctrl1) then
             (Ret None,
              sys_free (sys_unlink (c_string (sun_path (local_addr ctrl1))) (sys_close (ctrl_s ctrl1) k)))
           else (Ret (Some ctrl1), set_nonblocking ctrl1 k)))"

text \<open>
  Up to the \<^verbatim>\<open>bind\<close>; what the function does with the bound socket is the argument \<open>cont\<close>, which
  differs between the builds.
\<close>

definition open_bound ::
  "(bytes \<Rightarrow> wpa_ctrl \<Rightarrow> sys \<Rightarrow> wpa_ctrl option outcome \<times> sys) \<Rightarrow> bytes option \<Rightarrow> sys \<Rightarrow>
   wpa_ctrl option outcome \<times> sys" where
  "open_bound cont ctrl_path k =
     (case ctrl_path of
        None \<Rightarrow> (Ret None, k)
      | Some path \<Rightarrow>
          (if \<not> malloc_ok k then (Ret None, k)
           else
             (let k1 = k\<lparr>heap := heap k + 1\<rparr>;
                  zero = \<lparr>sun_family = 0, sun_path = replicate SUN_PATH_SIZE NUL\<rparr>
              in case socket_answer k1 of
                   None \<Rightarrow> (Ret None, sys_free k1)
                 | Some fd \<Rightarrow>
                     bind_out
                       (try_again 0
                          \<lparr>ctrl_s = fd, local_addr = zero\<lparr>sun_family := AF_UNIX\<rparr>, dest = zero\<rparr>
                          (k1\<lparr>fds := fd # fds k1, counter := counter k1 + 1\<rparr>))
                       (\<lambda>bound k2.
                          case bound of
                            None \<Rightarrow> (Ret None, k2)
                          | Some ctrl \<Rightarrow> cont path ctrl k2))))"

definition wpa_ctrl_open :: "bytes option \<Rightarrow> sys \<Rightarrow> wpa_ctrl option outcome \<times> sys" where
  "wpa_ctrl_open = open_bound open_connect"

section \<open>Closing\<close>

definition wpa_ctrl_close :: "wpa_ctrl option \<Rightarrow> sys \<Rightarrow> sys" where
  "wpa_ctrl_close ctrl k =
     (case ctrl of
        None \<Rightarrow> k
      | Some c \<Rightarrow>
          (let k1 = sys_unlink (c_string (sun_path (local_addr c))) k;
               k2 = (if ctrl_s c \<ge> 0 then sys_close (ctrl_s c) k1 else k1)
           in sys_free k2))"

definition wpa_ctrl_get_fd :: "wpa_ctrl \<Rightarrow> int" where
  "wpa_ctrl_get_fd ctrl = ctrl_s ctrl"

section \<open>Names\<close>

definition int32 :: "int \<Rightarrow> bool" where
  "int32 i \<longleftrightarrow> - (2 ^ 31) \<le> i \<and> i < 2 ^ 31"

lemma length_local_name: "int32 p \<Longrightarrow> int32 c \<Longrightarrow> length (local_name p c) < SUN_PATH_SIZE"
  using length_dec_int_int32 [of p] length_dec_int_int32 [of c]
  by (simp add: local_name_def int32_def SUN_PATH_SIZE_def)

lemma local_name_no_NUL: "NUL \<notin> set (local_name p c)"
  by (simp add: local_name_def dec_int_no_NUL)

lemma c_string_append: "NUL \<notin> set a \<Longrightarrow> c_string (a @ NUL # r) = a"
  by (induction a) (auto simp: c_string_def)

lemma os_snprintf_fits:
  assumes "length str < siz" and "siz \<le> length buf"
  shows "os_snprintf buf siz str = Some (str @ NUL # drop (Suc (length str)) buf, length str)"
  using assms by (simp add: os_snprintf_def mem_write_def)

lemma os_strncmp_prefix:
  "NUL \<notin> set a \<Longrightarrow> NUL \<notin> set l \<Longrightarrow>
   os_strncmp_eq (a @ NUL # r) (l @ [NUL]) (length l) = Some (take (length l) a = l)"
proof (induction l arbitrary: a)
  case (Cons y l)
  then show ?case by (cases a) auto
qed simp

text \<open>
  The name of the local socket as the file system sees it, and the address the socket is connected
  to.
\<close>

definition local_sun_path :: "int \<Rightarrow> int \<Rightarrow> bytes" where
  "local_sun_path p c =
     local_name p c @ replicate (SUN_PATH_SIZE - length (local_name p c)) NUL"

definition abstract_path :: "string \<Rightarrow> bool" where
  "abstract_path str \<longleftrightarrow> take 10 str = ''@abstract:''"

definition dest_sun_path :: "string \<Rightarrow> bytes" where
  "dest_sun_path str =
     (if abstract_path str
      then NUL # strlcpy_result (replicate (SUN_PATH_SIZE - 1) NUL) (drop 10 str) (SUN_PATH_SIZE - 1)
      else strlcpy_result (replicate SUN_PATH_SIZE NUL) str SUN_PATH_SIZE)"

lemma c_string_local: "int32 p \<Longrightarrow> int32 c \<Longrightarrow> c_string (local_sun_path p c) = local_name p c"
  using length_local_name [of p c] c_string_append [OF local_name_no_NUL [of p c]]
  unfolding local_sun_path_def
  by (cases "SUN_PATH_SIZE - length (local_name p c)") auto

lemma set_dest_eq:
  assumes "NUL \<notin> set str" and "dest ctrl = \<lparr>sun_family = f, sun_path = replicate SUN_PATH_SIZE NUL\<rparr>"
  shows "set_dest (str @ NUL # rest) ctrl =
    Some (ctrl\<lparr>dest := \<lparr>sun_family = AF_UNIX, sun_path = dest_sun_path str\<rparr>\<rparr>,
      \<not> abstract_path str \<and> SUN_PATH_SIZE \<le> length str)"
proof -
  have cmp: "os_strncmp_eq (str @ NUL # rest) (''@abstract:'' @ [NUL]) 10 = Some (abstract_path str)"
  proof -
    have len: "length ''@abstract:'' = 10" and "NUL \<notin> set ''@abstract:''" by simp_all
    from os_strncmp_prefix [OF assms(1) this(2), of rest] show ?thesis
      unfolding len abstract_path_def .
  qed
  have z: "replicate SUN_PATH_SIZE NUL = NUL # replicate (SUN_PATH_SIZE - 1) NUL"
    by (simp add: SUN_PATH_SIZE_def numeral_eq_Suc)
  show ?thesis
  proof (cases "abstract_path str")
    case False
    then show ?thesis
      using cmp assms os_strlcpy_eq [OF refl assms(1), of SUN_PATH_SIZE "replicate SUN_PATH_SIZE NUL" rest]
      by (simp add: set_dest_def dest_sun_path_def Let_def)
  next
    case True
    then have "10 \<le> length str" by (auto simp: abstract_path_def dest!: arg_cong [where f = length])
    then have "drop 10 (str @ NUL # rest) = drop 10 str @ NUL # rest" by simp
    moreover have "NUL \<notin> set (drop 10 str)" using assms(1) by (meson in_set_dropD)
    moreover have "mem_write 0 [NUL] (replicate SUN_PATH_SIZE NUL) = Some (replicate SUN_PATH_SIZE NUL)"
      unfolding z by (simp add: mem_write_def)
    ultimately show ?thesis
      using cmp True assms(2) os_strlcpy_eq [OF refl, of "drop 10 str" "SUN_PATH_SIZE - 1"
          "replicate (SUN_PATH_SIZE - 1) NUL" rest]
      unfolding set_dest_def Let_def cmp z
      by (simp add: dest_sun_path_def)
  qed
qed

section \<open>What opening does\<close>

text \<open>Binding: a file left behind under the name is removed, once.\<close>

definition cleared :: "string \<Rightarrow> sys \<Rightarrow> sys" where
  "cleared name k = (if name \<in> set (files k) then sys_unlink name k else k)"

lemma try_again_eq:
  assumes len: "length (sun_path (local_addr ctrl)) = SUN_PATH_SIZE"
    and z: "drop (Suc (length (local_name (pid k) (counter k)))) (sun_path (local_addr ctrl)) =
      replicate (SUN_PATH_SIZE - Suc (length (local_name (pid k) (counter k)))) NUL"
    and i: "int32 (pid k)" "int32 (counter k)"
  defines "name \<equiv> local_name (pid k) (counter k)"
  shows "try_again 0 ctrl k =
    (if name \<in> set (files (cleared name k)) \<or> bind_error k \<noteq> None
     then (Ret None, sys_free (sys_close (ctrl_s ctrl) (cleared name k)))
     else (Ret (Some (ctrl\<lparr>local_addr := (local_addr ctrl)\<lparr>sun_path := local_sun_path (pid k) (counter k)\<rparr>\<rparr>)),
           (cleared name k)\<lparr>files := name # files (cleared name k)\<rparr>))"
proof -
  let ?b = "local_sun_path (pid k) (counter k)"
  let ?c = "ctrl\<lparr>local_addr := (local_addr ctrl)\<lparr>sun_path := ?b\<rparr>\<rparr>"
  have l: "length name < SUN_PATH_SIZE" using length_local_name [OF i] by (simp add: name_def)
  have b: "name @ NUL # replicate (SUN_PATH_SIZE - Suc (length name)) NUL = ?b"
    using l unfolding local_sun_path_def name_def [symmetric]
    by (metis Suc_diff_Suc replicate_Suc)
  have cs: "c_string ?b = name" using c_string_local [OF i] by (simp add: name_def)
  have pr: "os_snprintf (sun_path (local_addr ctrl)) SUN_PATH_SIZE name = Some (?b, length name)"
    using os_snprintf_fits [OF l, of "sun_path (local_addr ctrl)"] len z b by (simp add: name_def)
  have db: "drop (Suc (length name)) ?b = replicate (SUN_PATH_SIZE - Suc (length name)) NUL"
    unfolding b [symmetric] by simp
  have pr2: "os_snprintf ?b SUN_PATH_SIZE name = Some (?b, length name)"
  proof -
    have "length ?b = SUN_PATH_SIZE" using l by (simp add: local_sun_path_def name_def)
    then show ?thesis using os_snprintf_fits [OF l, of ?b] unfolding db b by simp
  qed
  have second: "try_again (Suc 0) ?c k' =
      (case sys_bind name k' of
         (None, k1) \<Rightarrow> (Ret (Some ?c), k1)
       | (Some e, k1) \<Rightarrow> (Ret None, sys_free (sys_close (ctrl_s ctrl) k1)))"
    if "pid k' = pid k" "counter k' = counter k" for k'
    using that pr2 l cs unfolding name_def
    by (subst try_again.simps) (auto simp: Let_def split: option.splits prod.splits)
  have first: "try_again 0 ctrl k =
      (case sys_bind name k of
         (None, k1) \<Rightarrow> (Ret (Some ?c), k1)
       | (Some e, k1) \<Rightarrow>
           (if e = EADDRINUSE then try_again (Suc 0) ?c (sys_unlink name k1)
            else (Ret None, sys_free (sys_close (ctrl_s ctrl) k1))))"
    using pr l cs unfolding name_def
    by (subst try_again.simps) (auto simp: Let_def split: option.splits prod.splits)
  have un: "sys_unlink name k = k" if "name \<notin> set (files k)"
    using that by (simp add: sys_unlink_def)
  have sec: "try_again (Suc 0) ?c (sys_unlink name k) =
      (case sys_bind name (sys_unlink name k) of
         (None, k1) \<Rightarrow> (Ret (Some ?c), k1)
       | (Some e, k1) \<Rightarrow> (Ret None, sys_free (sys_close (ctrl_s ctrl) k1)))"
    by (rule second) (simp_all add: sys_unlink_def)
  show ?thesis
  proof (cases "name \<in> set (files k)")
    case True
    then show ?thesis using first sec
      by (auto simp: sys_bind_def cleared_def sys_unlink_def split: option.splits)
  next
    case False
    then show ?thesis using first sec un
      by (auto simp: sys_bind_def cleared_def split: option.splits)
  qed
qed

lemma cleared_simps [simp]:
  "pid (cleared n k) = pid k" "counter (cleared n k) = counter k" "heap (cleared n k) = heap k"
  "fds (cleared n k) = fds k" "bind_error (cleared n k) = bind_error k"
  "connect_ok (cleared n k) = connect_ok k" "unlink_ok (cleared n k) = unlink_ok k"
  by (simp_all add: cleared_def sys_unlink_def)

lemma cleared_files:
  "set (files (cleared n k)) = (if unlink_ok k then set (files k) - {n} else set (files k))"
  by (auto simp: cleared_def sys_unlink_def)

text \<open>The connection that is opened, and the kernel while it is being opened.\<close>

definition opened :: "string \<Rightarrow> int \<Rightarrow> sys \<Rightarrow> wpa_ctrl" where
  "opened str fd k =
     \<lparr>ctrl_s = fd,
      local_addr = \<lparr>sun_family = AF_UNIX, sun_path = local_sun_path (pid k) (counter k + 1)\<rparr>,
      dest = \<lparr>sun_family = AF_UNIX, sun_path = dest_sun_path str\<rparr>\<rparr>"

definition prepared :: "int \<Rightarrow> sys \<Rightarrow> sys" where
  "prepared fd k =
     cleared (local_name (pid k) (counter k + 1))
       (k\<lparr>heap := heap k + 1, fds := fd # fds k, counter := counter k + 1\<rparr>)"

lemma prepared_simps [simp]:
  "pid (prepared fd k) = pid k" "counter (prepared fd k) = counter k + 1"
  "heap (prepared fd k) = heap k + 1" "fds (prepared fd k) = fd # fds k"
  "bind_error (prepared fd k) = bind_error k" "connect_ok (prepared fd k) = connect_ok k"
  "unlink_ok (prepared fd k) = unlink_ok k"
  by (simp_all add: prepared_def)

text \<open>The structure when its socket is bound.\<close>

definition bound_ctrl :: "int \<Rightarrow> sys \<Rightarrow> wpa_ctrl" where
  "bound_ctrl fd k =
     \<lparr>ctrl_s = fd,
      local_addr = \<lparr>sun_family = AF_UNIX, sun_path = local_sun_path (pid k) (counter k + 1)\<rparr>,
      dest = \<lparr>sun_family = 0, sun_path = replicate SUN_PATH_SIZE NUL\<rparr>\<rparr>"

lemma open_bound_eq:
  assumes ok: "malloc_ok k" "socket_answer k = Some fd" and i: "int32 (pid k)" "int32 (counter k + 1)"
  defines "name \<equiv> local_name (pid k) (counter k + 1)"
  shows "open_bound cont (Some path) k =
    (if name \<in> set (files (prepared fd k)) \<or> bind_error k \<noteq> None
     then (Ret None, sys_free (sys_close fd (prepared fd k)))
     else cont path (bound_ctrl fd k) ((prepared fd k)\<lparr>files := name # files (prepared fd k)\<rparr>))"
proof -
  let ?z = "\<lparr>sun_family = 0, sun_path = replicate SUN_PATH_SIZE NUL\<rparr>"
  let ?c = "\<lparr>ctrl_s = fd, local_addr = ?z\<lparr>sun_family := AF_UNIX\<rparr>, dest = ?z\<rparr>"
  let ?k = "k\<lparr>heap := heap k + 1, fds := fd # fds k, counter := counter k + 1\<rparr>"
  have "try_again 0 ?c ?k =
    (if name \<in> set (files (prepared fd k)) \<or> bind_error k \<noteq> None
     then (Ret None, sys_free (sys_close fd (prepared fd k)))
     else (Ret (Some (bound_ctrl fd k)),
           (prepared fd k)\<lparr>files := name # files (prepared fd k)\<rparr>))"
    using try_again_eq [of ?c ?k] i by (simp add: prepared_def name_def bound_ctrl_def)
  then show ?thesis using ok by (simp add: open_bound_def Let_def)
qed

lemma wpa_ctrl_open_eq:
  assumes str: "NUL \<notin> set str" and ok: "malloc_ok k" "socket_answer k = Some fd"
    and i: "int32 (pid k)" "int32 (counter k + 1)"
  defines "name \<equiv> local_name (pid k) (counter k + 1)"
  shows "wpa_ctrl_open (Some (str @ NUL # rest)) k =
    (let k1 = prepared fd k; k2 = k1\<lparr>files := name # files k1\<rparr>; ctrl = opened str fd k
     in if name \<in> set (files k1) \<or> bind_error k \<noteq> None then (Ret None, sys_free (sys_close fd k1))
        else if \<not> abstract_path str \<and> SUN_PATH_SIZE \<le> length str then (Ret None, sys_free (sys_close fd k2))
        else if \<not> connect_ok k (dest ctrl) then (Ret None, sys_free (sys_unlink name (sys_close fd k2)))
        else (Ret (Some ctrl), set_nonblocking ctrl k2))"
proof -
  have d: "set_dest (str @ NUL # rest) (bound_ctrl fd k) =
      Some (opened str fd k, \<not> abstract_path str \<and> SUN_PATH_SIZE \<le> length str)"
    using set_dest_eq [OF str, of "bound_ctrl fd k" 0 rest] by (simp add: opened_def bound_ctrl_def)
  have "c_string (sun_path (local_addr (opened str fd k))) = name" "ctrl_s (opened str fd k) = fd"
    using c_string_local [OF i] by (simp_all add: opened_def name_def)
  then show ?thesis using open_bound_eq [OF ok i, of open_connect "str @ NUL # rest"] d
    by (simp add: wpa_ctrl_open_def open_connect_def name_def Let_def)
qed

lemma c_string_dest:
  assumes "NUL \<notin> set str" and "\<not> abstract_path str" and "length str < SUN_PATH_SIZE"
  shows "c_string (dest_sun_path str) = str"
  using assms c_string_append [OF assms(1)] by (simp add: dest_sun_path_def strlcpy_result_def SUN_PATH_SIZE_def)

lemma sys_simps [simp]:
  "fds (sys_free k) = fds k" "heap (sys_free k) = heap k - 1" "files (sys_free k) = files k"
  "fds (sys_close fd k) = remove1 fd (fds k)" "heap (sys_close fd k) = heap k"
  "files (sys_close fd k) = files k" "unlink_ok (sys_close fd k) = unlink_ok k"
  "fds (sys_unlink n k) = fds k" "heap (sys_unlink n k) = heap k"
  "unlink_ok (sys_free k) = unlink_ok k" "unlink_ok (sys_unlink n k) = unlink_ok k"
  "fds (set_nonblocking c k) = fds k" "heap (set_nonblocking c k) = heap k"
  "files (set_nonblocking c k) = files k" "unlink_ok (set_nonblocking c k) = unlink_ok k"
  "pid (set_nonblocking c k) = pid k" "counter (set_nonblocking c k) = counter k"
  by (simp_all add: sys_free_def sys_close_def sys_unlink_def set_nonblocking_def)

lemma set_files_unlink:
  "set (files (sys_unlink n k)) = (if unlink_ok k then set (files k) - {n} else set (files k))"
  by (simp add: sys_unlink_def)

text \<open>What is known of a connection that was opened.\<close>

lemma open_success:
  assumes op: "wpa_ctrl_open (Some (str @ NUL # rest)) k = (Ret (Some ctrl), k')"
    and str: "NUL \<notin> set str" and i: "int32 (pid k)" "int32 (counter k + 1)"
  shows "\<exists>fd. socket_answer k = Some fd \<and> ctrl = opened str fd k \<and>
    (abstract_path str \<or> length str < SUN_PATH_SIZE) \<and>
    fds k' = fd # fds k \<and> heap k' = heap k + 1 \<and> pid k' = pid k \<and> counter k' = counter k + 1 \<and>
    unlink_ok k' = unlink_ok k \<and>
    set (files k') = insert (local_name (pid k) (counter k + 1)) (set (files k))"
proof -
  have m: "malloc_ok k" using op by (auto simp: wpa_ctrl_open_def open_bound_def split: if_splits)
  obtain fd where fd: "socket_answer k = Some fd"
    using op m by (cases "socket_answer k") (auto simp: wpa_ctrl_open_def open_bound_def Let_def)
  let ?n = "local_name (pid k) (counter k + 1)"
  have ctrl: "ctrl = opened str fd k" and fits: "abstract_path str \<or> length str < SUN_PATH_SIZE"
    and k': "k' = set_nonblocking ctrl ((prepared fd k)\<lparr>files := ?n # files (prepared fd k)\<rparr>)"
    using op unfolding wpa_ctrl_open_eq [OF str m fd i] Let_def by (auto simp: not_le split: if_splits)
  have "set (files k') = insert ?n (set (files k))"
    unfolding k' by (simp add: prepared_def cleared_files)
  then show ?thesis using fd ctrl fits k' by simp
qed

section \<open>Properties of opening and closing\<close>


text \<open>A kernel in which everything succeeds, with a socket file left over from an earlier run.\<close>

definition stale_sys :: sys where
  "stale_sys = \<lparr>counter = 0, heap = 3, fds = [2, 1, 0], nonblocking = [],
     files = [''/tmp/wpa_ctrl_42-1'', ''/tmp/other''], pid = 42, malloc_ok = True,
     socket_answer = Some 5, bind_error = None, unlink_ok = True,
     connect_ok = (\<lambda>a. c_string (sun_path a) = ''/var/run/wlan0''),
     local_connect_ok = (\<lambda>n. False), getfl_ok = True,
     setfl_ok = True\<rparr>"

lemma stale_name: "local_name 42 1 = ''/tmp/wpa_ctrl_42-1''"
  by code_simp

lemma stale_dest: "c_string (dest_sun_path ''/var/run/wlan0'') = ''/var/run/wlan0''"
  by (rule c_string_dest) (simp_all add: abstract_path_def SUN_PATH_SIZE_def)


lemma open_returns:
  assumes "path = None \<or> (\<exists>str rest. path = Some (str @ NUL # rest) \<and> NUL \<notin> set str)"
    and "int32 (pid k)" and "int32 (counter k + 1)"
  shows "\<exists>r k'. wpa_ctrl_open path k = (Ret r, k') \<and>
    (r = None \<longrightarrow> fds k' = fds k \<and> heap k' = heap k)"
proof -
  consider "path = None \<or> \<not> malloc_ok k \<or> socket_answer k = None"
    | str rest fd where "path = Some (str @ NUL # rest)" "NUL \<notin> set str" "malloc_ok k"
      "socket_answer k = Some fd" using assms(1) by auto
  then show ?thesis
  proof cases
    case 1
    then show ?thesis by (cases path) (auto simp: wpa_ctrl_open_def open_bound_def Let_def)
  next
    case 2
    note eq = wpa_ctrl_open_eq [OF 2(2-4) assms(2,3), of rest]
    show ?thesis unfolding 2(1) eq Let_def by auto
  qed
qed

text \<open>
  C16: when \<^verbatim>\<open>wpa_ctrl_open\<close> fails, at whatever call, no descriptor and no heap block is left behind,
  and no run of it makes an access outside the path or the addresses.
\<close>

theorem open_failure_releases:
  assumes "path = None \<or> (\<exists>str rest. path = Some (str @ NUL # rest) \<and> NUL \<notin> set str)"
    and "int32 (pid k)" and "int32 (counter k + 1)"
  shows "\<exists>r k'. wpa_ctrl_open path k = (Ret r, k') \<and>
    (r = None \<longrightarrow> fds k' = fds k \<and> heap k' = heap k)"
  using assms by (rule open_returns)

theorem open_failure_releases_witness:
  "\<exists>r k'. wpa_ctrl_open (Some (''/var/run/wlan1'' @ NUL # [])) stale_sys = (Ret r, k') \<and>
     (r = None \<longrightarrow> fds k' = [2, 1, 0] \<and> heap k' = 3)"
proof -
  have "Some (''/var/run/wlan1'' @ NUL # []) = None \<or>
      (\<exists>str rest. Some (''/var/run/wlan1'' @ NUL # []) = Some (str @ NUL # rest) \<and> NUL \<notin> set str)"
    by (rule disjI2, rule exI [of _ "''/var/run/wlan1''"]) simp
  from open_failure_releases [OF this, of stale_sys] show ?thesis
    by (simp add: stale_sys_def int32_def)
qed

text \<open>
  C17: closing an opened connection gives back its descriptor and its heap block and removes its
  socket file, and nothing else.
\<close>

theorem close_undoes_open:
  assumes op: "wpa_ctrl_open (Some (str @ NUL # rest)) k = (Ret (Some ctrl), k1)"
    and str: "NUL \<notin> set str" and i: "int32 (pid k)" "int32 (counter k + 1)"
    and fd: "0 \<le> wpa_ctrl_get_fd ctrl" and un: "unlink_ok k"
  shows "fds (wpa_ctrl_close (Some ctrl) k1) = fds k \<and> heap (wpa_ctrl_close (Some ctrl) k1) = heap k \<and>
    set (files (wpa_ctrl_close (Some ctrl) k1)) = set (files k) - {local_name (pid k) (counter k + 1)}"
proof -
  from open_success [OF op str i] obtain f where f: "ctrl = opened str f k" "fds k1 = f # fds k"
    "heap k1 = heap k + 1" "unlink_ok k1"
    "set (files k1) = insert (local_name (pid k) (counter k + 1)) (set (files k))" using un by auto
  have "c_string (sun_path (local_addr ctrl)) = local_name (pid k) (counter k + 1)" "ctrl_s ctrl = f"
    using f(1) c_string_local [OF i] by (simp_all add: opened_def)
  then show ?thesis using f(2-5) fd
    by (simp add: wpa_ctrl_close_def wpa_ctrl_get_fd_def Let_def set_files_unlink)
qed

lemma stale_open:
  "\<exists>k'. wpa_ctrl_open (Some (''/var/run/wlan0'' @ NUL # [])) stale_sys =
     (Ret (Some (opened ''/var/run/wlan0'' 5 stale_sys)), k')"
proof -
  have "NUL \<notin> set ''/var/run/wlan0''" "malloc_ok stale_sys" "socket_answer stale_sys = Some 5"
    "int32 (pid stale_sys)" "int32 (counter stale_sys + 1)"
    by (simp_all add: stale_sys_def int32_def)
  note eq = wpa_ctrl_open_eq [OF this, of "[]"]
  have "local_name 42 1 \<notin> set (files (prepared 5 stale_sys))"
    by (simp add: prepared_def cleared_files stale_sys_def)
  then show ?thesis unfolding eq
    using stale_dest by (simp add: stale_sys_def opened_def abstract_path_def SUN_PATH_SIZE_def Let_def)
qed

theorem close_undoes_open_witness:
  "\<exists>k1. wpa_ctrl_open (Some (''/var/run/wlan0'' @ NUL # [])) stale_sys =
      (Ret (Some (opened ''/var/run/wlan0'' 5 stale_sys)), k1) \<and>
    set (files (wpa_ctrl_close (Some (opened ''/var/run/wlan0'' 5 stale_sys)) k1)) = {''/tmp/other''}"
proof -
  obtain k1 where op: "wpa_ctrl_open (Some (''/var/run/wlan0'' @ NUL # [])) stale_sys =
      (Ret (Some (opened ''/var/run/wlan0'' 5 stale_sys)), k1)" using stale_open by blast
  from close_undoes_open [OF op] show ?thesis
    using op stale_name by (auto simp: stale_sys_def int32_def wpa_ctrl_get_fd_def opened_def)
qed

text \<open>
  Two connections opened one after the other by the same process, whatever they connect to, have
  different local sockets, and the second leaves the file of the first in place.
\<close>

theorem opens_have_distinct_sockets:
  assumes op1: "wpa_ctrl_open (Some (str1 @ NUL # rest1)) k = (Ret (Some c1), k1)"
    and op2: "wpa_ctrl_open (Some (str2 @ NUL # rest2)) k1 = (Ret (Some c2), k2)"
    and str: "NUL \<notin> set str1" "NUL \<notin> set str2"
    and i: "int32 (pid k)" "int32 (counter k + 1)" "int32 (counter k + 2)"
  shows "c_string (sun_path (local_addr c1)) \<noteq> c_string (sun_path (local_addr c2)) \<and>
    {c_string (sun_path (local_addr c1)), c_string (sun_path (local_addr c2))} \<subseteq> set (files k2)"
proof -
  from open_success [OF op1 str(1) i(1,2)] obtain f1 where 1: "c1 = opened str1 f1 k"
    "pid k1 = pid k" "counter k1 = counter k + 1"
    "set (files k1) = insert (local_name (pid k) (counter k + 1)) (set (files k))" by blast
  have i2: "int32 (pid k1)" "int32 (counter k1 + 1)" using i 1 by (simp_all add: algebra_simps)
  from open_success [OF op2 str(2) i2] obtain f2 where 2: "c2 = opened str2 f2 k1"
    "set (files k2) = insert (local_name (pid k1) (counter k1 + 1)) (set (files k1))" by blast
  have "c_string (sun_path (local_addr c1)) = local_name (pid k) (counter k + 1)"
    "c_string (sun_path (local_addr c2)) = local_name (pid k) (counter k + 1 + 1)"
    using 1 2 c_string_local [OF i(1,2)] c_string_local [OF i2] by (simp_all add: opened_def)
  moreover have "local_name (pid k) (counter k + 1) \<noteq> local_name (pid k) (counter k + 1 + 1)"
    by (simp add: local_name_def dec_int_inj)
  ultimately show ?thesis using 1 2 by simp
qed

text \<open>A kernel in which every call succeeds.\<close>

definition fresh_sys :: sys where
  "fresh_sys = stale_sys\<lparr>files := [], connect_ok := (\<lambda>a. True)\<rparr>"

lemma fresh_open:
  "wpa_ctrl_open (Some (''/var/run/wlan0'' @ NUL # [])) (fresh_sys\<lparr>counter := n, files := fs, heap := h, fds := ds, nonblocking := nb\<rparr>) =
     (Ret (Some (opened ''/var/run/wlan0'' 5 (fresh_sys\<lparr>counter := n\<rparr>))),
      fresh_sys\<lparr>counter := n + 1, files := local_name 42 (n + 1) # fs, heap := h + 1, fds := 5 # ds, nonblocking := 5 # nb\<rparr>)"
  if "int32 (n + 1)" "local_name 42 (n + 1) \<notin> set fs"
proof -
  let ?k = "fresh_sys\<lparr>counter := n, files := fs, heap := h, fds := ds, nonblocking := nb\<rparr>"
  have "NUL \<notin> set ''/var/run/wlan0''" "malloc_ok ?k" "socket_answer ?k = Some 5"
    "int32 (pid ?k)" "int32 (counter ?k + 1)"
    using that by (simp_all add: fresh_sys_def stale_sys_def int32_def)
  note eq = wpa_ctrl_open_eq [OF this, of "[]"]
  show ?thesis unfolding eq using that
    by (simp add: fresh_sys_def stale_sys_def opened_def abstract_path_def SUN_PATH_SIZE_def Let_def
        prepared_def cleared_def set_nonblocking_def)
qed

theorem opens_have_distinct_sockets_witness:
  "\<exists>c1 c2 k1 k2. wpa_ctrl_open (Some (''/var/run/wlan0'' @ NUL # [])) fresh_sys = (Ret (Some c1), k1) \<and>
     wpa_ctrl_open (Some (''/var/run/wlan0'' @ NUL # [])) k1 = (Ret (Some c2), k2) \<and>
     c_string (sun_path (local_addr c1)) \<noteq> c_string (sun_path (local_addr c2))"
proof -
  have self: "fresh_sys = fresh_sys\<lparr>counter := 0, files := [], heap := 3, fds := [2, 1, 0], nonblocking := []\<rparr>"
    by (simp add: fresh_sys_def stale_sys_def)
  note op1 = fresh_open [where n = 0 and fs = "[]" and h = 3 and ds = "[2, 1, 0]" and nb = "[]", folded self, simplified int32_def, simplified]
  have "local_name 42 2 \<noteq> local_name 42 1" by (simp add: local_name_def dec_int_inj)
  then have op2: "wpa_ctrl_open (Some (''/var/run/wlan0'' @ NUL # []))
      (fresh_sys\<lparr>counter := 1, files := [local_name 42 1], heap := 4, fds := [5, 2, 1, 0], nonblocking := [5]\<rparr>) =
      (Ret (Some (opened ''/var/run/wlan0'' 5 (fresh_sys\<lparr>counter := 1\<rparr>))),
       fresh_sys\<lparr>counter := 2, files := [local_name 42 2, local_name 42 1], heap := 5, fds := [5, 5, 2, 1, 0], nonblocking := [5, 5]\<rparr>)"
    using fresh_open [where n = 1 and fs = "[local_name 42 1]" and h = 4 and ds = "[5, 2, 1, 0]" and nb = "[5]"] by (simp add: int32_def)
  show ?thesis
    using op1 op2 opens_have_distinct_sockets [of "''/var/run/wlan0''" "[]" fresh_sys _ _ "''/var/run/wlan0''" "[]"]
    by (fastforce simp: fresh_sys_def stale_sys_def int32_def)
qed

text \<open>
  C18: a path that does not fit \<^verbatim>\<open>sun_path\<close> is refused, but the local socket file that was just bound
  stays in the file system; every other failure leaves no file under that name when it may be removed.
\<close>

theorem open_failure_socket_file:
  assumes "NUL \<notin> set str" and "malloc_ok k" and "socket_answer k = Some fd"
    and "int32 (pid k)" and "int32 (counter k + 1)" and "unlink_ok k"
    and "wpa_ctrl_open (Some (str @ NUL # rest)) k = (Ret None, k')"
  shows "local_name (pid k) (counter k + 1) \<in> set (files k') \<longleftrightarrow>
    bind_error k = None \<and> \<not> abstract_path str \<and> 108 \<le> length str"
  using assms(7) unfolding wpa_ctrl_open_eq [OF assms(1-5)] Let_def
  by (auto simp: prepared_def cleared_files set_files_unlink assms(6) SUN_PATH_SIZE_def split: if_splits)

theorem open_failure_socket_file_witness:
  "\<exists>k'. wpa_ctrl_open (Some (replicate 108 CHR ''a'' @ NUL # [])) fresh_sys = (Ret None, k') \<and>
     local_name 42 1 \<in> set (files k')"
proof -
  have s: "NUL \<notin> set (replicate 108 CHR ''a'')" "malloc_ok fresh_sys" "socket_answer fresh_sys = Some 5"
    "int32 (pid fresh_sys)" "int32 (counter fresh_sys + 1)" "unlink_ok fresh_sys"
    by (simp_all add: fresh_sys_def stale_sys_def int32_def)
  have a: "\<not> abstract_path (replicate 108 CHR ''a'')" by (simp add: abstract_path_def numeral_eq_Suc)
  have "fst (wpa_ctrl_open (Some (replicate 108 CHR ''a'' @ NUL # [])) fresh_sys) = Ret None"
    unfolding wpa_ctrl_open_eq [OF s(1-5)] Let_def using a by (simp add: SUN_PATH_SIZE_def)
  then obtain k' where k': "wpa_ctrl_open (Some (replicate 108 CHR ''a'' @ NUL # [])) fresh_sys = (Ret None, k')"
    by (metis prod.collapse)
  from open_failure_socket_file [OF s k'] show ?thesis
    using k' a by (simp add: fresh_sys_def stale_sys_def)
qed

end
