(* ===== verification/Ctrl_Android.thy ===== *)
theory Ctrl_Android
  imports Ctrl_Open
begin

text \<open>
  The \<^verbatim>\<open>ANDROID\<close> blocks of the control connection over UNIX sockets
  (\<^verbatim>\<open>src/src/wpa_ctrl/wpa_ctrl.c\<close>): connecting to a name of the reserved namespace, and
  \<^verbatim>\<open>wpa_ctrl_cleanup\<close>, which deletes socket files left behind. Changing mode and owner of the
  local socket file has no counterpart in the state.
\<close>

section \<open>Connecting\<close>

text \<open>\<^verbatim>\<open>socket_local_client_connect\<close>, and what follows when it fails.\<close>

definition local_client_connect :: "string \<Rightarrow> wpa_ctrl \<Rightarrow> sys \<Rightarrow> wpa_ctrl option outcome \<times> sys" where
  "local_client_connect name ctrl k =
     (if \<not> local_connect_ok k name then
        (Ret None,
         sys_free (sys_unlink (c_string (sun_path (local_addr ctrl))) (sys_close (ctrl_s ctrl) k)))
      else (Ret (Some ctrl), k))"

text \<open>\<open>buf\<close> is the uninitialised array of 21 bytes.\<close>

definition android_connect ::
  "bytes \<Rightarrow> bytes \<Rightarrow> wpa_ctrl \<Rightarrow> sys \<Rightarrow> wpa_ctrl option outcome \<times> sys" where
  "android_connect buf ctrl_path ctrl k =
     (case os_strncmp_eq ctrl_path (''@android:'' @ [NUL]) 9 of
        None \<Rightarrow> (Fault, k)
      | Some True \<Rightarrow> local_client_connect (c_string (drop 9 ctrl_path)) ctrl k
      | Some False \<Rightarrow>
          (case mem_read 0 1 ctrl_path of
             None \<Rightarrow> (Fault, k)
           | Some c \<Rightarrow>
               (if c \<noteq> ''/'' then
                  (case os_snprintf buf 21 (''wpa_'' @ c_string ctrl_path) of
                     None \<Rightarrow> (Fault, k)
                   | Some (b, _) \<Rightarrow> local_client_connect (c_string b) ctrl k)
                else open_connect ctrl_path ctrl k)))"

definition wpa_ctrl_open_android ::
  "bytes \<Rightarrow> bytes option \<Rightarrow> sys \<Rightarrow> wpa_ctrl option outcome \<times> sys" where
  "wpa_ctrl_open_android buf = open_bound (android_connect buf)"

section \<open>Cleaning up\<close>

definition PATH_MAX :: nat where
  "PATH_MAX = 4096"

text \<open>
  The loop over the directory: \<open>n\<close> is \<^verbatim>\<open>dirnamelen\<close>, each entry the memory of its \<^verbatim>\<open>d_name\<close>.
\<close>

fun cleanup_loop :: "bytes list \<Rightarrow> bytes \<Rightarrow> nat \<Rightarrow> nat \<Rightarrow> sys \<Rightarrow> sys option" where
  "cleanup_loop [] pathname n maxcopy k = Some k"
| "cleanup_loop (d_name # es) pathname n maxcopy k =
     (case os_strlcpy (drop n pathname) d_name maxcopy of
        None \<Rightarrow> None
      | Some (t, len) \<Rightarrow>
          (let p = take n pathname @ t
           in cleanup_loop es p n maxcopy (if len < maxcopy then sys_unlink (c_string p) k else k)))"

text \<open>
  The directory is its descriptor and its entries, \<open>None\<close> when \<^verbatim>\<open>opendir\<close> fails; \<^verbatim>\<open>closedir\<close> closes the
  descriptor on both ways out.
\<close>

definition wpa_ctrl_cleanup :: "(int \<times> bytes list) option \<Rightarrow> bytes \<Rightarrow> sys \<Rightarrow> sys option" where
  "wpa_ctrl_cleanup dir pathname k =
     (case dir of
        None \<Rightarrow> Some k
      | Some (fd, es) \<Rightarrow>
          (let k1 = k\<lparr>fds := fd # fds k\<rparr>
           in case os_snprintf pathname PATH_MAX ''/tmp/'' of
                None \<Rightarrow> None
              | Some (b, dirnamelen) \<Rightarrow>
                  (if dirnamelen \<ge> PATH_MAX then Some (sys_close fd k1)
                   else map_option (sys_close fd)
                     (cleanup_loop es b dirnamelen (PATH_MAX - dirnamelen) k1))))"

section \<open>Lemmas\<close>

lemma c_string_no_NUL: "NUL \<notin> set a \<Longrightarrow> c_string (a @ NUL # r) = a"
  by (rule c_string_append)

text \<open>The name that is connected to, for a path that does not begin with a slash.\<close>

definition android_name :: "string \<Rightarrow> string" where
  "android_name str = (if take 9 str = ''@android:'' then drop 9 str else take 20 (''wpa_'' @ str))"

lemma android_connect_eq:
  assumes str: "NUL \<notin> set str" "take 1 str \<noteq> ''/''" and buf: "length buf = 21"
  shows "android_connect buf (str @ NUL # rest) ctrl k = local_client_connect (android_name str) ctrl k"
proof -
  have cmp: "os_strncmp_eq (str @ NUL # rest) (''@android:'' @ [NUL]) 9 = Some (take 9 str = ''@android:'')"
  proof -
    have len: "length ''@android:'' = 9" and "NUL \<notin> set ''@android:''" by simp_all
    from os_strncmp_prefix [OF str(1) this(2), of rest] show ?thesis unfolding len .
  qed
  show ?thesis
  proof (cases "take 9 str = ''@android:''")
    case True
    then have "9 \<le> length str" by (auto dest!: arg_cong [where f = length])
    then have "drop 9 (str @ NUL # rest) = drop 9 str @ NUL # rest" by simp
    moreover have "NUL \<notin> set (drop 9 str)" using str(1) by (meson in_set_dropD)
    ultimately show ?thesis using cmp True c_string_append
      by (simp add: android_connect_def android_name_def)
  next
    case False
    have "take 1 (str @ NUL # rest) \<noteq> ''/''" using str(2) by (cases str) auto
    then have rd: "mem_read 0 1 (str @ NUL # rest) = Some (take 1 (str @ NUL # rest))"
      "take 1 (str @ NUL # rest) \<noteq> ''/''" by (simp_all add: mem_read_def)
    let ?t = "take 20 (''wpa_'' @ str)"
    have "NUL \<notin> set (''wpa_'' @ str)" using str(1) by simp
    then have nt: "NUL \<notin> set ?t" by (meson in_set_takeD)
    have "mem_write 0 (?t @ [NUL]) buf = Some (?t @ NUL # drop (Suc (length ?t)) buf)"
      using buf by (simp add: mem_write_def)
    then have "os_snprintf buf 21 (''wpa_'' @ str) =
        Some (?t @ NUL # drop (Suc (length ?t)) buf, length (''wpa_'' @ str))"
      by (simp add: os_snprintf_def)
    then show ?thesis using cmp False rd c_string_append [OF str(1)] c_string_append [OF nt]
      by (simp add: android_connect_def android_name_def)
  qed
qed

lemma cleanup_loop_files:
  assumes "\<forall>e \<in> set es. NUL \<notin> set e" and "NUL \<notin> set d" and "length pathname = PATH_MAX"
    and "take (length d) pathname = d" and "length d < PATH_MAX" and "unlink_ok k"
  shows "\<exists>k'. cleanup_loop (map (\<lambda>e. e @ [NUL]) es) pathname (length d) (PATH_MAX - length d) k = Some k' \<and>
    set (files k') = set (files k) - {d @ e | e. e \<in> set es \<and> length e < PATH_MAX - length d} \<and>
    fds k' = fds k \<and> heap k' = heap k"
  using assms
proof (induction es arbitrary: pathname k)
  case (Cons e es)
  let ?m = "PATH_MAX - length d"
  let ?t = "strlcpy_result (drop (length d) pathname) e ?m"
  let ?p = "take (length d) pathname @ ?t"
  have nn: "NUL \<notin> set e" using Cons.prems(1) by simp
  have cpy: "os_strlcpy (drop (length d) pathname) (e @ [NUL]) ?m = Some (?t, length e)"
    using os_strlcpy_eq [OF refl nn, of ?m "drop (length d) pathname" "[]"] Cons.prems(3) by simp
  have lt: "length ?t = ?m" using length_strlcpy_result [of ?m "drop (length d) pathname" e] Cons.prems(3) by simp
  have p: "length ?p = PATH_MAX" "take (length d) ?p = d"
    using lt Cons.prems(3-5) by simp_all
  let ?k = "if length e < ?m then sys_unlink (c_string ?p) k else k"
  have fit: "c_string ?p = d @ e" if "length e < ?m"
  proof -
    have "?t = e @ NUL # drop (Suc (length e)) (drop (length d) pathname)"
      using that Cons.prems(5) by (simp add: strlcpy_result_def)
    then show ?thesis using Cons.prems(2,4) nn c_string_append [of "d @ e"] by simp
  qed
  have "\<forall>e \<in> set es. NUL \<notin> set e" "unlink_ok ?k" using Cons.prems by simp_all
  from Cons.IH [OF this(1) Cons.prems(2) p Cons.prems(5) this(2)] obtain k' where k':
    "cleanup_loop (map (\<lambda>e. e @ [NUL]) es) ?p (length d) ?m ?k = Some k'"
    "set (files k') = set (files ?k) - {d @ e | e. e \<in> set es \<and> length e < ?m}"
    "fds k' = fds ?k" "heap k' = heap ?k" by blast
  have fk: "set (files ?k) = set (files k) - (if length e < ?m then {d @ e} else {})"
    using fit Cons.prems(6) by (simp add: set_files_unlink)
  show ?case using k'(1,3,4) cpy k'(2) fk by (auto simp: Let_def)
qed simp

section \<open>Properties\<close>

text \<open>
  C26: on Android, a path that does not begin with a slash is connected to in the reserved namespace, as
  the text behind \<^verbatim>\<open>@android:\<close> or under \<^verbatim>\<open>wpa_\<close> and the path, of which only 16 bytes are kept; when
  that fails, descriptor, heap block and local socket file are all released.
\<close>

theorem android_open_result:
  assumes str: "NUL \<notin> set str" "take 1 str \<noteq> ''/''" and buf: "length buf = 21"
    and ok: "malloc_ok k" "socket_answer k = Some fd" "bind_error k = None" "unlink_ok k"
    and i: "int32 (pid k)" "int32 (counter k + 1)"
  shows "\<exists>r k'. wpa_ctrl_open_android buf (Some (str @ NUL # rest)) k = (Ret r, k') \<and>
    (case r of
       Some ctrl \<Rightarrow> local_connect_ok k (android_name str) \<and> wpa_ctrl_get_fd ctrl = fd \<and>
         fds k' = fd # fds k \<and> heap k' = heap k + 1 \<and>
         local_name (pid k) (counter k + 1) \<in> set (files k')
     | None \<Rightarrow> \<not> local_connect_ok k (android_name str) \<and> fds k' = fds k \<and> heap k' = heap k \<and>
         local_name (pid k) (counter k + 1) \<notin> set (files k'))"
proof -
  let ?n = "local_name (pid k) (counter k + 1)"
  let ?k = "(prepared fd k)\<lparr>files := ?n # files (prepared fd k)\<rparr>"
  have free: "?n \<notin> set (files (prepared fd k))" using ok(4) by (simp add: prepared_def cleared_files)
  have "wpa_ctrl_open_android buf (Some (str @ NUL # rest)) k =
      local_client_connect (android_name str) (bound_ctrl fd k) ?k"
    using open_bound_eq [OF ok(1,2) i, of "android_connect buf" "str @ NUL # rest"] free ok(3)
      android_connect_eq [OF str buf, of rest] by (simp add: wpa_ctrl_open_android_def)
  moreover have "local_connect_ok ?k = local_connect_ok k"
    by (simp add: prepared_def cleared_def sys_unlink_def)
  moreover have "c_string (sun_path (local_addr (bound_ctrl fd k))) = ?n" "ctrl_s (bound_ctrl fd k) = fd"
    using c_string_local [OF i] by (simp_all add: bound_ctrl_def)
  ultimately show ?thesis using ok(4)
    by (cases "local_connect_ok k (android_name str)")
      (auto simp: local_client_connect_def wpa_ctrl_get_fd_def set_files_unlink)
qed

theorem android_open_result_witness:
  "\<exists>r k'. wpa_ctrl_open_android (replicate 21 NUL) (Some (''wlan0'' @ NUL # [])) stale_sys = (Ret r, k') \<and>
     (case r of Some ctrl \<Rightarrow> local_connect_ok stale_sys ''wpa_wlan0''
      | None \<Rightarrow> \<not> local_connect_ok stale_sys ''wpa_wlan0'' \<and> fds k' = [2, 1, 0])"
proof -
  have h: "NUL \<notin> set ''wlan0''" "take 1 ''wlan0'' \<noteq> ''/''" "length (replicate 21 NUL) = 21"
    "malloc_ok stale_sys" "socket_answer stale_sys = Some 5" "bind_error stale_sys = None"
    "unlink_ok stale_sys" "int32 (pid stale_sys)" "int32 (counter stale_sys + 1)"
    by (simp_all add: stale_sys_def int32_def)
  have n: "android_name ''wlan0'' = ''wpa_wlan0''" by (simp add: android_name_def)
  have f: "fds stale_sys = [2, 1, 0]" by (simp add: stale_sys_def)
  from android_open_result [OF h, of "[]", unfolded n f] obtain r k' where
    "wpa_ctrl_open_android (replicate 21 NUL) (Some (''wlan0'' @ NUL # [])) stale_sys = (Ret r, k')"
    "case r of Some ctrl \<Rightarrow> local_connect_ok stale_sys ''wpa_wlan0''
      | None \<Rightarrow> \<not> local_connect_ok stale_sys ''wpa_wlan0'' \<and> fds k' = [2, 1, 0]"
    by (fastforce split: option.splits)
  then show ?thesis by blast
qed

text \<open>
  \<^verbatim>\<open>wpa_ctrl_cleanup\<close> removes every file of the client directory whose name fits its buffer, and
  nothing else, without an access outside the buffer, and closes the directory; it removes not only
  the files a client made, for the names are not looked at.
\<close>

theorem cleanup_removes_directory:
  assumes "\<forall>e \<in> set es. NUL \<notin> set e" and "length pathname = 4096" and "unlink_ok k"
  shows "\<exists>k'. wpa_ctrl_cleanup (Some (fd, map (\<lambda>e. e @ [NUL]) es)) pathname k = Some k' \<and>
    set (files k') = set (files k) - {''/tmp/'' @ e | e. e \<in> set es \<and> length e < 4091} \<and>
    fds k' = fds k \<and> heap k' = heap k"
proof -
  let ?b = "''/tmp/'' @ NUL # drop (Suc (length ''/tmp/'')) pathname"
  let ?k = "k\<lparr>fds := fd # fds k\<rparr>"
  have len: "length ''/tmp/'' = 5" by simp
  have pr: "os_snprintf pathname PATH_MAX ''/tmp/'' = Some (?b, 5)"
    using os_snprintf_fits [of "''/tmp/''" PATH_MAX pathname] assms(2) unfolding len
    by (simp add: PATH_MAX_def)
  have b: "length ?b = PATH_MAX" "take (length ''/tmp/'') ?b = ''/tmp/''" "length ''/tmp/'' < PATH_MAX"
    "NUL \<notin> set ''/tmp/''" using assms(2) by (simp_all add: PATH_MAX_def)
  have "unlink_ok ?k" using assms(3) by simp
  from cleanup_loop_files [OF assms(1) b(4,1,2,3) this] obtain k' where
    "cleanup_loop (map (\<lambda>e. e @ [NUL]) es) ?b 5 (PATH_MAX - 5) ?k = Some k'"
    "set (files k') = set (files k) - {''/tmp/'' @ e | e. e \<in> set es \<and> length e < PATH_MAX - 5}"
    "fds k' = fd # fds k" "heap k' = heap k" unfolding len by auto
  then show ?thesis using pr by (simp add: wpa_ctrl_cleanup_def Let_def PATH_MAX_def sys_close_def)
qed

theorem cleanup_removes_directory_witness:
  "\<exists>k'. wpa_ctrl_cleanup (Some (7, map (\<lambda>e. e @ [NUL]) [''wpa_ctrl_42-1'', ''other''])) (replicate 4096 NUL) stale_sys = Some k' \<and>
     files k' = [] \<and> fds k' = [2, 1, 0]"
proof -
  have "\<forall>e \<in> set [''wpa_ctrl_42-1'', ''other'']. NUL \<notin> set e" "length (replicate 4096 NUL) = 4096"
    "unlink_ok stale_sys" by (simp_all add: stale_sys_def)
  from cleanup_removes_directory [OF this, of 7] obtain k' where k':
    "wpa_ctrl_cleanup (Some (7, map (\<lambda>e. e @ [NUL]) [''wpa_ctrl_42-1'', ''other''])) (replicate 4096 NUL) stale_sys = Some k'"
    "set (files k') = set (files stale_sys) - {''/tmp/'' @ e | e. e \<in> set [''wpa_ctrl_42-1'', ''other''] \<and> length e < 4091}"
    "fds k' = fds stale_sys"
    by blast
  have "set (files k') = {}" unfolding k'(2) by (auto simp: stale_sys_def)
  moreover have "fds k' = [2, 1, 0]" using k'(3) by (simp add: stale_sys_def)
  ultimately show ?thesis using k'(1) by simp
qed

end
