(* ===== verification/Ctrl_Udp.thy ===== *)
theory Ctrl_Udp
  imports Ctrl_Socket Ctrl_Open Bytes
begin

text \<open>
  The control connection over UDP (\<^verbatim>\<open>CONFIG_CTRL_IFACE_UDP\<close> in \<^verbatim>\<open>src/src/wpa_ctrl/wpa_ctrl.c\<close>):
  opening with its cookie exchange, the command prefix of \<^verbatim>\<open>wpa_ctrl_request\<close>, closing and
  \<^verbatim>\<open>wpa_ctrl_get_remote_ifname\<close>. The switch \<^verbatim>\<open>CONFIG_CTRL_IFACE_UDP_REMOTE\<close> is the flag
  \<open>remote\<close>; byte order is that of a little-endian machine.
\<close>

section \<open>State\<close>

record sockaddr_in =
  sin_family :: int
  sin_port :: u16
  sin_addr :: u32

text \<open>Strings the structure owns are the memory of their blocks; \<open>None\<close> is the null pointer.\<close>

record udp_ctrl =
  udp_s :: int
  udp_local :: sockaddr_in
  udp_dest :: sockaddr_in
  cookie :: "bytes option"
  remote_ifname :: "bytes option"
  remote_ip :: "bytes option"

text \<open>
  The live heap blocks and open descriptors; how many allocations were asked for and which of them
  succeed; the answers of \<^verbatim>\<open>socket\<close>, \<^verbatim>\<open>bind\<close> and \<^verbatim>\<open>connect\<close>; the resolver, and the address buffer
  of the \<^verbatim>\<open>hostent\<close> it gave out last.
\<close>

record inet =
  blocks_live :: nat
  fds_open :: "int list"
  allocs :: nat
  alloc_ok :: "nat \<Rightarrow> bool"
  inet_socket :: "int option"
  inet_bind_ok :: bool
  inet_connect_ok :: "sockaddr_in \<Rightarrow> bool"
  resolver :: "string \<Rightarrow> u8 list option"
  h_addr :: "u8 list"

definition inet_malloc :: "inet \<Rightarrow> bool \<times> inet" where
  "inet_malloc k =
     (if alloc_ok k (allocs k)
      then (True, k\<lparr>allocs := allocs k + 1, blocks_live := blocks_live k + 1\<rparr>)
      else (False, k\<lparr>allocs := allocs k + 1\<rparr>))"

definition inet_free :: "'a option \<Rightarrow> inet \<Rightarrow> inet" where
  "inet_free p k = (case p of None \<Rightarrow> k | Some _ \<Rightarrow> k\<lparr>blocks_live := blocks_live k - 1\<rparr>)"

definition inet_close :: "int \<Rightarrow> inet \<Rightarrow> inet" where
  "inet_close fd k = k\<lparr>fds_open := remove1 fd (fds_open k)\<rparr>"

text \<open>\<^verbatim>\<open>os_strdup\<close> of the C string at the beginning of \<open>m\<close>, as a block with its terminator.\<close>

definition inet_strdup :: "bytes \<Rightarrow> inet \<Rightarrow> bytes option \<times> inet" where
  "inet_strdup m k =
     (case inet_malloc k of
        (False, k1) \<Rightarrow> (None, k1)
      | (True, k1) \<Rightarrow> (Some (c_string m @ [NUL]), k1))"

section \<open>Requests with a cookie\<close>

text \<open>
  The command as it is sent: without a cookie the caller's, otherwise a block of its own holding
  cookie, space and command. \<open>None\<close> for an access outside the objects.
\<close>

definition cookie_command :: "bytes \<Rightarrow> bytes \<Rightarrow> nat \<Rightarrow> bytes option" where
  "cookie_command ck cmd cmd_len =
     (case c_strlen ck of
        None \<Rightarrow> None
      | Some n \<Rightarrow>
          (let full_len = n + 1 + cmd_len; cmd_buf = replicate full_len NUL
           in case os_strlcpy cmd_buf ck full_len of
                None \<Rightarrow> None
              | Some (b1, _) \<Rightarrow>
                  (case mem_write n [CHR '' ''] b1 of
                     None \<Rightarrow> None
                   | Some b2 \<Rightarrow>
                       (case mem_read 0 cmd_len cmd of
                          None \<Rightarrow> None
                        | Some c \<Rightarrow> mem_write (n + 1) c b2))))"

text \<open>
  \<^verbatim>\<open>wpa_ctrl_request\<close> as built for UDP: the block is freed after sending, whether or not the send
  succeeded, and before waiting for the reply.
\<close>

definition udp_request ::
  "udp_ctrl \<Rightarrow> 'o msg_cb option \<Rightarrow> bytes \<Rightarrow> nat \<Rightarrow> bytes \<Rightarrow> nat \<Rightarrow> inet \<Rightarrow> sock \<Rightarrow> 'o \<Rightarrow>
   (int \<times> bytes \<times> nat) outcome \<times> inet \<times> sock \<times> 'o" where
  "udp_request ctrl msg_cb cmd cmd_len reply reply_len k s st =
     (case cookie ctrl of
        None \<Rightarrow>
          (case wpa_ctrl_request msg_cb cmd cmd_len reply reply_len s st of
             (out, s1, st1) \<Rightarrow> (out, k, s1, st1))
      | Some ck \<Rightarrow>
          (case inet_malloc k of
             (False, k1) \<Rightarrow> (Ret (-1, reply, reply_len), k1, s, st)
           | (True, k1) \<Rightarrow>
               (case cookie_command ck cmd cmd_len of
                  None \<Rightarrow> (Fault, k1, s, st)
                | Some full_cmd \<Rightarrow>
                    (case retry_send full_cmd \<lparr>sec = 0, usec = 0\<rparr> s of
                       (Ret True, s1) \<Rightarrow>
                         (case recv_loop msg_cb reply_len reply s1 st of
                            (out, s2, st2) \<Rightarrow> (out, inet_free (Some full_cmd) k1, s2, st2))
                     | (Ret False, s1) \<Rightarrow>
                         (Ret (-1, reply, reply_len), inet_free (Some full_cmd) k1, s1, st)
                     | (Exit c m, s1) \<Rightarrow> (Exit c m, k1, s1, st)
                     | (Blocked, s1) \<Rightarrow> (Blocked, k1, s1, st)
                     | (Fault, s1) \<Rightarrow> (Fault, k1, s1, st)))))"

section \<open>Opening\<close>

definition AF_INET :: int where
  "AF_INET = 2"

definition INADDR_ANY :: u32 where
  "INADDR_ANY = 0"

definition WPA_CTRL_IFACE_PORT :: int where
  "WPA_CTRL_IFACE_PORT = 9877"

definition htons :: "int \<Rightarrow> u16" where
  "htons n = bswap_16 (of_int n)"

definition htonl :: "u32 \<Rightarrow> u32" where
  "htonl n = bswap_32 n"

definition loopback :: u32 where
  "loopback = htonl (0x7f000001)"

text \<open>\<^verbatim>\<open>atoi\<close>: white space, a sign, digits.\<close>

definition is_space :: "char \<Rightarrow> bool" where
  "is_space c \<longleftrightarrow> c \<in> {CHR '' '', CHR 0x09, CHR 0x0A, CHR 0x0B, CHR 0x0C, CHR 0x0D}"

definition is_digit :: "char \<Rightarrow> bool" where
  "is_digit c \<longleftrightarrow> 48 \<le> (of_char c :: nat) \<and> (of_char c :: nat) \<le> 57"

definition digits_value :: "string \<Rightarrow> int" where
  "digits_value t = int (undec (takeWhile is_digit t))"

definition c_atoi :: "string \<Rightarrow> int" where
  "c_atoi str =
     (case dropWhile is_space str of
        [] \<Rightarrow> 0
      | c # t \<Rightarrow>
          (if c = CHR ''-'' then - digits_value t
           else if c = CHR ''+'' then digits_value t
           else digits_value (c # t)))"

text \<open>\<^verbatim>\<open>os_strchr(name, ':')\<close> and what is before and behind the colon.\<close>

definition split_port :: "string \<Rightarrow> string \<times> string option" where
  "split_port name =
     (let host = takeWhile (\<lambda>c. c \<noteq> CHR '':'') name
      in (host, case dropWhile (\<lambda>c. c \<noteq> CHR '':'') name of [] \<Rightarrow> None | _ # p \<Rightarrow> Some p))"

text \<open>The bytes of \<^verbatim>\<open>sin_addr.s_addr\<close> in memory.\<close>

definition s_addr_bytes :: "u32 \<Rightarrow> u8 list" where
  "s_addr_bytes a = map (\<lambda>i. ucast (drop_bit (8 * i) a)) [0, 1, 2, 3]"

text \<open>
  The block under \<^verbatim>\<open>CONFIG_CTRL_IFACE_UDP_REMOTE\<close>: \<open>Ret None\<close> where it returns NULL. The
  \<^verbatim>\<open>memcpy\<close> writes the address of \<^verbatim>\<open>dest\<close> into the \<^verbatim>\<open>hostent\<close>, as the source has it.
\<close>

definition udp_remote :: "bytes option \<Rightarrow> udp_ctrl \<Rightarrow> inet \<Rightarrow> udp_ctrl option outcome \<times> inet" where
  "udp_remote ctrl_path ctrl k =
     (case ctrl_path of
        None \<Rightarrow>
          (case inet_strdup (''localhost'' @ [NUL]) k of
             (p, k1) \<Rightarrow> (Ret (Some (ctrl\<lparr>remote_ip := p\<rparr>)), k1))
      | Some path \<Rightarrow>
          (case inet_strdup path k of
             (None, k1) \<Rightarrow> (Ret None, inet_free (Some ctrl) (inet_close (udp_s ctrl) k1))
           | (Some name, k1) \<Rightarrow>
               (case split_port (c_string name) of
                  (host, port) \<Rightarrow>
                    (let port_id = (case port of None \<Rightarrow> WPA_CTRL_IFACE_PORT | Some p \<Rightarrow> c_atoi p)
                     in case inet_strdup (host @ [NUL]) k1 of
                          (ip, k2) \<Rightarrow>
                            (let k3 = inet_free (Some name) k2; ctrl1 = ctrl\<lparr>remote_ip := ip\<rparr>
                             in case resolver k host of
                                  None \<Rightarrow>
                                    (Ret None,
                                     inet_free (Some ctrl1) (inet_free ip (inet_close (udp_s ctrl) k3)))
                                | Some addr \<Rightarrow>
                                    (case mem_read 0 (length addr) (s_addr_bytes (sin_addr (udp_dest ctrl1))) of
                                       None \<Rightarrow> (Fault, k3)
                                     | Some b \<Rightarrow>
                                         (Ret (Some (ctrl1\<lparr>udp_dest := (udp_dest ctrl1)\<lparr>sin_port := htons port_id\<rparr>\<rparr>)),
                                          k3\<lparr>h_addr := b\<rparr>)))))))"

text \<open>
  The end of the function: two requests for a buffer of 128 bytes, of which 127 are announced. The
  variable \<^verbatim>\<open>len\<close> is not set again between them.
\<close>

definition udp_store ::
  "(udp_ctrl \<Rightarrow> bytes option \<Rightarrow> udp_ctrl) \<Rightarrow> int \<times> bytes \<times> nat \<Rightarrow> udp_ctrl \<Rightarrow> inet \<Rightarrow>
   (udp_ctrl \<times> bytes \<times> nat) outcome \<times> inet" where
  "udp_store setter x ctrl k =
     (case x of (ret, buf, len) \<Rightarrow>
        (if ret = 0 then
           (case mem_write len [NUL] buf of
              None \<Rightarrow> (Fault, k)
            | Some buf1 \<Rightarrow>
                (case inet_strdup buf1 k of (p, k1) \<Rightarrow> (Ret (setter ctrl p, buf1, len), k1)))
         else (Ret (ctrl, buf, len), k)))"

definition udp_ask ::
  "(udp_ctrl \<Rightarrow> bytes option \<Rightarrow> udp_ctrl) \<Rightarrow> string \<Rightarrow> udp_ctrl \<times> bytes \<times> nat \<Rightarrow> inet \<times> sock \<Rightarrow>
   (udp_ctrl \<times> bytes \<times> nat) outcome \<times> inet \<times> sock" where
  "udp_ask setter cmd x ks =
     (case x of (ctrl, buf, len) \<Rightarrow>
        (case udp_request ctrl None cmd (length cmd) buf len (fst ks) (snd ks) () of
           (Ret y, k1, s1, _) \<Rightarrow> (case udp_store setter y ctrl k1 of (out, k2) \<Rightarrow> (out, k2, s1))
         | (Exit c m, k1, s1, _) \<Rightarrow> (Exit c m, k1, s1)
         | (Blocked, k1, s1, _) \<Rightarrow> (Blocked, k1, s1)
         | (Fault, k1, s1, _) \<Rightarrow> (Fault, k1, s1)))"

text \<open>From \<^verbatim>\<open>connect\<close> to the end of the function.\<close>

definition udp_connect ::
  "udp_ctrl \<Rightarrow> bytes \<Rightarrow> inet \<Rightarrow> sock \<Rightarrow> udp_ctrl option outcome \<times> inet \<times> sock" where
  "udp_connect ctrl stack k s =
     (if \<not> inet_connect_ok k (udp_dest ctrl) then
        (Ret None, inet_free (Some ctrl) (inet_free (remote_ip ctrl) (inet_close (udp_s ctrl) k)), s)
      else
        bind_out
          (bind_out
            (udp_ask (\<lambda>c p. c\<lparr>cookie := p\<rparr>) ''GET_COOKIE'' (ctrl, stack, 127) (k, s))
            (udp_ask (\<lambda>c p. c\<lparr>remote_ifname := p\<rparr>) ''IFNAME''))
          (\<lambda>(ctrl1, _) ks. (Ret (Some ctrl1), ks)))"

text \<open>The structure once its two addresses are set.\<close>

definition udp_init :: "bool \<Rightarrow> int \<Rightarrow> udp_ctrl" where
  "udp_init remote fd =
     \<lparr>udp_s = fd,
      udp_local = \<lparr>sin_family = AF_INET, sin_port = 0,
        sin_addr = (if remote then INADDR_ANY else loopback)\<rparr>,
      udp_dest = \<lparr>sin_family = AF_INET, sin_port = htons WPA_CTRL_IFACE_PORT, sin_addr = loopback\<rparr>,
      cookie = None, remote_ifname = None, remote_ip = None\<rparr>"

definition udp_ctrl_open ::
  "bool \<Rightarrow> bytes option \<Rightarrow> bytes \<Rightarrow> inet \<Rightarrow> sock \<Rightarrow> udp_ctrl option outcome \<times> inet \<times> sock" where
  "udp_ctrl_open remote ctrl_path stack k s =
     (case inet_malloc k of
        (False, k0) \<Rightarrow> (Ret None, k0, s)
      | (True, k0) \<Rightarrow>
          (case inet_socket k0 of
             None \<Rightarrow> (Ret None, inet_free (Some ()) k0, s)
           | Some fd \<Rightarrow>
               (let k1 = k0\<lparr>fds_open := fd # fds_open k0\<rparr>; ctrl = udp_init remote fd
                in if \<not> inet_bind_ok k1 then (Ret None, inet_free (Some ctrl) (inet_close fd k1), s)
                   else
                     (case (if remote then udp_remote ctrl_path ctrl k1 else (Ret (Some ctrl), k1)) of
                        (Ret (Some ctrl1), k2) \<Rightarrow> udp_connect ctrl1 stack k2 s
                      | (Ret None, k2) \<Rightarrow> (Ret None, k2, s)
                      | (Exit c m, k2) \<Rightarrow> (Exit c m, k2, s)
                      | (Blocked, k2) \<Rightarrow> (Blocked, k2, s)
                      | (Fault, k2) \<Rightarrow> (Fault, k2, s)))))"

section \<open>Closing and naming\<close>

definition udp_ctrl_close :: "udp_ctrl \<Rightarrow> inet \<Rightarrow> inet" where
  "udp_ctrl_close ctrl k =
     inet_free (Some ctrl)
       (inet_free (remote_ip ctrl)
         (inet_free (remote_ifname ctrl) (inet_free (cookie ctrl) (inet_close (udp_s ctrl) k))))"

text \<open>
  \<^verbatim>\<open>ps\<close> is the static buffer of 100 bytes; printing a null pointer with \<^verbatim>\<open>%s\<close> is not defined.
\<close>

definition udp_get_remote_ifname :: "udp_ctrl \<Rightarrow> bytes \<Rightarrow> bytes option" where
  "udp_get_remote_ifname ctrl ps =
     (case (remote_ip ctrl, remote_ifname ctrl) of
        (Some ip, Some name) \<Rightarrow>
          (case os_snprintf ps 100 (c_string ip @ ''/'' @ c_string name) of
             None \<Rightarrow> None
           | Some (b, _) \<Rightarrow> Some b)
      | _ \<Rightarrow> None)"

section \<open>Ownership\<close>

text \<open>The number of blocks behind a pointer, and those a connection owns beside itself.\<close>

abbreviation held :: "'a option \<Rightarrow> nat" where
  "held p \<equiv> (case p of None \<Rightarrow> 0 | Some _ \<Rightarrow> 1)"

definition owned :: "udp_ctrl \<Rightarrow> nat" where
  "owned c = held (cookie c) + held (remote_ifname c) + held (remote_ip c)"

lemma inet_free_simps [simp]:
  "blocks_live (inet_free p k) = blocks_live k - held p" "fds_open (inet_free p k) = fds_open k"
  "resolver (inet_free p k) = resolver k" "inet_connect_ok (inet_free p k) = inet_connect_ok k"
  by (simp_all add: inet_free_def split: option.splits)

lemma inet_close_simps [simp]:
  "blocks_live (inet_close fd k) = blocks_live k" "fds_open (inet_close fd k) = remove1 fd (fds_open k)"
  by (simp_all add: inet_close_def)

lemma inet_malloc_eq:
  "inet_malloc k = (ok, k') \<Longrightarrow>
   blocks_live k' = blocks_live k + (if ok then 1 else 0) \<and> fds_open k' = fds_open k \<and>
   resolver k' = resolver k"
  by (auto simp: inet_malloc_def split: if_splits)

lemma inet_strdup_eq:
  "inet_strdup m k = (p, k') \<Longrightarrow>
   blocks_live k' = blocks_live k + held p \<and> fds_open k' = fds_open k \<and> resolver k' = resolver k \<and>
   (p = None \<or> p = Some (c_string m @ [NUL]))"
  by (auto simp: inet_strdup_def split: prod.splits bool.splits dest: inet_malloc_eq)

lemma cookie_command_eq:
  assumes "NUL \<notin> set c" and "n \<le> length cmd"
  shows "cookie_command (c @ NUL # rest) cmd n = Some (c @ '' '' @ take n cmd)"
proof -
  let ?len = "length c + 1 + n"
  let ?b1 = "strlcpy_result (replicate ?len NUL) c ?len"
  have cpy: "os_strlcpy (replicate ?len NUL) (c @ NUL # rest) ?len = Some (?b1, length c)"
    using os_strlcpy_eq [OF refl assms(1), of ?len "replicate ?len NUL" rest] by simp
  have b1: "?b1 = c @ NUL # replicate n NUL" by (simp add: strlcpy_result_def)
  have w1: "mem_write (length c) '' '' ?b1 = Some (c @ '' '' @ replicate n NUL)"
    unfolding b1 by (simp add: mem_write_def)
  have rd: "mem_read 0 n cmd = Some (take n cmd)" using assms(2) by (simp add: mem_read_def)
  have w2: "mem_write (length c + 1) (take n cmd) (c @ '' '' @ replicate n NUL) = Some (c @ '' '' @ take n cmd)"
    using assms(2) by (simp add: mem_write_def)
  show ?thesis using cpy w1 rd w2 assms(1)
    by (simp add: cookie_command_def Let_def)
qed

text \<open>A cookie is a C string in a block of its own.\<close>

definition cookie_ok :: "udp_ctrl \<Rightarrow> bool" where
  "cookie_ok c \<longleftrightarrow> (case cookie c of None \<Rightarrow> True | Some m \<Rightarrow> NUL \<in> set m)"

lemma c_string_split: "NUL \<in> set m \<Longrightarrow> \<exists>r. m = c_string m @ NUL # r \<and> NUL \<notin> set (c_string m)"
proof (induction m)
  case (Cons c m)
  then show ?case by (cases "c = NUL") (auto simp: c_string_def)
qed simp

definition udp_message :: "udp_ctrl \<Rightarrow> bytes \<Rightarrow> bytes" where
  "udp_message ctrl c = (case cookie ctrl of None \<Rightarrow> c | Some ck \<Rightarrow> c_string ck @ '' '' @ c)"

lemma udp_request_cases:
  assumes "cookie_ok ctrl" and "n \<le> length cmd"
    and "udp_request ctrl cb cmd n reply len k s st = (out, k', s', st')"
  shows "(out = Ret (-1, reply, len) \<and> s' = s \<and> st' = st \<or>
     wpa_ctrl_request cb (udp_message ctrl (take n cmd)) (length (udp_message ctrl (take n cmd)))
       reply len s st = (out, s', st')) \<and>
    fds_open k' = fds_open k \<and> (\<forall>x. out = Ret x \<longrightarrow> blocks_live k' = blocks_live k)"
proof (cases "cookie ctrl")
  case None
  then show ?thesis using assms by (auto simp: udp_request_def udp_message_def wpa_ctrl_request_def
        mem_read_def split: prod.splits)
next
  case (Some ck)
  obtain r where ck: "ck = c_string ck @ NUL # r" "NUL \<notin> set (c_string ck)"
    using c_string_split assms(1) Some by (auto simp: cookie_ok_def)
  let ?m = "udp_message ctrl (take n cmd)"
  have cc: "cookie_command ck cmd n = Some ?m"
    using cookie_command_eq [OF ck(2) assms(2), of r] ck(1) Some by (simp add: udp_message_def)
  obtain ok k1 where mal: "inet_malloc k = (ok, k1)" by (cases "inet_malloc k")
  note eq = inet_malloc_eq [OF mal]
  obtain o1 s1 where snd: "retry_send ?m \<lparr>sec = 0, usec = 0\<rparr> s = (o1, s1)"
    by (cases "retry_send ?m \<lparr>sec = 0, usec = 0\<rparr> s")
  show ?thesis using assms(3) Some mal eq cc snd
    by (auto simp: udp_request_def wpa_ctrl_request_def mem_read_def
        split: bool.splits outcome.splits prod.splits)
qed

lemma udp_ask_Ret:
  assumes "cookie_ok ctrl"
    and ask: "udp_ask setter cmd (ctrl, buf, len) (k, s) = (Ret (ctrl', buf', len'), k', s')"
  shows "fds_open k' = fds_open k \<and>
    (ctrl' = ctrl \<and> blocks_live k' = blocks_live k \<or>
     (\<exists>p. ctrl' = setter ctrl p \<and> blocks_live k' = blocks_live k + held p \<and>
        (p = None \<or> p = Some (c_string buf' @ [NUL]))))"
proof -
  obtain out k1 s1 u where r: "udp_request ctrl None cmd (length cmd) buf len k s () = (out, k1, s1, u)"
    by (cases "udp_request ctrl None cmd (length cmd) buf len k s ()")
  obtain ret b l where out: "out = Ret (ret, b, l)"
    using ask r by (cases out) (auto simp: udp_ask_def)
  have k1: "fds_open k1 = fds_open k" "blocks_live k1 = blocks_live k"
    using udp_request_cases [OF assms(1) order_refl r] out by auto
  have st: "udp_store setter (ret, b, l) ctrl k1 = (Ret (ctrl', buf', len'), k')"
    using ask r out by (auto simp: udp_ask_def split: prod.splits)
  show ?thesis
  proof (cases "ret = 0")
    case False
    then show ?thesis using st k1 by (simp add: udp_store_def)
  next
    case True
    then obtain p where "inet_strdup buf' k1 = (p, k')" "ctrl' = setter ctrl p"
      using st by (auto simp: udp_store_def split: option.splits prod.splits)
    then show ?thesis using inet_strdup_eq [of buf' k1 p k'] k1 by auto
  qed
qed

lemma udp_remote_Ret:
  assumes rem: "udp_remote path ctrl k = (Ret r, k')" and "remote_ip ctrl = None"
    and k: "fds_open k = udp_s ctrl # fs" "blocks_live k = Suc n"
  shows "case r of
      None \<Rightarrow> fds_open k' = fs \<and> blocks_live k' = n
    | Some c \<Rightarrow> fds_open k' = fds_open k \<and> blocks_live k' = Suc n + held (remote_ip c) \<and>
        (\<exists>ip pt. c = ctrl\<lparr>remote_ip := ip, udp_dest := (udp_dest ctrl)\<lparr>sin_port := pt\<rparr>\<rparr>)"
proof (cases path)
  case None
  obtain p k1 where d: "inet_strdup (''localhost'' @ [NUL]) k = (p, k1)"
    by (cases "inet_strdup (''localhost'' @ [NUL]) k")
  show ?thesis using rem None d inet_strdup_eq [OF d] k
    by (auto simp: udp_remote_def intro!: exI [of _ p] exI [of _ "sin_port (udp_dest ctrl)"])
next
  case (Some m)
  obtain nm k1 where d1: "inet_strdup m k = (nm, k1)" by (cases "inet_strdup m k")
  note e1 = inet_strdup_eq [OF d1]
  show ?thesis
  proof (cases nm)
    case None
    then show ?thesis using rem Some d1 e1 k by (auto simp: udp_remote_def)
  next
    case (Some name)
    obtain host port where sp: "split_port (c_string name) = (host, port)"
      by (cases "split_port (c_string name)")
    obtain ip k2 where d2: "inet_strdup (host @ [NUL]) k1 = (ip, k2)"
      by (cases "inet_strdup (host @ [NUL]) k1")
    note e2 = inet_strdup_eq [OF d2]
    show ?thesis
    proof (cases "resolver k host")
      case None
      then show ?thesis using rem \<open>path = Some m\<close> Some d1 e1 sp d2 e2 k
        by (auto simp: udp_remote_def Let_def split: option.splits)
    next
      case (Some addr)
      then show ?thesis using rem \<open>path = Some m\<close> \<open>nm = Some name\<close> d1 e1 sp d2 e2 k
        by (fastforce simp: udp_remote_def Let_def split: option.splits)
    qed
  qed
qed

lemma udp_asks_Ret:
  assumes c: "cookie ctrl = None" "remote_ifname ctrl = None"
    and asks: "bind_out (udp_ask (\<lambda>c p. c\<lparr>cookie := p\<rparr>) ''GET_COOKIE'' (ctrl, stack, 127) (k, s))
      (udp_ask (\<lambda>c p. c\<lparr>remote_ifname := p\<rparr>) ''IFNAME'') = (Ret (ctrl', y), k', s')"
  shows "fds_open k' = fds_open k \<and> udp_s ctrl' = udp_s ctrl \<and> udp_dest ctrl' = udp_dest ctrl \<and>
    blocks_live k' + held (remote_ip ctrl) = blocks_live k + owned ctrl'"
proof -
  obtain c1 b1 l1 k1 s1 where
    a1: "udp_ask (\<lambda>c p. c\<lparr>cookie := p\<rparr>) ''GET_COOKIE'' (ctrl, stack, 127) (k, s) = (Ret (c1, b1, l1), k1, s1)"
    and a2: "udp_ask (\<lambda>c p. c\<lparr>remote_ifname := p\<rparr>) ''IFNAME'' (c1, b1, l1) (k1, s1) = (Ret (ctrl', fst y, snd y), k', s')"
    using asks by (auto simp: bind_out_Ret_iff)
  have "cookie_ok ctrl" using c by (simp add: cookie_ok_def)
  note r1 = udp_ask_Ret [OF this a1]
  then have "cookie_ok c1" using c by (auto simp: cookie_ok_def)
  note r2 = udp_ask_Ret [OF this a2]
  show ?thesis using r1 r2 c by (auto simp: owned_def)
qed

lemma udp_connect_Ret:
  assumes op: "udp_connect c stack k s = (Ret r, k', s')"
    and c: "cookie c = None" "remote_ifname c = None"
    and k: "fds_open k = udp_s c # fs" "blocks_live k = Suc n + held (remote_ip c)"
  shows "case r of
      None \<Rightarrow> fds_open k' = fs \<and> blocks_live k' = n
    | Some c' \<Rightarrow> fds_open k' = udp_s c' # fs \<and> blocks_live k' = Suc n + owned c' \<and>
        udp_s c' = udp_s c \<and> udp_dest c' = udp_dest c"
proof (cases "inet_connect_ok k (udp_dest c)")
  case False
  then show ?thesis using op k by (auto simp: udp_connect_def)
next
  case True
  then obtain c' y where r: "r = Some c'" and
    asks: "bind_out (udp_ask (\<lambda>c p. c\<lparr>cookie := p\<rparr>) ''GET_COOKIE'' (c, stack, 127) (k, s))
      (udp_ask (\<lambda>c p. c\<lparr>remote_ifname := p\<rparr>) ''IFNAME'') = (Ret (c', y), k', s')"
    using op by (fastforce simp: udp_connect_def bind_out_Ret_iff)
  show ?thesis using udp_asks_Ret [OF c asks] r k by simp
qed

lemma udp_open_Ret:
  assumes op: "udp_ctrl_open remote path stack k s = (Ret r, k', s')"
  shows "case r of
      None \<Rightarrow> fds_open k' = fds_open k \<and> blocks_live k' = blocks_live k
    | Some c \<Rightarrow> fds_open k' = udp_s c # fds_open k \<and>
        blocks_live k' = Suc (blocks_live k) + owned c \<and> sin_addr (udp_dest c) = loopback"
proof -
  obtain ok k0 where m: "inet_malloc k = (ok, k0)" by (cases "inet_malloc k")
  note e = inet_malloc_eq [OF m]
  show ?thesis
  proof (cases "ok \<and> inet_socket k0 \<noteq> None \<and> inet_bind_ok k0")
    case False
    then show ?thesis using op m e
      by (auto simp: udp_ctrl_open_def Let_def split: bool.splits option.splits if_splits)
  next
    case True
    then obtain fd where fd: "inet_socket k0 = Some fd" by auto
    let ?k1 = "k0\<lparr>fds_open := fd # fds_open k0\<rparr>" and ?c = "udp_init remote fd"
    have k1: "fds_open ?k1 = udp_s ?c # fds_open k" "blocks_live ?k1 = Suc (blocks_live k)"
      "cookie ?c = None" "remote_ifname ?c = None" "remote_ip ?c = None" "sin_addr (udp_dest ?c) = loopback"
      using e True by (simp_all add: udp_init_def)
    obtain o1 k2 where rm: "(if remote then udp_remote path ?c ?k1 else (Ret (Some ?c), ?k1)) = (o1, k2)"
      by fastforce
    have eq: "udp_ctrl_open remote path stack k s =
        (case o1 of Ret (Some c1) \<Rightarrow> udp_connect c1 stack k2 s | Ret None \<Rightarrow> (Ret None, k2, s)
         | Exit c m \<Rightarrow> (Exit c m, k2, s) | Blocked \<Rightarrow> (Blocked, k2, s) | Fault \<Rightarrow> (Fault, k2, s))"
      using True m fd by (simp add: udp_ctrl_open_def Let_def rm)
    then obtain q where q: "o1 = Ret q" using op by (cases o1) auto
    have rem: "case q of None \<Rightarrow> fds_open k2 = fds_open k \<and> blocks_live k2 = blocks_live k
        | Some c \<Rightarrow> fds_open k2 = fd # fds_open k \<and>
            blocks_live k2 = Suc (blocks_live k) + held (remote_ip c) \<and> cookie c = None \<and>
            remote_ifname c = None \<and> udp_s c = fd \<and> sin_addr (udp_dest c) = loopback"
    proof (cases remote)
      case True
      then have r: "udp_remote path ?c ?k1 = (Ret q, k2)" using rm q by simp
      have "udp_s ?c = fd" by (simp add: udp_init_def)
      then show ?thesis using udp_remote_Ret [OF r k1(5,1,2)] k1 by (cases q) auto
    qed (use rm q k1 in \<open>auto simp: udp_init_def\<close>)
    show ?thesis
    proof (cases q)
      case (Some c)
      have "udp_connect c stack k2 s = (Ret r, k', s')" using eq op q Some by simp
      from udp_connect_Ret [OF this, of "fds_open k" "blocks_live k"] rem Some
      show ?thesis by (auto split: option.splits)
    qed (use eq op q rem in auto)
  qed
qed

section \<open>Properties of the UDP connection\<close>

text \<open>
  Over UDP, \<^verbatim>\<open>wpa_ctrl_request\<close> sends the cookie, a space and the command as one datagram, frees
  the block it built whatever happens, and otherwise behaves like a request of that longer command.
\<close>

theorem udp_request_prefixes_cookie:
  assumes "cookie ctrl = Some (ck @ NUL # rest)" and "NUL \<notin> set ck" and "n \<le> length cmd"
    and "0 < len" and "len \<le> length reply"
    and "udp_request ctrl (Some (\<lambda>b k. g (take k b))) cmd n reply len k s st = (Ret (ret, buf, l), k', s', st')"
  shows "blocks_live k' = blocks_live k \<and> ret \<in> {0, -1, -2} \<and>
    (ret = 0 \<longrightarrow> sent s' = sent s @ [ck @ '' '' @ take n cmd] \<and>
       (\<exists>ns m. recv_answers s = map RecvMsg ns @ RecvMsg m # recv_answers s' \<and>
          (\<forall>x \<in> set ns. unsolicited x) \<and> \<not> unsolicited m \<and> take l buf = take len m))"
proof -
  let ?m = "udp_message ctrl (take n cmd)"
  have m: "?m = ck @ '' '' @ take n cmd"
    using assms(1) c_string_append [OF assms(2)] by (simp add: udp_message_def)
  have "cookie_ok ctrl" using assms(1) by (simp add: cookie_ok_def)
  note r = udp_request_cases [OF this assms(3,6)]
  show ?thesis
  proof (cases "wpa_ctrl_request (Some (\<lambda>b k. g (take k b))) ?m (length ?m) reply len s st =
      (Ret (ret, buf, l), s', st')")
    case False
    then show ?thesis using r by simp
  next
    case True
    have "ret = 0 \<Longrightarrow> sent s' = sent s @ [?m] \<and>
        (\<exists>ns m. recv_answers s = map RecvMsg ns @ RecvMsg m # recv_answers s' \<and>
          (\<forall>x \<in> set ns. unsolicited x) \<and> \<not> unsolicited m \<and> take l buf = take len m)"
      using bytes_callback.request_success [OF _ assms(4,5)] True by fastforce
    then show ?thesis using r bytes_callback.request_codes [OF True assms(4,5)] m by auto
  qed
qed

lemma udp_request_sent:
  assumes "cookie_ok ctrl" and "n \<le> length cmd" and "alloc_ok k = (\<lambda>_. True)"
  shows "\<exists>k'. alloc_ok k' = (\<lambda>_. True) \<and> udp_request ctrl cb cmd n reply len k s st =
    (case wpa_ctrl_request cb (udp_message ctrl (take n cmd)) (length (udp_message ctrl (take n cmd)))
       reply len s st of (out, s1, st1) \<Rightarrow> (out, k', s1, st1))"
proof (cases "cookie ctrl")
  case None
  then show ?thesis using assms
    by (intro exI [of _ k])
      (auto simp: udp_request_def udp_message_def wpa_ctrl_request_def mem_read_def split: prod.splits)
next
  case (Some ck)
  obtain r where ck: "ck = c_string ck @ NUL # r" "NUL \<notin> set (c_string ck)"
    using c_string_split assms(1) Some by (auto simp: cookie_ok_def)
  let ?m = "udp_message ctrl (take n cmd)"
  have cc: "cookie_command ck cmd n = Some ?m"
    using cookie_command_eq [OF ck(2) assms(2), of r] ck(1) Some by (simp add: udp_message_def)
  obtain o1 s1 where snd: "retry_send ?m \<lparr>sec = 0, usec = 0\<rparr> s = (o1, s1)"
    by (cases "retry_send ?m \<lparr>sec = 0, usec = 0\<rparr> s")
  define k1 where "k1 = k\<lparr>allocs := allocs k + 1, blocks_live := blocks_live k + 1\<rparr>"
  have mal: "inet_malloc k = (True, k1)" using assms(3) by (simp add: inet_malloc_def k1_def)
  have ok: "alloc_ok k1 = (\<lambda>_. True)" "alloc_ok (inet_free (Some ?m) k1) = (\<lambda>_. True)"
    using assms(3) by (simp_all add: k1_def inet_free_def)
  show ?thesis
  proof (cases o1)
    case (Ret b)
    then show ?thesis using Some mal ok cc snd
      by (intro exI [of _ "inet_free (Some ?m) k1"], cases b)
        (auto simp: udp_request_def wpa_ctrl_request_def mem_read_def split: prod.splits)
  qed (use Some mal ok cc snd in \<open>intro exI [of _ k1];
      auto simp: udp_request_def wpa_ctrl_request_def mem_read_def\<close>)+
qed

lemma inet_strdup_ok:
  "alloc_ok k = (\<lambda>_. True) \<Longrightarrow> \<exists>k'. inet_strdup m k = (Some (c_string m @ [NUL]), k') \<and>
     alloc_ok k' = (\<lambda>_. True)"
  by (simp add: inet_strdup_def inet_malloc_def)

text \<open>One question that is answered at once.\<close>

lemma udp_ask_answered:
  assumes ok: "cookie_ok ctrl" "alloc_ok k = (\<lambda>_. True)" and len: "0 < len" "len < length buf"
    and s: "send_answers s = None # sa" "select_answers s = SelReady # r" "recv_answers s = RecvMsg m # q"
    and m: "\<not> unsolicited m" "NUL \<notin> set m"
  shows "\<exists>buf' k' s'. udp_ask setter cmd (ctrl, buf, len) (k, s) =
      (Ret (setter ctrl (Some (take len m @ [NUL])), buf', length (take len m)), k', s') \<and>
    length buf' = length buf \<and> alloc_ok k' = (\<lambda>_. True) \<and>
    send_answers s' = sa \<and> select_answers s' = r \<and> recv_answers s' = q"
proof -
  let ?c = "udp_message ctrl (take (length cmd) cmd)"
  have snd: "retry_send (take (length ?c) ?c) \<lparr>sec = 0, usec = 0\<rparr> s =
      (Ret True, s\<lparr>send_answers := sa, sent := sent s @ [?c]\<rparr>)"
    using s(1) by (simp add: retry_send.simps [of _ _ s])
  have sel: "select_answers s = replicate (Suc (length [])) SelReady @ r"
    and rcv: "recv_answers s = map RecvMsg [] @ RecvMsg m # q" using s by simp_all
  have lb: "len \<le> length buf" using len by simp
  from null_callback.request_delivers [OF order_refl snd sel rcv _ m(1) _ len(1) lb, of "()"]
  obtain b s' where req: "wpa_ctrl_request None ?c (length ?c) buf len s () =
      (Ret (0, b, length (take len m)), s', ())" and b: "take (length (take len m)) b = take len m"
    "length b = length buf" "select_answers s' = r" "recv_answers s' = q" "send_answers s' = sa"
    by auto
  from udp_request_sent [OF ok(1) order_refl ok(2), of None cmd buf len s "()"] req obtain k1 where
    k1: "alloc_ok k1 = (\<lambda>_. True)" "udp_request ctrl None cmd (length cmd) buf len k s () =
      (Ret (0, b, length (take len m)), k1, s', ())" by auto
  let ?l = "length (take len m)"
  let ?b = "take ?l b @ NUL # drop (Suc ?l) b"
  have wr: "mem_write ?l [NUL] b = Some ?b" using b len by (simp add: mem_write_def)
  have nn: "NUL \<notin> set (take len m)" using m(2) by (meson in_set_takeD)
  have cs: "c_string ?b = take len m" unfolding b(1) by (rule c_string_append [OF nn])
  have lb: "length ?b = length buf" using b len by (simp add: min_def)
  from inet_strdup_ok [OF k1(1), of ?b] obtain k2 where
    "inet_strdup ?b k1 = (Some (take len m @ [NUL]), k2)" "alloc_ok k2 = (\<lambda>_. True)"
    unfolding cs by blast
  then show ?thesis using k1(2) wr lb b(3-5) unfolding udp_ask_def udp_store_def by auto
qed

text \<open>A host that answers \<^verbatim>\<open>GET_COOKIE\<close> with three bytes and \<^verbatim>\<open>IFNAME\<close> with five.\<close>

definition udp_kernel :: inet where
  "udp_kernel = \<lparr>blocks_live = 2, fds_open = [2, 1, 0], allocs = 0, alloc_ok = (\<lambda>_. True),
     inet_socket = Some 4, inet_bind_ok = True, inet_connect_ok = (\<lambda>a. sin_addr a = loopback),
     resolver = (\<lambda>n. if n = ''ap'' then Some [192, 168, 1, 1] else None), h_addr = []\<rparr>"

definition udp_sock :: sock where
  "udp_sock = pong_sock\<lparr>send_answers := [None, None],
     recv_answers := [RecvMsg ''ABC'', RecvMsg ''wlan0'']\<rparr>"

theorem udp_request_prefixes_cookie_witness:
  "\<exists>buf l k' s'. udp_request ((udp_init False 4)\<lparr>cookie := Some (''ABC'' @ NUL # [])\<rparr>)
      (Some (\<lambda>b k. collect (take k b))) ''PING'' 4 ''........'' 8 udp_kernel udp_sock [] =
      (Ret (0, buf, l), k', s', []) \<and> sent s' = [''ABC PING''] \<and> blocks_live k' = 2"
proof -
  let ?c = "(udp_init False 4)\<lparr>cookie := Some (''ABC'' @ NUL # [])\<rparr>"
  have c: "cookie ?c = Some (''ABC'' @ NUL # [])" by simp
  have ok: "cookie_ok ?c" "alloc_ok udp_kernel = (\<lambda>_. True)" "(4::nat) \<le> length ''PING''"
    by (simp_all add: cookie_ok_def udp_kernel_def)
  have msg: "udp_message ?c (take 4 ''PING'') = ''ABC PING''" "length ''ABC PING'' = 8"
    by (simp_all add: udp_message_def c_string_def)
  have req: "wpa_ctrl_request (Some (\<lambda>b k. collect (take k b))) ''ABC PING'' 8 ''........'' 8 udp_sock [] =
      (Ret (0, ''ABC.....'', 3), udp_sock\<lparr>send_answers := [None], select_answers := [SelReady],
         recv_answers := [RecvMsg ''wlan0''], sent := [''ABC PING'']\<rparr>, [])"
    by code_simp
  from udp_request_sent [OF ok(1,3,2), of "Some (\<lambda>b k. collect (take k b))" "''........''" 8 udp_sock "[]",
      unfolded msg req]
  obtain k' where run: "udp_request ?c (Some (\<lambda>b k. collect (take k b))) ''PING'' 4 ''........'' 8 udp_kernel udp_sock [] =
      (Ret (0, ''ABC.....'', 3), k', udp_sock\<lparr>send_answers := [None], select_answers := [SelReady],
         recv_answers := [RecvMsg ''wlan0''], sent := [''ABC PING'']\<rparr>, [])" by auto
  from udp_request_prefixes_cookie [OF c _ ok(3) _ _ run] show ?thesis
    using run by (simp add: udp_kernel_def)
qed

text \<open>
  Opening and closing a UDP connection balance: a failed open leaves descriptors and heap as they
  were, and closing an opened connection gives back its descriptor and every block opening it took,
  whichever of the two questions were answered and whichever copies could be made.
\<close>

theorem udp_open_close_balance:
  assumes "udp_ctrl_open remote path stack k s = (Ret r, k', s')"
  shows "case r of
      None \<Rightarrow> fds_open k' = fds_open k \<and> blocks_live k' = blocks_live k
    | Some c \<Rightarrow> fds_open (udp_ctrl_close c k') = fds_open k \<and>
        blocks_live (udp_ctrl_close c k') = blocks_live k"
  using udp_open_Ret [OF assms] by (auto simp: udp_ctrl_close_def owned_def split: option.splits)

lemma udp_open_remote_eq:
  "udp_ctrl_open True (Some (''none'' @ [NUL])) stack udp_kernel s =
    (Ret None, udp_kernel\<lparr>allocs := 3\<rparr>, s)"
  by (simp add: udp_ctrl_open_def udp_remote_def udp_kernel_def inet_malloc_def inet_strdup_def
      inet_free_def inet_close_def split_port_def c_string_def udp_init_def Let_def)

theorem udp_open_close_balance_witness:
  "udp_ctrl_open True (Some (''none'' @ [NUL])) [] udp_kernel udp_sock =
     (Ret None, udp_kernel\<lparr>allocs := 3\<rparr>, udp_sock) \<and>
   blocks_live (udp_kernel\<lparr>allocs := 3\<rparr>) = blocks_live udp_kernel"
  using udp_open_close_balance [OF udp_open_remote_eq [of "[]" udp_sock]] udp_open_remote_eq by simp

text \<open>
  C24: with \<^verbatim>\<open>CONFIG_CTRL_IFACE_UDP_REMOTE\<close> too, an opened connection goes to the loopback address
  whatever host was asked for and whatever the resolver answered: the copy of the resolved address
  goes the wrong way.
\<close>

theorem udp_remote_stays_on_loopback:
  assumes "udp_ctrl_open True (Some path) stack k s = (Ret (Some c), k', s')"
  shows "sin_addr (udp_dest c) = htonl 0x7f000001"
  using udp_open_Ret [OF assms] by (simp add: loopback_def)

text \<open>A host \<^verbatim>\<open>ap\<close> that resolves, on port 1234, with a socket that takes no datagram.\<close>

definition mute_sock :: sock where
  "mute_sock = pong_sock\<lparr>send_answers := [Some ERANGE, Some ERANGE]\<rparr>"

lemma mute_request:
  "send_answers s = Some ERANGE # r \<Longrightarrow>
   wpa_ctrl_request cb cmd (length cmd) buf len s st = (Ret (-1, buf, len), s\<lparr>send_answers := r\<rparr>, st)"
  by (simp add: wpa_ctrl_request_def mem_read_def retry_send.simps [of _ _ s])

lemma udp_open_mute:
  "\<exists>c k'. udp_ctrl_open True (Some (''ap:1234'' @ [NUL])) stack udp_kernel mute_sock =
     (Ret (Some c), k', pong_sock\<lparr>send_answers := []\<rparr>) \<and>
   sin_port (udp_dest c) = htons 1234 \<and> remote_ip c = Some (''ap'' @ [NUL])"
proof -
  have atoi: "c_atoi ''1234'' = 1234" by code_simp
  have sp: "split_port ''ap:1234'' = (''ap'', Some ''1234'')" by code_simp
  have cs: "c_string (''ap:1234'' @ [NUL]) = ''ap:1234''" "c_string (''ap:1234'' @ [NUL] @ []) = ''ap:1234''"
    "c_string (''ap'' @ [NUL]) = ''ap''" by code_simp+
  let ?k1 = "udp_kernel\<lparr>allocs := 1, blocks_live := 3, fds_open := [4, 2, 1, 0]\<rparr>"
  let ?c1 = "(udp_init True 4)\<lparr>remote_ip := Some (''ap'' @ [NUL]),
      udp_dest := (udp_dest (udp_init True 4))\<lparr>sin_port := htons 1234\<rparr>\<rparr>"
  obtain k2 where rem: "udp_remote (Some (''ap:1234'' @ [NUL])) (udp_init True 4) ?k1 = (Ret (Some ?c1), k2)"
    and k2: "inet_connect_ok k2 = inet_connect_ok udp_kernel"
    using atoi sp cs
    by (simp add: udp_remote_def inet_strdup_def inet_malloc_def udp_kernel_def Let_def
        s_addr_bytes_def mem_read_def inet_free_def)
  have req: "udp_request ?c1 None cmd (length cmd) buf len k s () =
      (Ret (-1, buf, len), k, s\<lparr>send_answers := r\<rparr>, ())"
    if "send_answers s = Some ERANGE # r" for cmd buf len k s r
    using mute_request [OF that, of None cmd buf len "()"] by (simp add: udp_request_def udp_init_def)
  have ask: "udp_ask setter cmd (?c1, buf, len) (k, s) = (Ret (?c1, buf, len), k, s\<lparr>send_answers := r\<rparr>)"
    if "send_answers s = Some ERANGE # r" for setter cmd buf len k s r
    using req [OF that] by (simp add: udp_ask_def udp_store_def)
  have s: "send_answers mute_sock = Some ERANGE # [Some ERANGE]" by (simp add: mute_sock_def)
  have con: "inet_connect_ok udp_kernel (udp_dest ?c1)" by (simp add: udp_kernel_def udp_init_def)
  have "udp_connect ?c1 stack k2 mute_sock = (Ret (Some ?c1), k2, pong_sock\<lparr>send_answers := []\<rparr>)"
    unfolding udp_connect_def using ask [OF s] con k2 ask [of "mute_sock\<lparr>send_answers := [Some ERANGE]\<rparr>" "[]"]
    by (simp add: mute_sock_def)
  moreover have "udp_ctrl_open True (Some (''ap:1234'' @ [NUL])) stack udp_kernel mute_sock =
      udp_connect ?c1 stack k2 mute_sock"
    using rem by (simp add: udp_ctrl_open_def inet_malloc_def udp_kernel_def Let_def)
  ultimately show ?thesis by simp
qed

theorem udp_remote_stays_on_loopback_witness:
  "\<exists>c k' s'. udp_ctrl_open True (Some (''ap:1234'' @ [NUL])) [] udp_kernel mute_sock = (Ret (Some c), k', s') \<and>
     resolver udp_kernel ''ap'' = Some [192, 168, 1, 1] \<and> sin_addr (udp_dest c) = htonl 0x7f000001"
proof -
  obtain c k' where "udp_ctrl_open True (Some (''ap:1234'' @ [NUL])) [] udp_kernel mute_sock =
     (Ret (Some c), k', pong_sock\<lparr>send_answers := []\<rparr>)" using udp_open_mute by blast
  with udp_remote_stays_on_loopback [OF this] show ?thesis by (auto simp: udp_kernel_def)
qed

text \<open>
  C25: the name of the remote interface is cut to the length of the cookie's answer, because the second
  request is given the length the first one left: with both questions answered at once the
  connection keeps the cookie \<open>m1\<close> whole and only \<open>length m1\<close> bytes of the name \<open>m2\<close>.
\<close>

theorem udp_ifname_cut_to_cookie:
  assumes c: "cookie c = None" "inet_connect_ok k (udp_dest c)" "alloc_ok k = (\<lambda>_. True)"
    and stack: "length stack = 128"
    and s: "send_answers s = None # None # sa" "select_answers s = SelReady # SelReady # r"
      "recv_answers s = RecvMsg m1 # RecvMsg m2 # q"
    and m: "m1 \<noteq> []" "length m1 \<le> 127" "\<not> unsolicited m1" "\<not> unsolicited m2"
      "NUL \<notin> set m1" "NUL \<notin> set m2"
  shows "\<exists>c' k' s'. udp_connect c stack k s = (Ret (Some c'), k', s') \<and>
    cookie c' = Some (m1 @ [NUL]) \<and> remote_ifname c' = Some (take (length m1) m2 @ [NUL])"
proof -
  have ck: "cookie_ok c" using c by (simp add: cookie_ok_def)
  from udp_ask_answered [OF ck c(3) _ _ s(1-3) m(3,5), of 127 stack "\<lambda>c p. c\<lparr>cookie := p\<rparr>" "''GET_COOKIE''"]
    stack m(2) obtain b1 k1 s1 where
    a1: "udp_ask (\<lambda>c p. c\<lparr>cookie := p\<rparr>) ''GET_COOKIE'' (c, stack, 127) (k, s) =
      (Ret (c\<lparr>cookie := Some (m1 @ [NUL])\<rparr>, b1, length m1), k1, s1)"
    and b1: "length b1 = 128" "alloc_ok k1 = (\<lambda>_. True)" and
    s1: "send_answers s1 = None # sa" "select_answers s1 = SelReady # r" "recv_answers s1 = RecvMsg m2 # q"
    by auto
  have ck1: "cookie_ok (c\<lparr>cookie := Some (m1 @ [NUL])\<rparr>)" by (simp add: cookie_ok_def)
  have len: "0 < length m1" "length m1 < length b1" using m(1,2) b1 by auto
  from udp_ask_answered [OF ck1 b1(2) len s1 m(4,6), of "\<lambda>c p. c\<lparr>remote_ifname := p\<rparr>" "''IFNAME''"]
  obtain b2 k2 s2 where
    a2: "udp_ask (\<lambda>c p. c\<lparr>remote_ifname := p\<rparr>) ''IFNAME'' (c\<lparr>cookie := Some (m1 @ [NUL])\<rparr>, b1, length m1) (k1, s1) =
      (Ret (c\<lparr>cookie := Some (m1 @ [NUL])\<rparr>\<lparr>remote_ifname := Some (take (length m1) m2 @ [NUL])\<rparr>, b2,
        length (take (length m1) m2)), k2, s2)" by auto
  show ?thesis unfolding udp_connect_def using c(2) a1 a2 by simp
qed

theorem udp_ifname_cut_to_cookie_witness:
  "\<exists>c' k' s'. udp_connect (udp_init False 4) (replicate 128 NUL) udp_kernel udp_sock =
      (Ret (Some c'), k', s') \<and> remote_ifname c' = Some (''wla'' @ [NUL])"
  using udp_ifname_cut_to_cookie [of "udp_init False 4" udp_kernel "replicate 128 NUL" udp_sock
      "[]" "[]" "''ABC''" "''wlan0''" "[]"]
  by (simp add: udp_init_def udp_kernel_def udp_sock_def pong_sock_def unsolicited_def) blast

text \<open>
  \<^verbatim>\<open>wpa_ctrl_get_remote_ifname\<close> leaves its static buffer of 100 bytes terminated, whatever the
  two names are.
\<close>

theorem remote_ifname_bounded:
  assumes "remote_ip c = Some ip" and "remote_ifname c = Some name" and "length ps = 100"
  shows "\<exists>b. udp_get_remote_ifname c ps = Some b \<and> length b = 100 \<and>
    c_string b = take 99 (c_string ip @ ''/'' @ c_string name)"
proof -
  let ?t = "take 99 (c_string ip @ ''/'' @ c_string name)"
  have nn: "NUL \<notin> set (c_string m)" for m unfolding c_string_def by (auto dest: set_takeWhileD)
  have "NUL \<notin> set (c_string ip @ ''/'' @ c_string name)" using nn by simp
  then have "NUL \<notin> set ?t" by (meson in_set_takeD)
  moreover have "mem_write 0 (?t @ [NUL]) ps = Some (?t @ NUL # drop (Suc (length ?t)) ps)"
    using assms(3) by (simp add: mem_write_def)
  ultimately show ?thesis using assms c_string_append [of ?t "drop (Suc (length ?t)) ps"]
    by (auto simp: udp_get_remote_ifname_def os_snprintf_def)
qed

theorem remote_ifname_bounded_witness:
  "\<exists>b. udp_get_remote_ifname ((udp_init True 4)\<lparr>remote_ip := Some (''ap'' @ [NUL]),
      remote_ifname := Some (''wlan0'' @ [NUL])\<rparr>) (replicate 100 NUL) = Some b \<and> c_string b = ''ap/wlan0''"
  using remote_ifname_bounded [of "(udp_init True 4)\<lparr>remote_ip := Some (''ap'' @ [NUL]),
      remote_ifname := Some (''wlan0'' @ [NUL])\<rparr>" "''ap'' @ [NUL]" "''wlan0'' @ [NUL]" "replicate 100 NUL"]
  by (auto simp: c_string_def)

end
