(* ===== verification/Ctrl_Pipe.thy ===== *)
theory Ctrl_Pipe
  imports Ctrl_Open Ctrl_Socket
begin

text \<open>
  The control connection over a Windows named pipe (\<^verbatim>\<open>CONFIG_CTRL_IFACE_NAMED_PIPE\<close> in
  \<^verbatim>\<open>src/src/wpa_ctrl/wpa_ctrl.c\<close>), with and without \<^verbatim>\<open>UNICODE\<close>. The kernel is again given by its answers to
  successive calls.
\<close>

section \<open>State\<close>

datatype win_error = ERROR_PIPE_BUSY | WIN_ERROR int

text \<open>
  An answer to \<^verbatim>\<open>CreateFile\<close> is a handle or the value of \<^verbatim>\<open>GetLastError\<close>; one to \<^verbatim>\<open>ReadFile\<close> the
  data it stores, if it succeeds; one to \<^verbatim>\<open>PeekNamedPipe\<close> the number of bytes left.
\<close>

record win =
  win_malloc_ok :: bool
  win_blocks :: nat
  win_handles :: "int list"
  create_answers :: "(win_error + int) list"
  waited :: nat
  setstate_ok :: bool
  write_answers :: "bool list"
  read_file_answers :: "bytes option list"
  peek_answers :: "nat option list"
  pipe_sent :: "bytes list"

abbreviation backslash :: char where
  "backslash \<equiv> CHR 0x5C"

definition NAMED_PIPE_PREFIX :: string where
  "NAMED_PIPE_PREFIX =
     [backslash, backslash, CHR ''.'', backslash] @ ''pipe'' @ [backslash] @ ''WpaSupplicant''"

section \<open>Opening\<close>

text \<open>
  The loop over \<open>i < 10\<close>: what \<^verbatim>\<open>ctrl->pipe\<close> is after it, \<open>None\<close> standing for
  \<^verbatim>\<open>INVALID_HANDLE_VALUE\<close>.
\<close>

function create_loop :: "nat \<Rightarrow> win \<Rightarrow> int option outcome \<times> win" where
  "create_loop i k =
     (if i < 10 then
        (case create_answers k of
           [] \<Rightarrow> (Blocked, k)
         | Inr h # r \<Rightarrow> (Ret (Some h), k\<lparr>create_answers := r, win_handles := h # win_handles k\<rparr>)
         | Inl e # r \<Rightarrow>
             (if e \<noteq> ERROR_PIPE_BUSY then (Ret None, k\<lparr>create_answers := r\<rparr>)
              else create_loop (Suc i) (k\<lparr>create_answers := r, waited := waited k + 1\<rparr>)))
      else (Ret None, k))"
  by pat_completeness auto
termination
  by (relation "measure (\<lambda>(i, k). 10 - i)") auto

declare create_loop.simps [simp del]

definition win_free :: "win \<Rightarrow> win" where
  "win_free k = k\<lparr>win_blocks := win_blocks k - 1\<rparr>"

definition close_handle :: "int \<Rightarrow> win \<Rightarrow> win" where
  "close_handle h k = k\<lparr>win_handles := remove1 h (win_handles k)\<rparr>"

text \<open>From the test of the length of the name to the end of the function.\<close>

definition pipe_connect :: "int \<Rightarrow> win \<Rightarrow> int option outcome \<times> win" where
  "pipe_connect ret k1 =
     (if ret < 0 \<or> ret \<ge> 256 then (Ret None, win_free k1)
      else
        bind_out (create_loop 0 k1)
          (\<lambda>pipe k2.
             case pipe of
               None \<Rightarrow> (Ret None, win_free k2)
             | Some h \<Rightarrow>
                 (if \<not> setstate_ok k2 then (Ret None, win_free (close_handle h k2))
                  else (Ret (Some h), k2))))"

text \<open>\<open>name\<close> is the uninitialised array of 256 characters on the stack.\<close>

definition pipe_ctrl_open :: "bytes option \<Rightarrow> bytes \<Rightarrow> win \<Rightarrow> int option outcome \<times> win" where
  "pipe_ctrl_open ctrl_path name k =
     (if \<not> win_malloc_ok k then (Ret None, k)
      else
        (let k1 = k\<lparr>win_blocks := win_blocks k + 1\<rparr>;
             text = (case ctrl_path of None \<Rightarrow> NAMED_PIPE_PREFIX
                     | Some path \<Rightarrow> NAMED_PIPE_PREFIX @ ''-'' @ c_string path)
         in case os_snprintf name 256 text of
              None \<Rightarrow> (Fault, k1)
            | Some (_, ret) \<Rightarrow> pipe_connect (int ret) k1))"

text \<open>
  Under \<^verbatim>\<open>UNICODE\<close> the name is printed with \<^verbatim>\<open>_snwprintf\<close>, which does not end a text that fills the array and
  returns a negative number for a longer one. \<open>widen\<close> is the conversion of \<^verbatim>\<open>%S\<close>, which depends on the
  locale and may fail.
\<close>

definition snwprintf :: "u16 list \<Rightarrow> nat \<Rightarrow> u16 list option \<Rightarrow> (u16 list \<times> int) option" where
  "snwprintf name n text =
     (case text of
        None \<Rightarrow> Some (name, -1)
      | Some t \<Rightarrow>
          map_option (\<lambda>b. (b, if length t \<le> n then int (length t) else -1))
            (mem_write 0 (if length t < n then t @ [0] else take n t) name))"

definition wide :: "string \<Rightarrow> u16 list" where
  "wide str = map of_char str"

definition pipe_ctrl_open_unicode ::
  "(string \<Rightarrow> u16 list option) \<Rightarrow> bytes option \<Rightarrow> u16 list \<Rightarrow> win \<Rightarrow> int option outcome \<times> win" where
  "pipe_ctrl_open_unicode widen ctrl_path name k =
     (if \<not> win_malloc_ok k then (Ret None, k)
      else
        (let k1 = k\<lparr>win_blocks := win_blocks k + 1\<rparr>;
             text = (case ctrl_path of
                       None \<Rightarrow> Some (wide NAMED_PIPE_PREFIX)
                     | Some path \<Rightarrow>
                         map_option (\<lambda>t. wide (NAMED_PIPE_PREFIX @ ''-'') @ t) (widen (c_string path)))
         in case snwprintf name 256 text of
              None \<Rightarrow> (Fault, k1)
            | Some (_, ret) \<Rightarrow> pipe_connect ret k1))"

definition pipe_ctrl_close :: "int \<Rightarrow> win \<Rightarrow> win" where
  "pipe_ctrl_close h k = win_free (close_handle h k)"

section \<open>Talking\<close>

text \<open>A \<^verbatim>\<open>size_t\<close> passed as \<^verbatim>\<open>DWORD\<close> keeps 32 bits.\<close>

definition dword :: "nat \<Rightarrow> nat" where
  "dword n = n mod 2 ^ 32"

text \<open>\<^verbatim>\<open>ReadFile\<close> into a buffer: the contents, and the length it stores.\<close>

definition read_file :: "bytes \<Rightarrow> nat \<Rightarrow> win \<Rightarrow> (bytes \<times> nat) option outcome \<times> win" where
  "read_file buf n k =
     (case read_file_answers k of
        [] \<Rightarrow> (Blocked, k)
      | None # r \<Rightarrow> (Ret None, k\<lparr>read_file_answers := r\<rparr>)
      | Some m # r \<Rightarrow>
          (case mem_write 0 (take (dword n) m) buf of
             None \<Rightarrow> (Fault, k\<lparr>read_file_answers := r\<rparr>)
           | Some b \<Rightarrow> (Ret (Some (b, length (take (dword n) m))), k\<lparr>read_file_answers := r\<rparr>)))"


definition pipe_ctrl_recv :: "bytes \<Rightarrow> nat \<Rightarrow> win \<Rightarrow> (int \<times> bytes \<times> nat) outcome \<times> win" where
  "pipe_ctrl_recv reply reply_len k =
     bind_out (read_file reply reply_len k)
       (\<lambda>x k1. case x of
          None \<Rightarrow> (Ret (-1, reply, reply_len), k1)
        | Some (b, len) \<Rightarrow> (Ret (0, b, len), k1))"

definition pipe_ctrl_pending :: "win \<Rightarrow> int outcome \<times> win" where
  "pipe_ctrl_pending k =
     (case peek_answers k of
        [] \<Rightarrow> (Blocked, k)
      | None # r \<Rightarrow> (Ret (-1), k\<lparr>peek_answers := r\<rparr>)
      | Some left # r \<Rightarrow> (Ret (if left \<noteq> 0 then 1 else 0), k\<lparr>peek_answers := r\<rparr>))"

definition pipe_ctrl_get_fd :: "int \<Rightarrow> int" where
  "pipe_ctrl_get_fd h = -1"

section \<open>The retry loop\<close>

lemma create_loop_frame:
  "create_loop i k = (out, k') \<Longrightarrow>
   win_blocks k' = win_blocks k \<and> setstate_ok k' = setstate_ok k \<and>
   win_handles k' = (case out of Ret (Some h) \<Rightarrow> h # win_handles k | _ \<Rightarrow> win_handles k) \<and>
   waited k' + i \<le> waited k + max i 10 \<and>
   length (create_answers k) + i \<le> length (create_answers k') + max i 10"
proof (induction i k arbitrary: out k' rule: create_loop.induct)
  case (1 i k)
  show ?case
  proof (cases "i < 10 \<and> (\<exists>r. create_answers k = Inl ERROR_PIPE_BUSY # r)")
    case True
    then obtain r where r: "i < 10" "create_answers k = Inl ERROR_PIPE_BUSY # r" by blast
    have "create_loop (Suc i) (k\<lparr>create_answers := r, waited := waited k + 1\<rparr>) = (out, k')"
      using 1(2) r by (simp add: create_loop.simps [of i k])
    from 1(1) [OF r(1,2) refl _ this] show ?thesis using r
      by (auto split: outcome.splits option.splits)
  next
    case False
    then show ?thesis using 1(2)
      by (auto simp: create_loop.simps [of i k] split: list.splits sum.splits if_splits)
  qed
qed

lemma create_loop_busy:
  "create_answers k = replicate n (Inl ERROR_PIPE_BUSY) @ Inr h # r \<Longrightarrow> i + n < 10 \<Longrightarrow>
   create_loop i k = (Ret (Some h), k\<lparr>create_answers := r, waited := waited k + n,
     win_handles := h # win_handles k\<rparr>)"
proof (induction n arbitrary: i k)
  case (Suc n)
  from Suc.IH [of "k\<lparr>create_answers := replicate n (Inl ERROR_PIPE_BUSY) @ Inr h # r,
      waited := waited k + 1\<rparr>" "Suc i"] Suc.prems
  show ?case by (simp add: create_loop.simps [of i k])
qed (simp add: create_loop.simps)

lemma pipe_name_fits:
  assumes "length name = 256" and "length t < 256"
  shows "\<exists>b. os_snprintf name 256 t = Some (b, length t)"
  using os_snprintf_fits [of t 256 name] assms by simp

lemma create_loop_returns:
  "10 \<le> length (create_answers k) + i \<Longrightarrow> \<exists>p k'. create_loop i k = (Ret p, k')"
proof (induction i k rule: create_loop.induct)
  case (1 i k)
  then show ?case
    by (cases "create_answers k") (auto simp: create_loop.simps [of i k] split: sum.splits)
qed

definition pipe_text :: "bytes option \<Rightarrow> string" where
  "pipe_text path = (case path of None \<Rightarrow> NAMED_PIPE_PREFIX
     | Some p \<Rightarrow> NAMED_PIPE_PREFIX @ ''-'' @ c_string p)"

lemma pipe_snprintf:
  assumes "length name = 256"
  shows "\<exists>b. os_snprintf name 256 t = Some (b, length t)"
  using assms by (auto simp: os_snprintf_def mem_write_def)

lemma pipe_open_eq:
  assumes "length name = 256" and "win_malloc_ok k"
  shows "pipe_ctrl_open path name k =
    (let k1 = k\<lparr>win_blocks := win_blocks k + 1\<rparr>
     in if 256 \<le> length (pipe_text path) then (Ret None, win_free k1)
        else bind_out (create_loop 0 k1)
          (\<lambda>pipe k2. case pipe of
             None \<Rightarrow> (Ret None, win_free k2)
           | Some h \<Rightarrow> (if \<not> setstate_ok k2 then (Ret None, win_free (close_handle h k2))
                       else (Ret (Some h), k2))))"
  using pipe_snprintf [OF assms(1), of "pipe_text path"] assms(2)
  by (auto simp: pipe_ctrl_open_def pipe_text_def pipe_connect_def Let_def)

section \<open>Properties of the pipe connection\<close>

text \<open>
  Opening a pipe always ends once \<^verbatim>\<open>CreateFile\<close> answers, after at most ten attempts; when it
  fails it has closed its handle and freed its block, and closing an opened connection gives both
  back.
\<close>

theorem pipe_open_balanced:
  assumes "length name = 256" and "10 \<le> length (create_answers k)"
  shows "\<exists>r k'. pipe_ctrl_open path name k = (Ret r, k') \<and>
    length (create_answers k) \<le> length (create_answers k') + 10 \<and> waited k' \<le> waited k + 10 \<and>
    (case r of
       None \<Rightarrow> win_handles k' = win_handles k \<and> win_blocks k' = win_blocks k
     | Some h \<Rightarrow> win_handles (pipe_ctrl_close h k') = win_handles k \<and>
         win_blocks (pipe_ctrl_close h k') = win_blocks k)"
proof (cases "win_malloc_ok k \<and> length (pipe_text path) < 256")
  case False
  then show ?thesis using pipe_open_eq [OF assms(1), of k path]
    by (cases "win_malloc_ok k") (auto simp: pipe_ctrl_open_def win_free_def Let_def)
next
  case True
  let ?k1 = "k\<lparr>win_blocks := win_blocks k + 1\<rparr>"
  obtain p k2 where loop: "create_loop 0 ?k1 = (Ret p, k2)"
    using create_loop_returns [of ?k1 0] assms(2) by auto
  note fr = create_loop_frame [OF loop]
  show ?thesis using pipe_open_eq [OF assms(1), of k path] True loop fr
    by (cases p) (auto simp: win_free_def close_handle_def pipe_ctrl_close_def Let_def)
qed

text \<open>
  The build for wide characters opens the same pipes, with the same effects, as long as every character of the
  path becomes one wide character; a path that cannot be converted is refused, and the block freed.
\<close>

theorem pipe_open_unicode_same:
  assumes "length name = 256" and "length wname = 256"
    and "\<And>t. widen t = Some (map w t)"
  shows "pipe_ctrl_open_unicode widen path wname k = pipe_ctrl_open path name k"
proof (cases "win_malloc_ok k")
  case True
  let ?k1 = "k\<lparr>win_blocks := win_blocks k + 1\<rparr>"
  have narrow: "pipe_ctrl_open path name k = pipe_connect (int (length (pipe_text path))) ?k1"
    using pipe_snprintf [OF assms(1), of "pipe_text path"] True
    by (auto simp: pipe_ctrl_open_def pipe_text_def Let_def)
  obtain t where t: "length t = length (pipe_text path)"
    "pipe_ctrl_open_unicode widen path wname k =
      (case snwprintf wname 256 (Some t) of None \<Rightarrow> (Fault, ?k1) | Some (_, ret) \<Rightarrow> pipe_connect ret ?k1)"
  proof (cases path)
    case None
    then show thesis using True
      by (intro that [of "wide NAMED_PIPE_PREFIX"]) (simp_all add: pipe_ctrl_open_unicode_def pipe_text_def wide_def Let_def cong: option.case_cong)
  next
    case (Some p)
    then show thesis using True assms(3)
      by (intro that [of "wide (NAMED_PIPE_PREFIX @ ''-'') @ map w (c_string p)"]) (simp_all add: pipe_ctrl_open_unicode_def pipe_text_def wide_def Let_def cong: option.case_cong)
  qed
  have "\<exists>b. snwprintf wname 256 (Some t) = Some (b, if length t \<le> 256 then int (length t) else -1)"
    using assms(2) by (auto simp: snwprintf_def mem_write_def)
  then show ?thesis using t narrow by (auto simp: pipe_connect_def)
qed (simp add: pipe_ctrl_open_def pipe_ctrl_open_unicode_def)

theorem pipe_open_unicode_unconvertible:
  assumes "win_malloc_ok k" and "widen (c_string p) = None"
  shows "pipe_ctrl_open_unicode widen (Some p) wname k = (Ret None, k)"
  using assms by (simp add: pipe_ctrl_open_unicode_def snwprintf_def pipe_connect_def win_free_def Let_def)

definition busy_win :: win where
  "busy_win = \<lparr>win_malloc_ok = True, win_blocks = 0, win_handles = [],
     create_answers = replicate 9 (Inl ERROR_PIPE_BUSY) @ [Inr 7], waited = 0, setstate_ok = True,
     write_answers = [True], read_file_answers = [Some ''<2>EV''], peek_answers = [], pipe_sent = []\<rparr>"

theorem pipe_open_balanced_witness:
  "\<exists>r k'. pipe_ctrl_open None (replicate 256 NUL) busy_win = (Ret r, k') \<and> waited k' \<le> 10"
  using pipe_open_balanced [of "replicate 256 NUL" busy_win None] by (auto simp: busy_win_def)

text \<open>
  A server that is busy for less than ten attempts is waited for: the connection is opened with
  the handle that comes next, after one second of waiting for each busy answer; ten busy answers
  make it give up.
\<close>

theorem pipe_open_waits_for_server:
  assumes "length name = 256" and "win_malloc_ok k" and "setstate_ok k"
    and "length (pipe_text path) < 256"
    and "create_answers k = replicate n (Inl ERROR_PIPE_BUSY) @ Inr h # r"
  shows "fst (pipe_ctrl_open path name k) = Ret (if n < 10 then Some h else None)"
proof (cases "n < 10")
  case True
  let ?k1 = "k\<lparr>win_blocks := win_blocks k + 1\<rparr>"
  have ca: "create_answers ?k1 = replicate n (Inl ERROR_PIPE_BUSY) @ Inr h # r" using assms(5) by simp
  show ?thesis using pipe_open_eq [OF assms(1,2), of path] create_loop_busy [OF ca, of 0] True assms(3,4)
    by (simp add: Let_def)
next
  case False
  then obtain m where n: "n = 10 + m" by (metis add.commute le_Suc_ex not_less)
  have gen: "create_answers k1 = replicate (10 - i + m) (Inl ERROR_PIPE_BUSY) @ Inr h # r \<Longrightarrow> i \<le> 10 \<Longrightarrow>
      fst (create_loop i k1) = Ret None" for i k1
  proof (induction "10 - i" arbitrary: i k1)
    case 0
    then show ?case by (simp add: create_loop.simps)
  next
    case (Suc j)
    then have "10 - i + m = Suc (10 - Suc i + m)" "i < 10" by auto
    then show ?case using Suc.hyps(1) [of "Suc i" "k1\<lparr>create_answers := replicate (10 - Suc i + m)
        (Inl ERROR_PIPE_BUSY) @ Inr h # r, waited := waited k1 + 1\<rparr>"] Suc.hyps(2) Suc.prems
      by (simp add: create_loop.simps [of i k1])
  qed
  let ?k1 = "k\<lparr>win_blocks := win_blocks k + 1\<rparr>"
  have "fst (create_loop 0 ?k1) = Ret None" by (rule gen) (use assms(5) n in simp_all)
  then obtain k2 where "create_loop 0 ?k1 = (Ret None, k2)" by (cases "create_loop 0 ?k1") simp
  then show ?thesis using pipe_open_eq [OF assms(1,2), of path] False assms(4) by (simp add: Let_def)
qed

theorem pipe_open_waits_for_server_witness:
  "fst (pipe_ctrl_open None (replicate 256 NUL) busy_win) = Ret (Some 7)"
  using pipe_open_waits_for_server [of "replicate 256 NUL" busy_win None 9 7 "[]"]
  by (simp add: busy_win_def pipe_text_def NAMED_PIPE_PREFIX_def)



end
