(* ===== verification/Wpabuf.thy ===== *)
theory Wpabuf
  imports Prelude Bytes
begin

text \<open>
  The growable byte buffers of \<^verbatim>\<open>src/src/wpa_ctrl/wpabuf.h\<close>: the structure and its inline
  functions. \<^verbatim>\<open>wpabuf_put\<close>, which reserves room at the end of a buffer, is only declared there; it is
  the argument \<open>put\<close> of the functions that call it, and what its users rely on is the hypothesis
  \<open>reserves put\<close>.
\<close>

section \<open>The structure\<close>

text \<open>\<open>wb_buf\<close> is the memory \<^verbatim>\<open>buf\<close> points to.\<close>

record wpabuf =
  wb_size :: size_t
  wb_used :: size_t
  wb_buf :: "u8 list"
  wb_flags :: u32

definition WPABUF_FLAG_EXT_DATA :: u32 where
  "WPABUF_FLAG_EXT_DATA = BIT 0"

definition wpabuf_size :: "wpabuf \<Rightarrow> size_t" where
  "wpabuf_size buf = wb_size buf"

definition wpabuf_len :: "wpabuf \<Rightarrow> size_t" where
  "wpabuf_len buf = wb_used buf"

definition wpabuf_tailroom :: "wpabuf \<Rightarrow> size_t" where
  "wpabuf_tailroom buf = wb_size buf - wb_used buf"

definition wpabuf_head :: "wpabuf \<Rightarrow> u8 list" where
  "wpabuf_head buf = wb_buf buf"

text \<open>The pointer to the same memory, as bytes and for writing.\<close>

definition wpabuf_head_u8 :: "wpabuf \<Rightarrow> u8 list" where
  "wpabuf_head_u8 buf = wpabuf_head buf"

definition wpabuf_mhead :: "wpabuf \<Rightarrow> u8 list" where
  "wpabuf_mhead buf = wb_buf buf"

definition wpabuf_mhead_u8 :: "wpabuf \<Rightarrow> u8 list" where
  "wpabuf_mhead_u8 buf = wpabuf_mhead buf"

section \<open>Dumping\<close>

text \<open>
  The levels of \<^verbatim>\<open>wpa_debug.h\<close>, and its functions that dump a buffer; what prints the bytes is only
  declared there and an argument, for a pointer that may be null and a length.
\<close>

datatype msg_level = MSG_EXCESSIVE | MSG_MSGDUMP | MSG_DEBUG | MSG_INFO | MSG_WARNING | MSG_ERROR

type_synonym 'r hexdump = "msg_level \<Rightarrow> string \<Rightarrow> u8 list option \<Rightarrow> size_t \<Rightarrow> 'r"

definition wpa_hexdump_buf :: "'r hexdump \<Rightarrow> msg_level \<Rightarrow> string \<Rightarrow> wpabuf option \<Rightarrow> 'r" where
  "wpa_hexdump_buf wpa_hexdump level title buf =
     wpa_hexdump level title (map_option wpabuf_head buf)
       (case buf of None \<Rightarrow> 0 | Some b \<Rightarrow> wpabuf_len b)"

definition wpa_hexdump_buf_key :: "'r hexdump \<Rightarrow> msg_level \<Rightarrow> string \<Rightarrow> wpabuf option \<Rightarrow> 'r" where
  "wpa_hexdump_buf_key wpa_hexdump_key level title buf =
     wpa_hexdump_key level title (map_option wpabuf_head buf)
       (case buf of None \<Rightarrow> 0 | Some b \<Rightarrow> wpabuf_len b)"

section \<open>Appending\<close>

text \<open>
  \<open>put buf len\<close> is the offset of the pointer \<^verbatim>\<open>wpabuf_put\<close> returns and the buffer after it; it may
  also end the process.
\<close>

type_synonym wpabuf_put = "wpabuf \<Rightarrow> size_t \<Rightarrow> (nat \<times> wpabuf) outcome"

text \<open>A write through the pointer by a function on the memory from there on.\<close>

definition put_with ::
  "wpabuf_put \<Rightarrow> size_t \<Rightarrow> (u8 list \<Rightarrow> u8 list option) \<Rightarrow> wpabuf \<Rightarrow> wpabuf outcome" where
  "put_with put len store buf =
     (case put buf len of
        Ret (pos, buf1) \<Rightarrow>
          (case store (drop pos (wb_buf buf1)) of
             None \<Rightarrow> Fault
           | Some m \<Rightarrow> Ret (buf1\<lparr>wb_buf := take pos (wb_buf buf1) @ m\<rparr>))
      | Exit c m \<Rightarrow> Exit c m
      | Blocked \<Rightarrow> Blocked
      | Fault \<Rightarrow> Fault)"

definition wpabuf_put_u8 :: "wpabuf_put \<Rightarrow> wpabuf \<Rightarrow> u8 \<Rightarrow> wpabuf outcome" where
  "wpabuf_put_u8 put buf data = put_with put 1 (mem_write 0 [data]) buf"

definition wpabuf_put_le16 :: "wpabuf_put \<Rightarrow> wpabuf \<Rightarrow> u16 \<Rightarrow> wpabuf outcome" where
  "wpabuf_put_le16 put buf data = put_with put 2 (\<lambda>pos. WPA_PUT_LE16 pos data) buf"

definition wpabuf_put_le32 :: "wpabuf_put \<Rightarrow> wpabuf \<Rightarrow> u32 \<Rightarrow> wpabuf outcome" where
  "wpabuf_put_le32 put buf data = put_with put 4 (\<lambda>pos. WPA_PUT_LE32 pos data) buf"

definition wpabuf_put_be16 :: "wpabuf_put \<Rightarrow> wpabuf \<Rightarrow> u16 \<Rightarrow> wpabuf outcome" where
  "wpabuf_put_be16 put buf data = put_with put 2 (\<lambda>pos. WPA_PUT_BE16 pos data) buf"

definition wpabuf_put_be24 :: "wpabuf_put \<Rightarrow> wpabuf \<Rightarrow> u32 \<Rightarrow> wpabuf outcome" where
  "wpabuf_put_be24 put buf data = put_with put 3 (\<lambda>pos. WPA_PUT_BE24 pos data) buf"

definition wpabuf_put_be32 :: "wpabuf_put \<Rightarrow> wpabuf \<Rightarrow> u32 \<Rightarrow> wpabuf outcome" where
  "wpabuf_put_be32 put buf data = put_with put 4 (\<lambda>pos. WPA_PUT_BE32 pos data) buf"

text \<open>\<open>data\<close> is the memory behind the pointer, \<open>None\<close> the null pointer.\<close>

definition wpabuf_put_data ::
  "wpabuf_put \<Rightarrow> wpabuf \<Rightarrow> u8 list option \<Rightarrow> size_t \<Rightarrow> wpabuf outcome" where
  "wpabuf_put_data put buf data len =
     (case data of
        None \<Rightarrow> Ret buf
      | Some m \<Rightarrow>
          put_with put len
            (\<lambda>pos. case mem_read 0 (unat len) m of None \<Rightarrow> None | Some b \<Rightarrow> mem_write 0 b pos) buf)"

definition wpabuf_put_buf :: "wpabuf_put \<Rightarrow> wpabuf \<Rightarrow> wpabuf \<Rightarrow> wpabuf outcome" where
  "wpabuf_put_buf put dst src = wpabuf_put_data put dst (Some (wpabuf_head src)) (wpabuf_len src)"

definition wpabuf_set :: "wpabuf \<Rightarrow> u8 list \<Rightarrow> size_t \<Rightarrow> wpabuf" where
  "wpabuf_set buf data len =
     buf\<lparr>wb_buf := data, wb_flags := WPABUF_FLAG_EXT_DATA, wb_used := len, wb_size := len\<rparr>"

definition byte_of :: "char \<Rightarrow> u8" where
  "byte_of c = of_nat (of_char c)"

definition wpabuf_put_str :: "wpabuf_put \<Rightarrow> wpabuf \<Rightarrow> bytes \<Rightarrow> wpabuf outcome" where
  "wpabuf_put_str put dst str =
     (case c_strlen str of
        None \<Rightarrow> Fault
      | Some n \<Rightarrow> wpabuf_put_data put dst (Some (map byte_of str)) (of_nat n))"

section \<open>What a buffer holds\<close>

definition wpabuf_ok :: "wpabuf \<Rightarrow> bool" where
  "wpabuf_ok b \<longleftrightarrow> wb_used b \<le> wb_size b \<and> unat (wb_size b) \<le> length (wb_buf b)"

definition contents :: "wpabuf \<Rightarrow> u8 list" where
  "contents b = take (unat (wb_used b)) (wb_buf b)"

text \<open>A dump is given exactly what the buffer holds, and for a null pointer no byte.\<close>

definition read_all :: "u8 list option hexdump" where
  "read_all level title p len = (case p of None \<Rightarrow> (if len = 0 then Some [] else None) | Some m \<Rightarrow> mem_read 0 (unat len) m)"

lemma hexdump_buf_contents:
  assumes "case buf of None \<Rightarrow> True | Some b \<Rightarrow> wpabuf_ok b"
  shows "wpa_hexdump_buf read_all l t buf = Some (case buf of None \<Rightarrow> [] | Some b \<Rightarrow> contents b)"
    and "wpa_hexdump_buf_key read_all l t buf = Some (case buf of None \<Rightarrow> [] | Some b \<Rightarrow> contents b)"
  using assms
  by (auto simp: wpa_hexdump_buf_def wpa_hexdump_buf_key_def read_all_def wpabuf_head_def wpabuf_len_def
      contents_def wpabuf_ok_def mem_read_def word_le_nat_alt split: option.splits)

text \<open>
  What \<^verbatim>\<open>wpabuf_put\<close> is documented to do: where there is room it returns the end of the data and moves
  the end behind the new bytes, without touching the memory.
\<close>

definition reserves :: "wpabuf_put \<Rightarrow> bool" where
  "reserves put \<longleftrightarrow>
     (\<forall>b len. wpabuf_ok b \<and> len \<le> wpabuf_tailroom b \<longrightarrow>
        put b len = Ret (unat (wb_used b), b\<lparr>wb_used := wb_used b + len\<rparr>))"

text \<open>One for the witnesses: it ends the process when there is no room.\<close>

definition sample_put :: wpabuf_put where
  "sample_put b len =
     (if len \<le> wb_size b - wb_used b then Ret (unat (wb_used b), b\<lparr>wb_used := wb_used b + len\<rparr>)
      else Exit 134 ''wpabuf overflow'')"

lemma sample_put_reserves: "reserves sample_put"
  by (simp add: reserves_def sample_put_def wpabuf_tailroom_def)

text \<open>Writing \<open>bs\<close> through the pointer appends them.\<close>

lemma put_with_appends:
  assumes put: "reserves put" and ok: "wpabuf_ok b" and room: "len \<le> wpabuf_tailroom b"
    and st: "\<And>m. length bs \<le> length m \<Longrightarrow> store m = mem_write 0 bs m" and bs: "length bs = unat len"
  shows "\<exists>b'. put_with put len store b = Ret b' \<and> wpabuf_ok b' \<and> contents b' = contents b @ bs \<and>
    wb_size b' = wb_size b \<and> wpabuf_tailroom b' = wpabuf_tailroom b - len"
proof -
  let ?u = "unat (wb_used b)"
  have le: "wb_used b \<le> wb_size b" "unat (wb_size b) \<le> length (wb_buf b)" using ok by (simp_all add: wpabuf_ok_def)
  have sz: "?u + unat len \<le> unat (wb_size b)"
    using room le(1) by (simp add: wpabuf_tailroom_def word_le_nat_alt unat_sub)
  have "unat (wb_size b) < 2 ^ LENGTH(64)" by (rule unsigned_less)
  then have un: "unat (wb_used b + len) = ?u + unat len" using sz by (simp add: unat_word_ariths)
  let ?b = "b\<lparr>wb_used := wb_used b + len\<rparr>"
  let ?m = "bs @ drop (length bs) (drop ?u (wb_buf b))"
  have p: "put b len = Ret (?u, ?b)" using put ok room by (simp add: reserves_def)
  have "store (drop ?u (wb_buf b)) = Some ?m" using st [of "drop ?u (wb_buf b)"] sz le bs
    by (simp add: mem_write_def)
  then have "put_with put len store b = Ret (?b\<lparr>wb_buf := take ?u (wb_buf b) @ ?m\<rparr>)"
    by (simp add: put_with_def p)
  moreover have "wpabuf_ok (?b\<lparr>wb_buf := take ?u (wb_buf b) @ ?m\<rparr>)"
    using sz le un bs by (simp add: wpabuf_ok_def word_le_nat_alt)
  moreover have "contents (?b\<lparr>wb_buf := take ?u (wb_buf b) @ ?m\<rparr>) = contents b @ bs"
    using sz le un bs by (simp add: contents_def)
  ultimately show ?thesis by (simp add: wpabuf_tailroom_def)
qed

context word_codec
begin

lemma appends_word:
  assumes "reserves p" and "wpabuf_ok b" and "len \<le> wpabuf_tailroom b" and "unat len = width"
  shows "\<exists>b' bs. put_with p len (\<lambda>pos. put pos v) b = Ret b' \<and> wpabuf_ok b' \<and>
    contents b' = contents b @ bs \<and> get bs = Some (canon v) \<and> length bs = width \<and>
    wpabuf_tailroom b' = wpabuf_tailroom b - len"
proof -
  have st: "put m v = mem_write 0 (enc v) m" for m by (rule put_eq)
  have "length (enc v) = unat len" using length_enc assms(4) by simp
  from put_with_appends [OF assms(1-3) st this] obtain b' where
    "put_with p len (\<lambda>pos. put pos v) b = Ret b'" "wpabuf_ok b'" "contents b' = contents b @ enc v"
    "wpabuf_tailroom b' = wpabuf_tailroom b - len" by blast
  then show ?thesis using get_enc [of v "[]"] length_enc [of v] by (intro exI [of _ b'] exI [of _ "enc v"]) simp
qed

end

section \<open>Properties of the buffers\<close>

text \<open>
  C37: where there is room, each of the writers appends exactly its bytes to what the buffer holds, from
  which the matching accessor reads the value back, keeps the buffer well formed and takes that much
  of the room left.
\<close>

theorem wpabuf_put_appends:
  assumes put: "reserves put" and ok: "wpabuf_ok b" and room: "4 \<le> wpabuf_tailroom b"
  shows "\<exists>b1 b2 b3 b4 b5 b6 e2 e3 e4 e5 e6.
    wpabuf_put_u8 put b x = Ret b1 \<and> wpabuf_ok b1 \<and> contents b1 = contents b @ [x] \<and>
    wpabuf_put_le16 put b v = Ret b2 \<and> wpabuf_ok b2 \<and> contents b2 = contents b @ e2 \<and> WPA_GET_LE16 e2 = Some v \<and>
    wpabuf_put_be16 put b v = Ret b3 \<and> wpabuf_ok b3 \<and> contents b3 = contents b @ e3 \<and> WPA_GET_BE16 e3 = Some v \<and>
    wpabuf_put_be24 put b w = Ret b4 \<and> wpabuf_ok b4 \<and> contents b4 = contents b @ e4 \<and> WPA_GET_BE24 e4 = Some (take_bit 24 w) \<and>
    wpabuf_put_le32 put b w = Ret b5 \<and> wpabuf_ok b5 \<and> contents b5 = contents b @ e5 \<and> WPA_GET_LE32 e5 = Some w \<and>
    wpabuf_put_be32 put b w = Ret b6 \<and> wpabuf_ok b6 \<and> contents b6 = contents b @ e6 \<and> WPA_GET_BE32 e6 = Some w \<and>
    [length e2, length e3, length e4, length e5, length e6] = [2, 2, 3, 4, 4] \<and>
    wpabuf_tailroom b6 = wpabuf_tailroom b - 4"
proof -
  have room': "1 \<le> wpabuf_tailroom b" "2 \<le> wpabuf_tailroom b" "3 \<le> wpabuf_tailroom b"
    using room by (auto intro: order.trans [rotated])
  from put_with_appends [OF put ok room'(1), of "[x]" "mem_write 0 [x]"] obtain b1 where
    1: "wpabuf_put_u8 put b x = Ret b1" "wpabuf_ok b1" "contents b1 = contents b @ [x]"
    by (auto simp: wpabuf_put_u8_def)
  have 2: "\<exists>b2 e. wpabuf_put_le16 put b v = Ret b2 \<and> wpabuf_ok b2 \<and> contents b2 = contents b @ e \<and>
      WPA_GET_LE16 e = Some v \<and> length e = 2"
    using le16.appends_word [OF put ok room'(2), of v] by (auto simp: wpabuf_put_le16_def)
  have 3: "\<exists>b2 e. wpabuf_put_be16 put b v = Ret b2 \<and> wpabuf_ok b2 \<and> contents b2 = contents b @ e \<and>
      WPA_GET_BE16 e = Some v \<and> length e = 2"
    using be16.appends_word [OF put ok room'(2), of v] by (auto simp: wpabuf_put_be16_def)
  have 4: "\<exists>b2 e. wpabuf_put_be24 put b w = Ret b2 \<and> wpabuf_ok b2 \<and> contents b2 = contents b @ e \<and>
      WPA_GET_BE24 e = Some (take_bit 24 w) \<and> length e = 3"
    using be24.appends_word [OF put ok room'(3), of w] by (auto simp: wpabuf_put_be24_def)
  have 5: "\<exists>b2 e. wpabuf_put_le32 put b w = Ret b2 \<and> wpabuf_ok b2 \<and> contents b2 = contents b @ e \<and>
      WPA_GET_LE32 e = Some w \<and> length e = 4"
    using le32.appends_word [OF put ok room, of w] by (auto simp: wpabuf_put_le32_def)
  have 6: "\<exists>b2 e. wpabuf_put_be32 put b w = Ret b2 \<and> wpabuf_ok b2 \<and> contents b2 = contents b @ e \<and>
      WPA_GET_BE32 e = Some w \<and> length e = 4 \<and> wpabuf_tailroom b2 = wpabuf_tailroom b - 4"
    using be32.appends_word [OF put ok room, of w] by (auto simp: wpabuf_put_be32_def)
  show ?thesis using 1 2 3 4 5 6 by (elim exE conjE) (intro exI conjI, assumption+, simp+)
qed

definition sample_buf :: wpabuf where
  "sample_buf = \<lparr>wb_size = 8, wb_used = 1, wb_buf = [7, 0, 0, 0, 0, 0, 0, 0], wb_flags = 0\<rparr>"

lemma sample_buf_ok: "wpabuf_ok sample_buf" "wpabuf_tailroom sample_buf = 7"
  by (simp_all add: wpabuf_ok_def sample_buf_def wpabuf_tailroom_def)

theorem wpabuf_put_appends_witness:
  "\<exists>b e. wpabuf_put_be16 sample_put sample_buf 258 = Ret b \<and> contents b = 7 # e \<and>
     WPA_GET_BE16 e = Some 258"
  using wpabuf_put_appends [OF sample_put_reserves sample_buf_ok(1), of 0 258 0] sample_buf_ok(2)
  by (auto simp: contents_def sample_buf_def)

lemma wpabuf_put_data_appends:
  assumes put: "reserves put" and ok: "wpabuf_ok b" and room: "len \<le> wpabuf_tailroom b"
    and d: "unat len \<le> length d"
  shows "\<exists>b'. wpabuf_put_data put b (Some d) len = Ret b' \<and> wpabuf_ok b' \<and>
    contents b' = contents b @ take (unat len) d \<and> wpabuf_tailroom b' = wpabuf_tailroom b - len"
proof -
  have "mem_read 0 (unat len) d = Some (take (unat len) d)" using d by (simp add: mem_read_def)
  moreover have "length (take (unat len) d) = unat len" using d by simp
  ultimately show ?thesis
    using put_with_appends [OF put ok room, of "take (unat len) d" "mem_write 0 (take (unat len) d)"]
    by (auto simp: wpabuf_put_data_def)
qed

text \<open>
  \<^verbatim>\<open>wpabuf_put_data\<close> appends the given bytes and nothing for a null pointer, \<^verbatim>\<open>wpabuf_put_str\<close> the
  bytes of the string without its terminator, and \<^verbatim>\<open>wpabuf_put_buf\<close> what the other buffer holds,
  in particular when that buffer was made by \<^verbatim>\<open>wpabuf_set\<close> on outside data.
\<close>

theorem wpabuf_put_data_str_buf:
  assumes put: "reserves put" and ok: "wpabuf_ok b"
    and src: "wpabuf_ok src" and srcroom: "wpabuf_len src \<le> wpabuf_tailroom b"
    and str: "NUL \<notin> set str" and strroom: "of_nat (length str) \<le> wpabuf_tailroom b" "length str < 2 ^ 64"
    and data: "unat len = length data" and dataroom: "len \<le> wpabuf_tailroom b"
  shows "(\<exists>b'. wpabuf_put_data put b (Some data) len = Ret b' \<and> wpabuf_ok b' \<and>
      contents b' = contents b @ data) \<and>
    wpabuf_put_data put b None len = Ret b \<and>
    (\<exists>b'. wpabuf_put_str put b (str @ NUL # rest) = Ret b' \<and> wpabuf_ok b' \<and>
      contents b' = contents b @ map byte_of str) \<and>
    (\<exists>b'. wpabuf_put_buf put b src = Ret b' \<and> wpabuf_ok b' \<and> contents b' = contents b @ contents src) \<and>
    (\<exists>b'. wpabuf_put_buf put b (wpabuf_set src data len) = Ret b' \<and> contents b' = contents b @ data)"
proof (intro conjI)
  show "\<exists>b'. wpabuf_put_data put b (Some data) len = Ret b' \<and> wpabuf_ok b' \<and> contents b' = contents b @ data"
    using wpabuf_put_data_appends [OF put ok dataroom, of data] data by auto
  show "wpabuf_put_data put b None len = Ret b" by (simp add: wpabuf_put_data_def)
  have "unat (of_nat (length str) :: size_t) = length str" using strroom(2) by (simp add: unat_of_nat)
  then show "\<exists>b'. wpabuf_put_str put b (str @ NUL # rest) = Ret b' \<and> wpabuf_ok b' \<and>
      contents b' = contents b @ map byte_of str"
    using wpabuf_put_data_appends [OF put ok strroom(1), of "map byte_of (str @ NUL # rest)"] str
    by (auto simp: wpabuf_put_str_def)
  have "unat (wpabuf_len src) \<le> length (wb_buf src)"
    using src by (simp add: wpabuf_ok_def wpabuf_len_def word_le_nat_alt)
  then show "\<exists>b'. wpabuf_put_buf put b src = Ret b' \<and> wpabuf_ok b' \<and>
      contents b' = contents b @ contents src"
    using wpabuf_put_data_appends [OF put ok srcroom]
    by (auto simp: wpabuf_put_buf_def wpabuf_head_def contents_def wpabuf_len_def)
  show "\<exists>b'. wpabuf_put_buf put b (wpabuf_set src data len) = Ret b' \<and> contents b' = contents b @ data"
    using wpabuf_put_data_appends [OF put ok dataroom, of data] data
    by (auto simp: wpabuf_put_buf_def wpabuf_set_def wpabuf_head_def wpabuf_len_def)
qed

theorem wpabuf_put_data_str_buf_witness:
  "\<exists>b. wpabuf_put_str sample_put sample_buf (''AB'' @ NUL # []) = Ret b \<and>
     contents b = [7, byte_of CHR ''A'', byte_of CHR ''B'']"
proof -
  have r: "wpabuf_len sample_buf \<le> wpabuf_tailroom sample_buf" "NUL \<notin> set ''AB''"
    "(of_nat (length ''AB'') :: size_t) \<le> wpabuf_tailroom sample_buf" "length ''AB'' < 2 ^ 64"
    "unat (1 :: size_t) = length [9 :: u8]" "1 \<le> wpabuf_tailroom sample_buf"
    using sample_buf_ok(2) by (simp_all add: wpabuf_len_def sample_buf_def)
  from wpabuf_put_data_str_buf [OF sample_put_reserves sample_buf_ok(1,1) r, of "[]"] show ?thesis
    by (auto simp: contents_def sample_buf_def)
qed

end
