(* ===== verification/Port.thy ===== *)
theory Port
  imports Ctrl_Socket
begin

text \<open>
  The port program \<^verbatim>\<open>src/src/wpa_ex.c\<close>: it relays length-prefixed packets between the Erlang
  side on its standard streams and the daemon's control socket. The state is the program's
  static buffers, the socket of \<open>Ctrl_Socket\<close> and the two standard streams, again given by
  the answers of the kernel to successive calls. \<^verbatim>\<open>err\<close> and \<^verbatim>\<open>errx\<close> end the process with
  status 1 (\<^verbatim>\<open>EXIT_FAILURE\<close>) and their message.
\<close>

unbundle bit_operations_syntax

section \<open>State\<close>

definition BUFFER_SIZE :: nat where
  "BUFFER_SIZE = 2048"

text \<open>
  An answer to \<^verbatim>\<open>writev\<close> is an error or the number of bytes the pipe takes; an answer to
  \<^verbatim>\<open>read\<close> is an error or the bytes waiting in the pipe (none at the end of the stream), of
  which the call takes as many as it asked for, the rest staying for the next call.
\<close>

datatype write_answer = WriteError errno | WriteAmount nat

datatype read_answer = ReadError errno | ReadData bytes

record out =
  writev_answers :: "write_answer list"
  written :: bytes

record port =
  erl_buffer_ix :: nat
  erl_buffer :: bytes
  wpa_buffer :: bytes
  psock :: sock
  stdin_answers :: "read_answer list"
  stdout :: out

section \<open>Packets\<close>

text \<open>The two bytes that \<^verbatim>\<open>htons(len)\<close> occupies in memory; \<^verbatim>\<open>uint16_t\<close> keeps 16 bits.\<close>

definition htons_bytes :: "nat \<Rightarrow> bytes" where
  "htons_bytes len =
     (let w = (of_nat len :: u16) in [char_of (unat (drop_bit 8 w)), char_of (unat (w AND 0xff))])"

text \<open>\<^verbatim>\<open>ntohs\<close> of two bytes in memory.\<close>

definition ntohs_bytes :: "char \<Rightarrow> char \<Rightarrow> nat" where
  "ntohs_bytes hi lo = 256 * of_char hi + of_char lo"

function send_to_erl :: "bytes \<Rightarrow> nat \<Rightarrow> out \<Rightarrow> unit outcome \<times> out" where
  "send_to_erl msg len s =
     (case mem_read 0 len msg of
        None \<Rightarrow> (Fault, s)
      | Some body \<Rightarrow>
          (case writev_answers s of
             [] \<Rightarrow> (Blocked, s)
           | WriteError e # r \<Rightarrow>
               (if e = EINTR then send_to_erl msg len (s\<lparr>writev_answers := r\<rparr>)
                else (Exit 1 ''writev'', s\<lparr>writev_answers := r\<rparr>))
           | WriteAmount k # r \<Rightarrow>
               (let amount_written = min k (len + 2);
                    s1 = s\<lparr>writev_answers := r,
                           written := written s @ take amount_written (htons_bytes len @ body)\<rparr>
                in if amount_written \<noteq> len + 2 then (Exit 1 ''not enough bytes written'', s1)
                   else (Ret (), s1))))"
  by pat_completeness auto
termination
  by (relation "measure (\<lambda>(msg, len, s). length (writev_answers s))") auto

declare send_to_erl.simps [simp del]

section \<open>Requests from Erlang\<close>

text \<open>\<open>cmd\<close> is the memory from the command's first byte on.\<close>

definition do_wpa_request :: "bytes \<Rightarrow> nat \<Rightarrow> port \<Rightarrow> unit outcome \<times> port" where
  "do_wpa_request cmd len p =
     (case wpa_ctrl_request (Some send_to_erl) cmd len (wpa_buffer p) BUFFER_SIZE (psock p) (stdout p) of
        (Ret (ret, buf, reply_len), s1, o1) \<Rightarrow>
          (let p1 = p\<lparr>wpa_buffer := buf, psock := s1, stdout := o1\<rparr>
           in if ret < 0 then (Exit 1 ''wpa_ctrl_request'', p1)
              else (case send_to_erl buf reply_len o1 of (r, o2) \<Rightarrow> (r, p1\<lparr>stdout := o2\<rparr>)))
      | (Exit c m, s1, o1) \<Rightarrow> (Exit c m, p\<lparr>psock := s1, stdout := o1\<rparr>)
      | (Blocked, s1, o1) \<Rightarrow> (Blocked, p\<lparr>psock := s1, stdout := o1\<rparr>)
      | (Fault, s1, o1) \<Rightarrow> (Fault, p\<lparr>psock := s1, stdout := o1\<rparr>))"

definition try_dispatch :: "port \<Rightarrow> nat outcome \<times> port" where
  "try_dispatch p =
     (if erl_buffer_ix p < 2 then (Ret 0, p)
      else
        (case mem_read 0 2 (erl_buffer p) of
           Some [hi, lo] \<Rightarrow>
             (let msglen = ntohs_bytes hi lo
              in if msglen + 2 > BUFFER_SIZE then (Exit 1 ''Message too long'', p)
                 else if msglen + 2 > erl_buffer_ix p then (Ret 0, p)
                 else bind_out (do_wpa_request (drop 2 (erl_buffer p)) msglen p)
                        (\<lambda>_ p1. (Ret (msglen + 2), p1)))
         | _ \<Rightarrow> (Fault, p)))"

lemma do_wpa_request_keeps:
  assumes "do_wpa_request cmd len p = (out, p')"
  shows "erl_buffer_ix p' = erl_buffer_ix p" and "erl_buffer p' = erl_buffer p"
    and "stdin_answers p' = stdin_answers p"
  using assms
  by (auto simp: do_wpa_request_def Let_def split: prod.splits outcome.splits if_splits)

lemma try_dispatch_keeps:
  assumes "try_dispatch p = (out, p')"
  shows "erl_buffer_ix p' = erl_buffer_ix p" and "erl_buffer p' = erl_buffer p"
    and "stdin_answers p' = stdin_answers p"
proof -
  have "p' = p \<or> (\<exists>cmd len out2. do_wpa_request cmd len p = (out2, p'))"
    using assms
    by (auto simp: try_dispatch_def bind_out_def Let_def
        split: if_splits option.splits list.splits prod.splits outcome.splits)
  then show "erl_buffer_ix p' = erl_buffer_ix p" "erl_buffer p' = erl_buffer p"
    "stdin_answers p' = stdin_answers p"
    using do_wpa_request_keeps by auto
qed

text \<open>The loop of \<^verbatim>\<open>process_erl\<close> after the read.\<close>

function dispatch_loop :: "port \<Rightarrow> unit outcome \<times> port" where
  "dispatch_loop p =
     bind_out (try_dispatch p)
       (\<lambda>bytes_processed p1.
          if bytes_processed = 0 then (Ret (), p1)
          else if erl_buffer_ix p1 > bytes_processed then
            (case mem_read bytes_processed (erl_buffer_ix p1 - bytes_processed) (erl_buffer p1) of
               None \<Rightarrow> (Fault, p1)
             | Some tail \<Rightarrow>
                 (case mem_write 0 tail (erl_buffer p1) of
                    None \<Rightarrow> (Fault, p1)
                  | Some b \<Rightarrow>
                      dispatch_loop
                        (p1\<lparr>erl_buffer := b, erl_buffer_ix := erl_buffer_ix p1 - bytes_processed\<rparr>)))
          else (Ret (), p1\<lparr>erl_buffer_ix := 0\<rparr>))"
  by pat_completeness auto
termination
  by (relation "measure erl_buffer_ix") (auto dest: try_dispatch_keeps(1))

declare dispatch_loop.simps [simp del]

definition process_erl :: "port \<Rightarrow> unit outcome \<times> port" where
  "process_erl p =
     (let count = BUFFER_SIZE - erl_buffer_ix p in
      case stdin_answers p of
        [] \<Rightarrow> (Blocked, p)
      | ReadError e # r \<Rightarrow>
          (if e = EINTR then (Ret (), p\<lparr>stdin_answers := r\<rparr>)
           else (Exit 1 ''read'', p\<lparr>stdin_answers := r\<rparr>))
      | ReadData bs # r \<Rightarrow>
          (let got = take count bs;
               rest = (if length bs \<le> count then r else ReadData (drop count bs) # r);
               p1 = p\<lparr>stdin_answers := rest\<rparr>
           in if length got = 0 then (Exit 0 [], p1)
              else (case mem_write (erl_buffer_ix p) got (erl_buffer p) of
                      None \<Rightarrow> (Fault, p1)
                    | Some b \<Rightarrow>
                        dispatch_loop
                          (p1\<lparr>erl_buffer := b, erl_buffer_ix := erl_buffer_ix p + length got\<rparr>))))"

section \<open>Events from the daemon\<close>

function process_wpa :: "port \<Rightarrow> unit outcome \<times> port" where
  "process_wpa p =
     (case wpa_ctrl_pending (psock p) of
        (Ret pending, s1) \<Rightarrow>
          (if \<not> pending then (Ret (), p\<lparr>psock := s1\<rparr>)
           else
             (case wpa_ctrl_recv (wpa_buffer p) BUFFER_SIZE s1 of
                (Ret (ret, buf, reply_len), s2) \<Rightarrow>
                  (if ret < 0 then (Exit 1 ''wpa_ctrl_recv'', p\<lparr>psock := s2\<rparr>)
                   else
                     (case send_to_erl buf reply_len (stdout p) of
                        (Ret _, o1) \<Rightarrow> process_wpa (p\<lparr>wpa_buffer := buf, psock := s2, stdout := o1\<rparr>)
                      | (Exit c m, o1) \<Rightarrow> (Exit c m, p\<lparr>wpa_buffer := buf, psock := s2, stdout := o1\<rparr>)
                      | (Blocked, o1) \<Rightarrow> (Blocked, p\<lparr>wpa_buffer := buf, psock := s2, stdout := o1\<rparr>)
                      | (Fault, o1) \<Rightarrow> (Fault, p\<lparr>wpa_buffer := buf, psock := s2, stdout := o1\<rparr>)))
              | (Exit c m, s2) \<Rightarrow> (Exit c m, p\<lparr>psock := s2\<rparr>)
              | (Blocked, s2) \<Rightarrow> (Blocked, p\<lparr>psock := s2\<rparr>)
              | (Fault, s2) \<Rightarrow> (Fault, p\<lparr>psock := s2\<rparr>)))
      | (Exit c m, s1) \<Rightarrow> (Exit c m, p\<lparr>psock := s1\<rparr>)
      | (Blocked, s1) \<Rightarrow> (Blocked, p\<lparr>psock := s1\<rparr>)
      | (Fault, s1) \<Rightarrow> (Fault, p\<lparr>psock := s1\<rparr>))"
  by pat_completeness auto
termination
  by (relation "measure (\<lambda>p. length (select_answers (psock p)))")
    (auto simp: wpa_ctrl_pending_def wpa_ctrl_recv_def split: list.splits select_answer.splits
      recv_answer.splits option.splits)

declare process_wpa.simps [simp del]

section \<open>Frames\<close>

text \<open>
  The wire format of the Erlang side (\<^verbatim>\<open>{packet, 2}\<close>): a message after its length. \<open>packets\<close>
  splits a stream into the messages that are complete and what is left: the beginning of a
  message, or a length no buffer of the program has room for.
\<close>

definition frame :: "bytes \<Rightarrow> bytes" where
  "frame m = htons_bytes (length m) @ m"

datatype remainder = Partial bytes | TooLong bytes

function packets :: "bytes \<Rightarrow> bytes list \<times> remainder" where
  "packets [] = ([], Partial [])"
| "packets [c] = ([], Partial [c])"
| "packets (hi # lo # r) =
     (let n = ntohs_bytes hi lo
      in if n + 2 > BUFFER_SIZE then ([], TooLong (hi # lo # r))
         else if length r < n then ([], Partial (hi # lo # r))
         else apfst (Cons (take n r)) (packets (drop n r)))"
  by pat_completeness auto
termination
  by (relation "measure length") auto

declare packets.simps(3) [simp del]

lemma ntohs_htons:
  assumes "n < 65536"
  shows "\<exists>hi lo. htons_bytes n = [hi, lo] \<and> ntohs_bytes hi lo = n"
proof -
  have "n div 256 mod 256 = n div 256" using assms by simp
  moreover have "unat (drop_bit 8 (of_nat n :: u16)) = n div 256"
    using assms by (simp add: drop_bit_eq_div unat_div unat_of_nat)
  moreover have "unat ((of_nat n :: u16) AND 0xff) = n mod 256"
  proof -
    have "(of_nat n :: u16) AND 0xff = take_bit 8 (of_nat n)"
      by (simp add: take_bit_eq_mask mask_eq_exp_minus_1)
    then show ?thesis using assms by (simp add: take_bit_eq_mod unat_mod unat_of_nat)
  qed
  ultimately show ?thesis by (simp add: htons_bytes_def ntohs_bytes_def Let_def)
qed

lemma length_frame [simp]: "length (frame m) = length m + 2"
  by (simp add: frame_def htons_bytes_def Let_def)

text \<open>Frames of messages whose length fits in the length field can be told apart in a stream.\<close>

definition short_message :: "bytes \<Rightarrow> bool" where
  "short_message m \<longleftrightarrow> length m < 65536"

interpretation frames: message_code frame short_message
proof
  fix a b s t :: bytes
  assume e: "frame a @ s = frame b @ t" and ab: "short_message a" "short_message b"
  obtain h l where a: "htons_bytes (length a) = [h, l]" "ntohs_bytes h l = length a"
    using ntohs_htons [of "length a"] ab(1) by (auto simp: short_message_def)
  obtain h' l' where b: "htons_bytes (length b) = [h', l']" "ntohs_bytes h' l' = length b"
    using ntohs_htons [of "length b"] ab(2) by (auto simp: short_message_def)
  have "h = h'" "l = l'" "a @ s = b @ t" using e a(1) b(1) by (simp_all add: frame_def)
  then show "a = b \<and> s = t" using a(2) b(2) by simp
qed (simp add: frame_def htons_bytes_def Let_def)

text \<open>What has been split off stays split off when more of the stream arrives.\<close>

lemma packets_append:
  "packets (xs @ ys) =
     (case packets xs of
        (cs, Partial r) \<Rightarrow> apfst ((@) cs) (packets (r @ ys))
      | (cs, TooLong r) \<Rightarrow> (cs, TooLong (r @ ys)))"
proof (induction xs rule: packets.induct)
  case (3 hi lo r)
  let ?n = "ntohs_bytes hi lo"
  show ?case
  proof (cases "?n + 2 > BUFFER_SIZE \<or> length r < ?n")
    case True
    then show ?thesis by (auto simp: packets.simps(3) [of hi lo] Let_def apfst_def map_prod_def)
  next
    case False
    obtain cs t where p: "packets (drop ?n r) = (cs, t)" by (cases "packets (drop ?n r)")
    show ?thesis using 3 False p
      by (cases t) (auto simp: packets.simps(3) [of hi lo] Let_def apfst_def map_prod_def split: prod.splits)
  qed
qed (auto simp: apfst_def map_prod_def split: prod.splits)

lemma packets_frame:
  assumes "length m + 2 \<le> BUFFER_SIZE"
  shows "packets (frame m @ ys) = apfst (Cons m) (packets ys)"
proof -
  have "length m < 65536" using assms by (simp add: BUFFER_SIZE_def)
  from ntohs_htons [OF this] obtain hi lo where
    h: "htons_bytes (length m) = [hi, lo]" "ntohs_bytes hi lo = length m" by blast
  then show ?thesis using assms by (simp add: frame_def packets.simps(3) Let_def)
qed

lemma packets_frames:
  "\<forall>m \<in> set ms. length m + 2 \<le> BUFFER_SIZE \<Longrightarrow>
   packets (concat (map frame ms) @ ys) = apfst ((@) ms) (packets ys)"
  by (induction ms) (auto simp: packets_frame apfst_def map_prod_def split: prod.splits)

text \<open>The remainder is the end of the stream; an incomplete one has no complete message.\<close>

lemma htons_ntohs: "htons_bytes (ntohs_bytes hi lo) = [hi, lo]"
proof -
  have b: "(of_char hi :: nat) < 256" "(of_char lo :: nat) < 256" by simp_all
  then have "ntohs_bytes hi lo < 65536" unfolding ntohs_bytes_def by linarith
  from ntohs_htons [OF this] obtain h l where
    h: "htons_bytes (ntohs_bytes hi lo) = [h, l]" and n: "ntohs_bytes h l = ntohs_bytes hi lo"
    by blast
  have inj: "a = c \<and> b = d" if "256 * a + b = 256 * c + d" "b < 256" "d < 256" for a b c d :: nat
    using that by (cases a c rule: linorder_cases) linarith+
  have "(of_char h :: nat) < 256" "(of_char l :: nat) < 256" by simp_all
  with b n have "(of_char h :: nat) = of_char hi \<and> (of_char l :: nat) = of_char lo"
    unfolding ntohs_bytes_def by (intro inj) simp_all
  then show ?thesis using h by simp
qed

lemma packets_Partial:
  "packets xs = (cs, Partial r) \<Longrightarrow>
   xs = concat (map frame cs) @ r \<and> packets r = ([], Partial r) \<and> length r < BUFFER_SIZE \<and>
   (\<forall>c \<in> set cs. length c + 2 \<le> BUFFER_SIZE)"
proof (induction xs arbitrary: cs rule: packets.induct)
  case (3 hi lo xs)
  let ?n = "ntohs_bytes hi lo"
  show ?case
  proof (cases "?n + 2 > BUFFER_SIZE \<or> length xs < ?n")
    case True
    then show ?thesis using "3.prems"
      by (auto simp: packets.simps(3) [of hi lo] Let_def split: if_splits)
  next
    case False
    then obtain cs' where "packets (drop ?n xs) = (cs', Partial r)" "cs = take ?n xs # cs'"
      using "3.prems" by (auto simp: packets.simps(3) [of hi lo] Let_def apfst_def map_prod_def split: prod.splits)
    note IH = "3.IH" [OF refl _ _ \<open>packets (drop ?n xs) = (cs', Partial r)\<close>]
    have "xs = take ?n xs @ concat (map frame cs') @ r"
      using IH False by (metis append_take_drop_id)
    then show ?thesis using \<open>cs = take ?n xs # cs'\<close> IH False
      by (simp add: frame_def [of "take ?n xs"] htons_ntohs min_absorb2)
  qed
qed (auto simp: BUFFER_SIZE_def)

section \<open>Writing to Erlang\<close>

lemma send_to_erl_take: "k \<le> length b \<Longrightarrow> send_to_erl b k st = send_to_erl (take k b) k st"
proof (induction b k st rule: send_to_erl.induct)
  case (1 b k st)
  then have "mem_read 0 k b = Some (take k b)" "mem_read 0 k (take k b) = Some (take k b)"
    by (simp_all add: mem_read_def)
  then show ?case using 1
    by (auto simp: send_to_erl.simps [of b k st] send_to_erl.simps [of "take k b" k st]
        split: list.splits write_answer.splits)
qed

text \<open>Whatever the pipe answers, what it took is the beginning of one frame.\<close>

lemma send_to_erl_result:
  "k \<le> length b \<Longrightarrow> send_to_erl b k st = (out, st') \<Longrightarrow>
   out \<noteq> Fault \<and>
   (if out = Ret () then written st' = written st @ frame (take k b)
    else \<exists>j. written st' = written st @ take j (frame (take k b)))"
proof (induction b k st arbitrary: out st' rule: send_to_erl.induct)
  case (1 b k st)
  have rd: "mem_read 0 k b = Some (take k b)" and lk: "length (take k b) = k"
    using "1.prems"(1) by (simp_all add: mem_read_def)
  have fr: "htons_bytes k @ take k b = frame (take k b)" using lk by (simp add: frame_def)
  have full: "take (k + 2) (frame (take k b)) = frame (take k b)" using lk by simp
  have stay: "\<exists>j. written st = written st @ take j (frame (take k b))" by (rule exI [of _ 0]) simp
  show ?case
  proof (cases "writev_answers st")
    case Nil
    then show ?thesis using "1.prems" rd stay by (auto simp: send_to_erl.simps [of b k st])
  next
    case (Cons a r)
    show ?thesis
    proof (cases a)
      case (WriteError e)
      then show ?thesis using "1.prems" "1.IH" [OF rd Cons WriteError] rd stay Cons
        by (auto simp: send_to_erl.simps [of b k st] split: if_splits)
    next
      case (WriteAmount j)
      show ?thesis
      proof (cases "min j (k + 2) = k + 2")
        case True
        then show ?thesis using "1.prems" rd Cons WriteAmount fr full
          by (auto simp: send_to_erl.simps [of b k st] Let_def)
      next
        case False
        then show ?thesis using "1.prems" rd Cons WriteAmount fr
          by (auto simp: send_to_erl.simps [of b k st] Let_def split: if_splits)
      qed
    qed
  qed
qed

lemma send_to_erl_ready:
  assumes "k \<le> length b" and "writev_answers st = WriteAmount j # r" and "k + 2 \<le> j"
  shows "send_to_erl b k st =
    (Ret (), st\<lparr>writev_answers := r, written := written st @ frame (take k b)\<rparr>)"
  using assms by (simp add: send_to_erl.simps [of b k st] mem_read_def frame_def htons_bytes_def
      Let_def min_def)

text \<open>The callback the port program passes to \<^verbatim>\<open>wpa_ctrl_request\<close> keeps the contract.\<close>

abbreviation erl_message :: "bytes \<Rightarrow> out \<Rightarrow> unit outcome \<times> out" where
  "erl_message m \<equiv> send_to_erl m (length m)"

interpretation erl_callback: message_callback "Some send_to_erl" erl_message
proof
  show "f b k st = erl_message (take k b) st" if "Some send_to_erl = Some f" "k \<le> length b" for f b k st
    using that send_to_erl_take [of k b st] by simp
qed simp

lemma erl_messages_written:
  "deliver erl_message ms st = (Ret (), st') \<Longrightarrow>
   written st' = written st @ concat (map frame ms)"
proof (induction ms arbitrary: st)
  case (Cons m ms)
  then obtain u st1 where "erl_message m st = (Ret u, st1)" "deliver erl_message ms st1 = (Ret (), st')"
    by (auto simp: bind_out_Ret_iff)
  with Cons.IH send_to_erl_result [of "length m" m st "Ret u" st1] show ?case by simp
qed simp

lemma erl_messages_no_fault: "fst (deliver erl_message ms st) \<noteq> Fault"
proof (induction ms arbitrary: st)
  case (Cons m ms)
  obtain out st1 where "erl_message m st = (out, st1)" by (cases "erl_message m st")
  with Cons.IH send_to_erl_result [of "length m" m st out st1] show ?case
    by (auto simp: bind_out_Fault_iff)
qed simp

section \<open>One request\<close>

lemma do_wpa_request_take:
  "k \<le> length cmd \<Longrightarrow> do_wpa_request cmd k p = do_wpa_request (take k cmd) k p"
  by (simp add: do_wpa_request_def wpa_ctrl_request_def mem_read_def)

text \<open>
  A request that returns: the command went out once, the daemon's unsolicited messages and then
  its reply came in, and each of them, in that order, left as one frame.
\<close>

lemma do_wpa_request_relays:
  assumes req: "do_wpa_request cmd k p = (Ret (), p')" and wb: "length (wpa_buffer p) = BUFFER_SIZE"
  shows "k \<le> length cmd \<and> length (wpa_buffer p') = BUFFER_SIZE \<and>
    sent (psock p') = sent (psock p) @ [take k cmd] \<and>
    (\<exists>ns m. recv_answers (psock p) = map RecvMsg ns @ RecvMsg m # recv_answers (psock p') \<and>
       (\<forall>x \<in> set ns. unsolicited x) \<and> \<not> unsolicited m \<and>
       written (stdout p') = written (stdout p) @
         concat (map frame (map (notice BUFFER_SIZE) ns @ [take BUFFER_SIZE m])))"
proof -
  obtain ret buf len s1 o1 u where
    r: "wpa_ctrl_request (Some send_to_erl) cmd k (wpa_buffer p) BUFFER_SIZE (psock p) (stdout p) =
      (Ret (ret, buf, len), s1, o1)" and ret: "\<not> ret < 0"
    and out: "send_to_erl buf len o1 = (Ret u, stdout p')"
    and p': "psock p' = s1" "wpa_buffer p' = buf"
    using req by (auto simp: do_wpa_request_def Let_def split: prod.splits outcome.splits if_splits)
  have n: "0 < BUFFER_SIZE" "BUFFER_SIZE \<le> length (wpa_buffer p)"
    using wb by (simp_all add: BUFFER_SIZE_def)
  have "ret = 0" using erl_callback.request_codes [OF r n] ret by auto
  note suc = erl_callback.request_success [OF r [unfolded this] n]
  then obtain ns m where ns: "recv_answers (psock p) = map RecvMsg ns @ RecvMsg m # recv_answers s1"
    "\<forall>x \<in> set ns. unsolicited x" "\<not> unsolicited m" "take len buf = take BUFFER_SIZE m"
    "deliver erl_message (map (notice BUFFER_SIZE) ns) (stdout p) = (Ret (), o1)" by blast
  have "written (stdout p') = written o1 @ frame (take BUFFER_SIZE m)"
    using send_to_erl_result [OF _ out] suc wb ns(4) by simp
  then show ?thesis using suc ns p' wb erl_messages_written [OF ns(5)] by auto
qed

section \<open>The commands in the buffer\<close>

definition unread :: "port \<Rightarrow> bytes" where
  "unread p = take (erl_buffer_ix p) (erl_buffer p)"

abbreviation request :: "bytes \<Rightarrow> port \<Rightarrow> unit outcome \<times> port" where
  "request c \<equiv> do_wpa_request c (length c)"

definition relocate :: "bytes \<Rightarrow> nat \<Rightarrow> port \<Rightarrow> port" where
  "relocate b i p = p\<lparr>erl_buffer := b, erl_buffer_ix := i\<rparr>"

lemma relocate_relocate [simp]: "relocate b i (relocate b' i' p) = relocate b i p"
  by (simp add: relocate_def)

lemma relocate_twice [simp]:
  "apsnd (relocate b i) (apsnd (relocate b' i') r) = apsnd (relocate b i) r"
  by (cases r) simp

lemma relocate_same [simp]: "relocate (erl_buffer p) (erl_buffer_ix p) p = p"
  by (simp add: relocate_def)

lemma do_wpa_request_relocate:
  "do_wpa_request c k (relocate b i p) = apsnd (relocate b i) (do_wpa_request c k p)"
  by (auto simp: do_wpa_request_def relocate_def Let_def split: prod.splits outcome.splits)

lemma deliver_relocate:
  "deliver request cs (relocate b i p) = apsnd (relocate b i) (deliver request cs p)"
proof (induction cs arbitrary: p)
  case (Cons c cs)
  obtain out p1 where "request c p = (out, p1)" by (cases "request c p")
  then show ?case using Cons.IH [of p1] by (cases out) (simp_all add: do_wpa_request_relocate)
qed (simp add: relocate_def)

text \<open>What happens to a remainder.\<close>

fun finish :: "remainder \<Rightarrow> port \<Rightarrow> unit outcome \<times> port" where
  "finish (Partial r) p = (Ret (), p)"
| "finish (TooLong r) p = (Exit 1 ''Message too long'', p)"

fun remaining :: "remainder \<Rightarrow> bytes" where
  "remaining (Partial r) = r"
| "remaining (TooLong r) = r"

lemma try_dispatch_step:
  assumes ix: "erl_buffer_ix p \<le> length (erl_buffer p)"
  shows "packets (unread p) = ([], t) \<Longrightarrow> t = Partial (unread p) \<and> try_dispatch p = (Ret 0, p) \<or>
      t = TooLong (unread p) \<and> try_dispatch p = (Exit 1 ''Message too long'', p)"
    and "packets (unread p) = (c # cs, t) \<Longrightarrow>
      length c + 2 \<le> erl_buffer_ix p \<and> packets (drop (length c + 2) (unread p)) = (cs, t) \<and>
      try_dispatch p = bind_out (request c p) (\<lambda>_ p1. (Ret (length c + 2), p1))"
proof -
  have len: "length (unread p) = erl_buffer_ix p" using ix by (simp add: unread_def)
  consider "length (unread p) < 2" "packets (unread p) = ([], Partial (unread p))"
    | hi lo r where "unread p = hi # lo # r"
    by (cases "unread p" rule: packets.cases) auto
  then have "(packets (unread p) = ([], t) \<longrightarrow>
      t = Partial (unread p) \<and> try_dispatch p = (Ret 0, p) \<or>
      t = TooLong (unread p) \<and> try_dispatch p = (Exit 1 ''Message too long'', p)) \<and>
    (packets (unread p) = (c # cs, t) \<longrightarrow>
      length c + 2 \<le> erl_buffer_ix p \<and> packets (drop (length c + 2) (unread p)) = (cs, t) \<and>
      try_dispatch p = bind_out (request c p) (\<lambda>_ p1. (Ret (length c + 2), p1)))"
  proof cases
    case 1
    then show ?thesis using len by (auto simp: try_dispatch_def)
  next
    case (2 hi lo r)
    let ?n = "ntohs_bytes hi lo"
    have ge: "2 \<le> erl_buffer_ix p" using 2 len by simp
    have eb: "erl_buffer p = hi # lo # r @ drop (erl_buffer_ix p) (erl_buffer p)"
      using 2 by (metis append_Cons append_take_drop_id unread_def)
    have rd: "mem_read 0 2 (erl_buffer p) = Some [hi, lo]"
      using eb ge ix by (auto simp: mem_read_def) (metis One_nat_def numeral_2_eq_2 take_0 take_Suc_Cons)
    have tk: "take ?n (drop 2 (erl_buffer p)) = take ?n r" if "?n \<le> length r"
      using that by (subst eb) simp
    have rq: "do_wpa_request (drop 2 (erl_buffer p)) ?n p = request (take ?n r) p"
      if "?n \<le> length r"
      using that len 2 ix tk do_wpa_request_take [of ?n "drop 2 (erl_buffer p)" p]
      by (simp add: min_absorb2)
    show ?thesis using 2 len ge rd rq
      by (auto simp: try_dispatch_def packets.simps(3) Let_def apfst_def map_prod_def min_absorb2
          split: prod.splits if_splits)
  qed
  then show "packets (unread p) = ([], t) \<Longrightarrow>
      t = Partial (unread p) \<and> try_dispatch p = (Ret 0, p) \<or>
      t = TooLong (unread p) \<and> try_dispatch p = (Exit 1 ''Message too long'', p)"
    and "packets (unread p) = (c # cs, t) \<Longrightarrow>
      length c + 2 \<le> erl_buffer_ix p \<and> packets (drop (length c + 2) (unread p)) = (cs, t) \<and>
      try_dispatch p = bind_out (request c p) (\<lambda>_ p1. (Ret (length c + 2), p1))"
    by blast+
qed

text \<open>A command that returned leaves the loop with the rest of the buffer.\<close>

lemma dispatch_loop_step:
  assumes ix: "erl_buffer_ix p \<le> length (erl_buffer p)" and pk: "packets (unread p) = (c # cs, t)"
    and req: "request c p = (Ret (), p1)"
  shows "\<exists>b i. length b = length (erl_buffer p) \<and> i + length c + 2 = erl_buffer_ix p \<and>
    unread (relocate b i p1) = drop (length c + 2) (unread p) \<and>
    dispatch_loop p = dispatch_loop (relocate b i p1)"
proof -
  let ?k = "length c + 2" and ?i = "erl_buffer_ix p - (length c + 2)"
  let ?tl = "take ?i (drop ?k (erl_buffer p))"
  let ?b = "?tl @ drop ?i (erl_buffer p)"
  note step = try_dispatch_step(2) [OF ix pk] and keep = do_wpa_request_keeps [OF req]
  have tl: "drop ?k (unread p) = ?tl" by (simp only: unread_def drop_take)
  show ?thesis
  proof (cases "erl_buffer_ix p > ?k")
    case gt: True
    have ltl: "length ?tl = ?i" using ix by simp
    have rd: "mem_read ?k ?i (erl_buffer p) = Some ?tl" using gt ix by (simp add: mem_read_def)
    have wr: "mem_write 0 ?tl (erl_buffer p) = Some ?b" using ltl ix unfolding mem_write_def by simp
    have "dispatch_loop p = dispatch_loop (relocate ?b ?i p1)"
      using step req gt rd wr keep
      by (simp add: dispatch_loop.simps [of p] relocate_def del: take_append)
    moreover have "length ?b = length (erl_buffer p)" using ix by simp
    moreover have "?i + length c + 2 = erl_buffer_ix p" using gt by simp
    ultimately show ?thesis using ltl tl
      by (intro exI [of _ ?b] exI [of _ ?i]) (simp add: unread_def relocate_def)
  next
    case False
    then have eq: "erl_buffer_ix p = ?k" using step by simp
    have "dispatch_loop (relocate b 0 p1) = (Ret (), relocate b 0 p1)" for b
      by (subst dispatch_loop.simps) (simp add: try_dispatch_def relocate_def)
    then have "dispatch_loop p = dispatch_loop (relocate (erl_buffer p) 0 p1)"
      using step req eq keep by (simp add: dispatch_loop.simps [of p] relocate_def)
    then show ?thesis using eq
      by (intro exI [of _ "erl_buffer p"] exI [of _ 0]) (simp add: unread_def relocate_def)
  qed
qed

text \<open>
  The loop handles the complete messages in the buffer one after the other and moves what is left
  to the front.
\<close>

lemma finish_relocate:
  "bind_out (apsnd (relocate b i) r) (\<lambda>_. finish t) = apsnd (relocate b i) (bind_out r (\<lambda>_. finish t))"
  by (cases r; cases "fst r"; cases t) auto

lemma dispatch_loop_refines:
  assumes "erl_buffer_ix p \<le> length (erl_buffer p)" and "packets (unread p) = (cs, t)"
  shows "\<exists>b i. length b = length (erl_buffer p) \<and> i \<le> erl_buffer_ix p \<and>
    dispatch_loop p = apsnd (relocate b i) (bind_out (deliver request cs p) (\<lambda>_. finish t)) \<and>
    (fst (deliver request cs p) = Ret () \<longrightarrow> take i b = remaining t \<and> i = length (remaining t))"
  using assms
proof (induction cs arbitrary: p)
  case Nil
  have "length (unread p) = erl_buffer_ix p" "take (erl_buffer_ix p) (erl_buffer p) = unread p"
    using Nil.prems by (simp_all add: unread_def)
  with try_dispatch_step(1) [OF Nil.prems] show ?case
    by (intro exI [of _ "erl_buffer p"] exI [of _ "erl_buffer_ix p"])
      (auto simp: dispatch_loop.simps [of p])
next
  case (Cons c cs)
  note step = try_dispatch_step(2) [OF Cons.prems]
  obtain out p1 where req: "request c p = (out, p1)" by (cases "request c p")
  note keep = do_wpa_request_keeps [OF req]
  show ?case
  proof (cases "out = Ret ()")
    case False
    then have "dispatch_loop p = bind_out (deliver request (c # cs) p) (\<lambda>_. finish t)"
      using step req by (cases out) (simp_all add: dispatch_loop.simps [of p])
    moreover have "relocate (erl_buffer p) (erl_buffer_ix p) p1 = p1"
      using keep by (metis relocate_same)
    ultimately show ?thesis using False req
      by (intro exI [of _ "erl_buffer p"] exI [of _ "erl_buffer_ix p"]) (cases out, auto)
  next
    case True
    from dispatch_loop_step [OF Cons.prems] req True obtain b0 i0 where
      b0: "length b0 = length (erl_buffer p)" "i0 + length c + 2 = erl_buffer_ix p"
      "unread (relocate b0 i0 p1) = drop (length c + 2) (unread p)"
      "dispatch_loop p = dispatch_loop (relocate b0 i0 p1)" by blast
    then obtain b i where b: "length b = length b0" "i \<le> i0"
      "dispatch_loop (relocate b0 i0 p1) =
        apsnd (relocate b i) (bind_out (deliver request cs (relocate b0 i0 p1)) (\<lambda>_. finish t))"
      "fst (deliver request cs (relocate b0 i0 p1)) = Ret () \<Longrightarrow>
        take i b = remaining t \<and> i = length (remaining t)"
      using Cons.IH [of "relocate b0 i0 p1"] Cons.prems(1) step by (auto simp: relocate_def)
    show ?thesis using b0 b req True
      by (intro exI [of _ b] exI [of _ i])
        (auto simp: deliver_relocate finish_relocate)
  qed
qed

section \<open>Exchanges\<close>

text \<open>
  What the daemon sends while one command is handled: unsolicited messages, then the reply.
  \<open>heard\<close> are the datagrams of a series of exchanges, \<open>told\<close> the messages they become for the
  Erlang side: the replies cut to the buffer, the others as \<open>notice\<close> leaves them.
\<close>

type_synonym exchange = "bytes list \<times> bytes"

definition proper :: "exchange \<Rightarrow> bool" where
  "proper x \<longleftrightarrow> (\<forall>n \<in> set (fst x). unsolicited n) \<and> \<not> unsolicited (snd x)"

definition heard :: "exchange list \<Rightarrow> bytes list" where
  "heard xs = concat (map (\<lambda>(ns, m). ns @ [m]) xs)"

definition told :: "exchange list \<Rightarrow> bytes list" where
  "told xs = concat (map (\<lambda>(ns, m). map (notice BUFFER_SIZE) ns @ [take BUFFER_SIZE m]) xs)"

lemma heard_simps [simp]: "heard [] = []" "heard ((ns, m) # xs) = ns @ m # heard xs"
  by (simp_all add: heard_def)

lemma told_simps [simp]:
  "told [] = []"
  "told ((ns, m) # xs) = map (notice BUFFER_SIZE) ns @ take BUFFER_SIZE m # told xs"
  by (simp_all add: told_def)

lemma requests_relay:
  assumes "deliver request cs p = (Ret (), p')" and "length (wpa_buffer p) = BUFFER_SIZE"
  shows "length (wpa_buffer p') = BUFFER_SIZE \<and> sent (psock p') = sent (psock p) @ cs \<and>
    stdin_answers p' = stdin_answers p \<and>
    (\<exists>xs. length xs = length cs \<and> list_all proper xs \<and>
       recv_answers (psock p) = map RecvMsg (heard xs) @ recv_answers (psock p') \<and>
       written (stdout p') = written (stdout p) @ concat (map frame (told xs)))"
  using assms
proof (induction cs arbitrary: p)
  case (Cons c cs)
  then obtain p1 where r: "request c p = (Ret (), p1)" and d: "deliver request cs p1 = (Ret (), p')"
    by (auto simp: bind_out_Ret_iff)
  note one = do_wpa_request_relays [OF r Cons.prems(2)]
  then obtain ns m where ns: "recv_answers (psock p) = map RecvMsg ns @ RecvMsg m # recv_answers (psock p1)"
    "\<forall>x \<in> set ns. unsolicited x" "\<not> unsolicited m"
    "written (stdout p1) = written (stdout p) @
       concat (map frame (map (notice BUFFER_SIZE) ns @ [take BUFFER_SIZE m]))" by blast
  from Cons.IH [OF d] one obtain xs where xs: "length xs = length cs" "list_all proper xs"
    "recv_answers (psock p1) = map RecvMsg (heard xs) @ recv_answers (psock p')"
    "written (stdout p') = written (stdout p1) @ concat (map frame (told xs))"
    and rest: "length (wpa_buffer p') = BUFFER_SIZE" "sent (psock p') = sent (psock p1) @ cs"
    "stdin_answers p' = stdin_answers p1" by blast
  then show ?case using ns one do_wpa_request_keeps(3) [OF r]
    by (intro conjI exI [of _ "(ns, m) # xs"]) (auto simp: proper_def [of "(ns, m)"])
qed simp

section \<open>Well-formed states\<close>

text \<open>
  Between two calls the buffers have their declared sizes and the bytes kept in \<^verbatim>\<open>erl_buffer\<close> are
  less than one message, so that a read has room.
\<close>

definition port_ok :: "port \<Rightarrow> bool" where
  "port_ok p \<longleftrightarrow>
     length (erl_buffer p) = BUFFER_SIZE \<and> length (wpa_buffer p) = BUFFER_SIZE \<and>
     erl_buffer_ix p < BUFFER_SIZE \<and> packets (unread p) = ([], Partial (unread p))"

fun input_of :: "read_answer list \<Rightarrow> bytes" where
  "input_of [] = []"
| "input_of (ReadError e # r) = input_of r"
| "input_of (ReadData bs # r) = bs @ input_of r"

text \<open>What a read leaves: the buffer with the new bytes behind the old ones.\<close>

definition after_read :: "bytes \<Rightarrow> port \<Rightarrow> port" where
  "after_read got p =
     relocate (take (erl_buffer_ix p) (erl_buffer p) @ got @
       drop (erl_buffer_ix p + length got) (erl_buffer p)) (erl_buffer_ix p + length got) p"

lemma process_erl_reads:
  assumes ok: "port_ok p" and ans: "stdin_answers p = ReadData bs # r"
  defines "got \<equiv> take (BUFFER_SIZE - erl_buffer_ix p) bs"
  shows "\<exists>r'. input_of (stdin_answers p) = got @ input_of r' \<and>
      (got = [] \<longleftrightarrow> bs = []) \<and>
      process_erl p =
        (if bs = [] then (Exit 0 [], p\<lparr>stdin_answers := r'\<rparr>)
         else dispatch_loop (after_read got (p\<lparr>stdin_answers := r'\<rparr>)))"
    and "length (erl_buffer (after_read got p)) = BUFFER_SIZE"
    and "erl_buffer_ix (after_read got p) \<le> BUFFER_SIZE"
    and "unread (after_read got p) = unread p @ got"
proof -
  let ?c = "BUFFER_SIZE - erl_buffer_ix p"
  let ?r = "if length bs \<le> ?c then r else ReadData (drop ?c bs) # r"
  have ix: "erl_buffer_ix p < BUFFER_SIZE" "length (erl_buffer p) = BUFFER_SIZE"
    using ok by (auto simp: port_ok_def)
  have lg: "length got \<le> ?c" by (simp add: got_def)
  have g: "got = [] \<longleftrightarrow> bs = []" using ix by (auto simp: got_def)
  have inp: "input_of (stdin_answers p) = got @ input_of ?r" by (auto simp: ans got_def)
  have wr: "mem_write (erl_buffer_ix p) got (erl_buffer p) = Some (take (erl_buffer_ix p) (erl_buffer p) @
      got @ drop (erl_buffer_ix p + length got) (erl_buffer p))"
    using lg ix by (simp add: mem_write_def)
  have "process_erl p = (if bs = [] then (Exit 0 [], p\<lparr>stdin_answers := ?r\<rparr>)
      else dispatch_loop (after_read got (p\<lparr>stdin_answers := ?r\<rparr>)))"
    unfolding process_erl_def Let_def ans read_answer.case list.case got_def [symmetric]
    using g wr by (simp add: after_read_def relocate_def)
  with inp g show "\<exists>r'. input_of (stdin_answers p) = got @ input_of r' \<and> (got = [] \<longleftrightarrow> bs = []) \<and>
      process_erl p = (if bs = [] then (Exit 0 [], p\<lparr>stdin_answers := r'\<rparr>)
         else dispatch_loop (after_read got (p\<lparr>stdin_answers := r'\<rparr>)))" by blast
  show "length (erl_buffer (after_read got p)) = BUFFER_SIZE"
    "erl_buffer_ix (after_read got p) \<le> BUFFER_SIZE" "unread (after_read got p) = unread p @ got"
    using ix lg by (auto simp: after_read_def relocate_def unread_def)
qed

text \<open>
  A read of commands: the stream so far is split into messages, each complete one is a command
  that goes to the daemon, and the rest stays.
\<close>

lemma process_erl_refines:
  assumes ok: "port_ok p" and ans: "stdin_answers p = ReadData bs # r" and bs: "bs \<noteq> []"
    and pk: "packets (unread p @ take (BUFFER_SIZE - erl_buffer_ix p) bs) = (cs, t)"
  shows "\<exists>b i r'. length b = BUFFER_SIZE \<and> i \<le> BUFFER_SIZE \<and>
    input_of (stdin_answers p) = take (BUFFER_SIZE - erl_buffer_ix p) bs @ input_of r' \<and>
    process_erl p =
      apsnd (relocate b i) (bind_out (deliver request cs (p\<lparr>stdin_answers := r'\<rparr>)) (\<lambda>_. finish t)) \<and>
    (fst (deliver request cs (p\<lparr>stdin_answers := r'\<rparr>)) = Ret () \<longrightarrow>
       take i b = remaining t \<and> i = length (remaining t))"
proof -
  let ?got = "take (BUFFER_SIZE - erl_buffer_ix p) bs"
  note rd = process_erl_reads [OF ok ans]
  from rd(1) bs obtain r' where inp: "input_of (stdin_answers p) = ?got @ input_of r'"
    and pe: "process_erl p = dispatch_loop (after_read ?got (p\<lparr>stdin_answers := r'\<rparr>))" by auto
  have ar: "after_read ?got (p\<lparr>stdin_answers := r'\<rparr>) =
      (after_read ?got p)\<lparr>stdin_answers := r'\<rparr>" by (simp add: after_read_def relocate_def)
  let ?q = "after_read ?got (p\<lparr>stdin_answers := r'\<rparr>)"
  have q: "erl_buffer_ix ?q \<le> BUFFER_SIZE" "length (erl_buffer ?q) = BUFFER_SIZE"
    "packets (unread ?q) = (cs, t)"
    using rd(2-4) pk unfolding ar by (simp_all add: unread_def)
  obtain b0 i0 where "?q = relocate b0 i0 (p\<lparr>stdin_answers := r'\<rparr>)" unfolding after_read_def by blast
  then have dv: "deliver request cs ?q =
      apsnd (relocate b0 i0) (deliver request cs (p\<lparr>stdin_answers := r'\<rparr>))"
    by (simp add: deliver_relocate)
  have "erl_buffer_ix ?q \<le> length (erl_buffer ?q)" using q by simp
  from dispatch_loop_refines [OF this q(3)] obtain b i where
    "length b = length (erl_buffer ?q)" "i \<le> erl_buffer_ix ?q"
    "dispatch_loop ?q = apsnd (relocate b i) (bind_out (deliver request cs ?q) (\<lambda>_. finish t))"
    "fst (deliver request cs ?q) = Ret () \<longrightarrow> take i b = remaining t \<and> i = length (remaining t)"
    by blast
  then show ?thesis using pe inp dv q(1,2)
    by (intro exI [of _ b] exI [of _ i] exI [of _ r']) (auto simp: finish_relocate)
qed

text \<open>
  The state after \<^verbatim>\<open>process_erl\<close> returned: the commands that became complete have gone out and each
  has been answered.
\<close>

lemma process_erl_relays:
  assumes ok: "port_ok p" and ret: "process_erl p = (Ret (), p')"
  shows "port_ok p' \<and>
    (\<exists>ins cs xs. input_of (stdin_answers p) = ins @ input_of (stdin_answers p') \<and>
       packets (unread p @ ins) = (cs, Partial (unread p')) \<and>
       sent (psock p') = sent (psock p) @ cs \<and> length xs = length cs \<and> list_all proper xs \<and>
       recv_answers (psock p) = map RecvMsg (heard xs) @ recv_answers (psock p') \<and>
       written (stdout p') = written (stdout p) @ concat (map frame (told xs)))"
proof (cases "stdin_answers p")
  case Nil
  then show ?thesis using ret by (simp add: process_erl_def)
next
  case (Cons a r)
  show ?thesis
  proof (cases a)
    case (ReadError e)
    then have "p' = p\<lparr>stdin_answers := r\<rparr>" using ret Cons by (auto simp: process_erl_def split: if_splits)
    then show ?thesis using ok Cons ReadError
      by (intro conjI exI [of _ "[]"]) (auto simp: port_ok_def unread_def)
  next
    case (ReadData bs)
    let ?got = "take (BUFFER_SIZE - erl_buffer_ix p) bs"
    have ans: "stdin_answers p = ReadData bs # r" using Cons ReadData by simp
    have bs: "bs \<noteq> []" using ret ans by (auto simp: process_erl_def Let_def)
    obtain cs t where pk: "packets (unread p @ ?got) = (cs, t)" by (cases "packets (unread p @ ?got)")
    from process_erl_refines [OF ok ans bs pk] obtain b i r' where b: "length b = BUFFER_SIZE"
      and inp: "input_of (stdin_answers p) = ?got @ input_of r'"
      and pe: "process_erl p =
        apsnd (relocate b i) (bind_out (deliver request cs (p\<lparr>stdin_answers := r'\<rparr>)) (\<lambda>_. finish t))"
      and rem: "fst (deliver request cs (p\<lparr>stdin_answers := r'\<rparr>)) = Ret () \<longrightarrow>
         take i b = remaining t \<and> i = length (remaining t)" by blast
    obtain out p1 where d: "deliver request cs (p\<lparr>stdin_answers := r'\<rparr>) = (out, p1)"
      by (cases "deliver request cs (p\<lparr>stdin_answers := r'\<rparr>)")
    have out: "out = Ret ()" and p': "p' = relocate b i p1" and t: "t = Partial (remaining t)"
      using ret pe d by (cases out; cases t; simp)+
    note rel = requests_relay [OF d [unfolded out]]
    have u: "unread p' = remaining t" using rem d out p' by (auto simp: unread_def relocate_def)
    have "port_ok p'" using rel ok b rem d out p' u packets_Partial [of _ cs "remaining t"] pk t
      by (auto simp: port_ok_def relocate_def)
    moreover have "stdin_answers p' = r'" using rel ok p' by (simp add: port_ok_def relocate_def)
    ultimately show ?thesis using rel ok inp pk t u p'
      by (intro conjI exI [of _ ?got] exI [of _ cs]) (auto simp: port_ok_def relocate_def)
  qed
qed

end
