(* ===== verification/Relay.thy ===== *)
theory Relay
  imports Port
begin

text \<open>
  The properties of the port program's two handlers, \<^verbatim>\<open>process_erl\<close> and \<^verbatim>\<open>process_wpa\<close>, and of
  its main loop (\<^verbatim>\<open>src/src/wpa_ex.c\<close>): commands reach the daemon once each and in order however the
  pipe cuts the stream, datagrams reach Erlang as frames once each and in order, and no handler
  leaves its buffers.
\<close>

unbundle bit_operations_syntax

section \<open>Events from the daemon\<close>

lemma send_to_erl_append: "send_to_erl (d @ e) (length d) st = erl_message d st"
  using send_to_erl_take [of "length d" "d @ e" st] by simp

lemma erl_message_written:
  "erl_message m st = (Ret (), st') \<Longrightarrow> written st' = written st @ frame m"
  using send_to_erl_result [OF order_refl, of m st "Ret ()" st'] by simp

text \<open>One turn of the loop of \<^verbatim>\<open>process_wpa\<close> on a datagram.\<close>

lemma process_wpa_message:
  assumes "length (wpa_buffer p) = BUFFER_SIZE" and "select_answers (psock p) = a # r"
    and "a \<noteq> SelTimeout" and "recv_answers (psock p) = RecvMsg m # q"
  shows "\<exists>buf. length buf = BUFFER_SIZE \<and>
    process_wpa p =
      (let p1 = p\<lparr>wpa_buffer := buf, psock := (psock p)\<lparr>select_answers := r, recv_answers := q\<rparr>\<rparr>
       in case erl_message (take BUFFER_SIZE m) (stdout p) of
            (Ret _, o1) \<Rightarrow> process_wpa (p1\<lparr>stdout := o1\<rparr>)
          | (Exit c x, o1) \<Rightarrow> (Exit c x, p1\<lparr>stdout := o1\<rparr>)
          | (Blocked, o1) \<Rightarrow> (Blocked, p1\<lparr>stdout := o1\<rparr>)
          | (Fault, o1) \<Rightarrow> (Fault, p1\<lparr>stdout := o1\<rparr>))"
proof -
  define d where "d = take BUFFER_SIZE m"
  let ?s1 = "(psock p)\<lparr>select_answers := r\<rparr>"
  let ?s2 = "(psock p)\<lparr>select_answers := r, recv_answers := q\<rparr>"
  let ?buf = "d @ drop (length d) (wpa_buffer p)"
  have len: "length ?buf = BUFFER_SIZE" using assms(1) by (simp add: d_def)
  have pend: "wpa_ctrl_pending (psock p) = (Ret True, ?s1)"
    using assms(2,3) by (auto simp: wpa_ctrl_pending_def split: select_answer.splits)
  have "mem_write 0 d (wpa_buffer p) = Some ?buf" using assms(1) by (simp add: mem_write_def d_def)
  then have rcv: "wpa_ctrl_recv (wpa_buffer p) BUFFER_SIZE ?s1 = (Ret (0, ?buf, length d), ?s2)"
    using assms(4) by (simp add: wpa_ctrl_recv_def d_def [symmetric])
  obtain out o1 where out: "erl_message d (stdout p) = (out, o1)"
    by (cases "erl_message d (stdout p)")
  have "process_wpa p =
      (let p1 = p\<lparr>wpa_buffer := ?buf, psock := ?s2\<rparr>
       in case erl_message d (stdout p) of
            (Ret _, o1) \<Rightarrow> process_wpa (p1\<lparr>stdout := o1\<rparr>)
          | (Exit c x, o1) \<Rightarrow> (Exit c x, p1\<lparr>stdout := o1\<rparr>)
          | (Blocked, o1) \<Rightarrow> (Blocked, p1\<lparr>stdout := o1\<rparr>)
          | (Fault, o1) \<Rightarrow> (Fault, p1\<lparr>stdout := o1\<rparr>))"
    by (subst process_wpa.simps, cases out) (simp_all add: pend rcv send_to_erl_append out Let_def)
  then show ?thesis using len unfolding d_def by blast
qed

lemma process_wpa_other:
  assumes "\<not> (\<exists>a r m q. select_answers (psock p) = a # r \<and> a \<noteq> SelTimeout \<and>
      recv_answers (psock p) = RecvMsg m # q)"
  shows "\<exists>s. process_wpa p =
      ((case select_answers (psock p) of
          [] \<Rightarrow> Blocked
        | SelTimeout # r \<Rightarrow> Ret ()
        | _ # r \<Rightarrow> (if recv_answers (psock p) = [] then Blocked else Exit 1 ''wpa_ctrl_recv'')),
       p\<lparr>psock := s\<rparr>) \<and>
    sent s = sent (psock p) \<and> sock_clock s = sock_clock (psock p) \<and>
    (\<forall>r. select_answers (psock p) = SelTimeout # r \<longrightarrow>
       select_answers s = r \<and> recv_answers s = recv_answers (psock p))"
proof (cases "select_answers (psock p)")
  case Nil
  then show ?thesis
    by (intro exI [of _ "psock p"]) (subst process_wpa.simps, simp add: wpa_ctrl_pending_def)
next
  case (Cons a r)
  then show ?thesis using assms
    by (subst process_wpa.simps)
      (auto simp: wpa_ctrl_pending_def wpa_ctrl_recv_def neq_Nil_conv
        split: list.splits select_answer.splits recv_answer.splits)
qed

lemma process_wpa_relays:
  assumes "process_wpa p = (Ret (), p')" and "length (wpa_buffer p) = BUFFER_SIZE"
  shows "\<exists>ds sel. recv_answers (psock p) = map RecvMsg ds @ recv_answers (psock p') \<and>
    select_answers (psock p) = sel @ SelTimeout # select_answers (psock p') \<and>
    length sel = length ds \<and> SelTimeout \<notin> set sel \<and>
    written (stdout p') = written (stdout p) @ concat (map frame (map (take BUFFER_SIZE) ds)) \<and>
    sent (psock p') = sent (psock p) \<and> stdin_answers p' = stdin_answers p \<and>
    erl_buffer p' = erl_buffer p \<and> erl_buffer_ix p' = erl_buffer_ix p \<and>
    length (wpa_buffer p') = BUFFER_SIZE"
  using assms
proof (induction "length (select_answers (psock p))" arbitrary: p)
  case 0
  then show ?case by (subst (asm) process_wpa.simps) (simp add: wpa_ctrl_pending_def)
next
  case (Suc k)
  show ?case
  proof (cases "\<exists>a r m q. select_answers (psock p) = a # r \<and> a \<noteq> SelTimeout \<and>
      recv_answers (psock p) = RecvMsg m # q")
    case False
    from process_wpa_other [OF False] Suc.prems show ?thesis
      by (intro exI [of _ "[]"])
        (auto split: list.splits select_answer.splits if_splits)
  next
    case True
    then obtain a r m q where a: "select_answers (psock p) = a # r" "a \<noteq> SelTimeout"
      "recv_answers (psock p) = RecvMsg m # q" by blast
    let ?d = "take BUFFER_SIZE m"
    obtain out o1 where w: "erl_message ?d (stdout p) = (out, o1)"
      by (cases "erl_message ?d (stdout p)")
    from process_wpa_message [OF Suc.prems(2) a] Suc.prems(1) obtain buf where
      buf: "length buf = BUFFER_SIZE" and out: "out = Ret ()" and
      rec: "process_wpa (p\<lparr>wpa_buffer := buf,
        psock := (psock p)\<lparr>select_answers := r, recv_answers := q\<rparr>, stdout := o1\<rparr>) = (Ret (), p')"
      unfolding w Let_def by (cases out) auto
    have wr: "written o1 = written (stdout p) @ frame ?d"
      by (rule erl_message_written [OF w [unfolded out]])
    from Suc.hyps(1) [OF _ rec] Suc.hyps(2) a buf obtain ds sel where
      "q = map RecvMsg ds @ recv_answers (psock p')"
      "r = sel @ SelTimeout # select_answers (psock p')"
      "length sel = length ds" "SelTimeout \<notin> set sel"
      "written (stdout p') = written o1 @ concat (map frame (map (take BUFFER_SIZE) ds))"
      and rest: "sent (psock p') = sent (psock p)" "stdin_answers p' = stdin_answers p"
      "erl_buffer p' = erl_buffer p" "erl_buffer_ix p' = erl_buffer_ix p"
      "length (wpa_buffer p') = BUFFER_SIZE" by auto
    then show ?thesis using a wr by (intro exI [of _ "m # ds"] exI [of _ "a # sel"]) auto
  qed
qed

section \<open>No handler leaves its buffers\<close>

lemma do_wpa_request_no_fault:
  assumes "k \<le> length cmd" and "length (wpa_buffer p) = BUFFER_SIZE" and "clock_ok (psock p)"
    and "do_wpa_request cmd k p = (out, p')"
  shows "out \<noteq> Fault \<and> clock_ok (psock p')"
proof -
  obtain o1 s1 st1 where r: "wpa_ctrl_request (Some send_to_erl) cmd k (wpa_buffer p) BUFFER_SIZE
      (psock p) (stdout p) = (o1, s1, st1)"
    by (cases "wpa_ctrl_request (Some send_to_erl) cmd k (wpa_buffer p) BUFFER_SIZE (psock p) (stdout p)")
  have n: "0 < BUFFER_SIZE" "BUFFER_SIZE \<le> length (wpa_buffer p)"
    using assms(2) by (simp_all add: BUFFER_SIZE_def)
  have "fst (erl_message m st) \<noteq> Fault" for m st
    using send_to_erl_result [OF order_refl, of m st] by (metis fst_conv surj_pair)
  from erl_callback.request_no_fault [OF assms(1) _ this n, of "psock p" "stdout p"]
  have "o1 \<noteq> Fault" using assms(3) r by (simp add: clock_ok_def)
  moreover have "clock_ok s1" by (rule erl_callback.request_clock [OF r n assms(3)])
  moreover have "send_to_erl buf len st1 \<noteq> (Fault, o2)" if "o1 = Ret (0, buf, len)" for buf len o2
    using erl_callback.request_success [OF r [unfolded that] n] send_to_erl_result [of len buf st1 Fault o2]
      n by auto
  moreover have "ret = 0 \<or> ret < 0" if "o1 = Ret (ret, buf, len)" for ret buf len
    using erl_callback.request_codes [OF r [unfolded that] n] by auto
  ultimately show ?thesis using assms(4) r
    by (auto simp: do_wpa_request_def Let_def split: outcome.splits prod.splits if_splits)
qed

lemma requests_no_fault:
  assumes "deliver request cs p = (out, p')" and "length (wpa_buffer p) = BUFFER_SIZE"
    and "clock_ok (psock p)"
  shows "out \<noteq> Fault \<and> clock_ok (psock p')"
  using assms
proof (induction cs arbitrary: p)
  case (Cons c cs)
  obtain o1 p1 where r: "request c p = (o1, p1)" by (cases "request c p")
  note nf = do_wpa_request_no_fault [OF order_refl Cons.prems(2,3) r]
  show ?case
  proof (cases "o1 = Ret ()")
    case True
    then show ?thesis using Cons.IH [of p1] Cons.prems(1) r nf
        do_wpa_request_relays [OF r [unfolded True] Cons.prems(2)] by simp
  qed (use Cons.prems(1) r nf in \<open>cases o1; auto\<close>)
qed auto

lemma process_wpa_no_fault:
  "process_wpa p = (out, p') \<Longrightarrow> length (wpa_buffer p) = BUFFER_SIZE \<Longrightarrow> clock_ok (psock p) \<Longrightarrow>
   out \<noteq> Fault \<and> clock_ok (psock p')"
proof (induction "length (select_answers (psock p))" arbitrary: p)
  case 0
  then show ?case by (subst (asm) process_wpa.simps) (auto simp: wpa_ctrl_pending_def)
next
  case (Suc k)
  show ?case
  proof (cases "\<exists>a r m q. select_answers (psock p) = a # r \<and> a \<noteq> SelTimeout \<and>
      recv_answers (psock p) = RecvMsg m # q")
    case False
    from process_wpa_other [OF False] Suc.prems show ?thesis
      by (auto simp: clock_ok_def split: list.splits select_answer.splits if_splits)
  next
    case True
    then obtain a r m q where a: "select_answers (psock p) = a # r" "a \<noteq> SelTimeout"
      "recv_answers (psock p) = RecvMsg m # q" by blast
    let ?d = "take BUFFER_SIZE m"
    obtain o0 o1 where w: "erl_message ?d (stdout p) = (o0, o1)"
      by (cases "erl_message ?d (stdout p)")
    have nf: "o0 \<noteq> Fault" using send_to_erl_result [OF order_refl w] by simp
    from process_wpa_message [OF Suc.prems(2) a] obtain buf where buf: "length buf = BUFFER_SIZE"
      and eq: "process_wpa p =
      (let p1 = p\<lparr>wpa_buffer := buf, psock := (psock p)\<lparr>select_answers := r, recv_answers := q\<rparr>\<rparr>
       in case (o0, o1) of
            (Ret _, o1) \<Rightarrow> process_wpa (p1\<lparr>stdout := o1\<rparr>)
          | (Exit c x, o1) \<Rightarrow> (Exit c x, p1\<lparr>stdout := o1\<rparr>)
          | (Blocked, o1) \<Rightarrow> (Blocked, p1\<lparr>stdout := o1\<rparr>)
          | (Fault, o1) \<Rightarrow> (Fault, p1\<lparr>stdout := o1\<rparr>))" unfolding w by blast
    let ?p1 = "p\<lparr>wpa_buffer := buf, psock := (psock p)\<lparr>select_answers := r, recv_answers := q\<rparr>,
        stdout := o1\<rparr>"
    have "process_wpa ?p1 = (out, p') \<Longrightarrow> out \<noteq> Fault \<and> clock_ok (psock p')"
      using Suc.hyps a buf Suc.prems(3) by (intro Suc.hyps(1) [of ?p1]) (auto simp: clock_ok_def)
    then show ?thesis using eq Suc.prems nf
      by (cases o0) (auto simp: Let_def clock_ok_def)
  qed
qed

lemma process_erl_no_fault:
  assumes ok: "port_ok p" and clk: "clock_ok (psock p)" and pe: "process_erl p = (out, p')"
  shows "out \<noteq> Fault \<and> clock_ok (psock p')"
proof -
  consider "stdin_answers p = []" | e r where "stdin_answers p = ReadError e # r"
    | r where "stdin_answers p = ReadData [] # r"
    | bs r where "stdin_answers p = ReadData bs # r" "bs \<noteq> []"
    by (metis list.exhaust read_answer.exhaust)
  then show ?thesis
  proof cases
    case (4 bs r)
    let ?got = "take (BUFFER_SIZE - erl_buffer_ix p) bs"
    obtain cs t where pk: "packets (unread p @ ?got) = (cs, t)" by (cases "packets (unread p @ ?got)")
    from process_erl_refines [OF ok 4 pk] obtain b i r' where
      eq: "process_erl p =
        apsnd (relocate b i) (bind_out (deliver request cs (p\<lparr>stdin_answers := r'\<rparr>)) (\<lambda>_. finish t))"
      by blast
    obtain o1 p1 where d: "deliver request cs (p\<lparr>stdin_answers := r'\<rparr>) = (o1, p1)"
      by (cases "deliver request cs (p\<lparr>stdin_answers := r'\<rparr>)")
    have "o1 \<noteq> Fault \<and> clock_ok (psock p1)"
      using requests_no_fault [OF d] ok clk by (simp add: port_ok_def)
    then show ?thesis using eq d pe by (cases o1; cases t) (auto simp: relocate_def)
  qed (use pe clk in \<open>auto simp: process_erl_def split: if_splits\<close>)
qed

section \<open>The main loop\<close>

text \<open>
  The bits of \<^verbatim>\<open>revents\<close> as \<^verbatim>\<open>poll.h\<close> has them. An answer of \<^verbatim>\<open>poll\<close> is an error, or the events of
  the standard input and of the daemon's socket.
\<close>

definition POLLIN :: u16 where "POLLIN = 0x001"
definition POLLHUP :: u16 where "POLLHUP = 0x010"

datatype poll_answer = PollError errno | PollReady u16 u16

text \<open>The body of the loop of \<^verbatim>\<open>main\<close>; \<^verbatim>\<open>continue\<close> and the end of the body both return.\<close>

definition main_iter :: "poll_answer \<Rightarrow> port \<Rightarrow> unit outcome \<times> port" where
  "main_iter a p =
     (case a of
        PollError e \<Rightarrow> (if e = EINTR then (Ret (), p) else (Exit 1 ''poll'', p))
      | PollReady revents0 revents1 \<Rightarrow>
          bind_out
            (if revents0 AND (POLLIN OR POLLHUP) \<noteq> 0 then process_erl p else (Ret (), p))
            (\<lambda>_ p1. if revents1 AND POLLIN \<noteq> 0 then process_wpa p1 else (Ret (), p1)))"

fun main_loop :: "poll_answer list \<Rightarrow> port \<Rightarrow> unit outcome \<times> port" where
  "main_loop [] p = (Blocked, p)"
| "main_loop (a # as) p = bind_out (main_iter a p) (\<lambda>_. main_loop as)"

text \<open>
  The program as a state machine: a step is one turn of the loop, and the states it waits in
  are those it can reach.
\<close>

inductive port_step :: "port \<Rightarrow> port \<Rightarrow> bool" where
  turn: "main_iter a p = (Ret (), p') \<Longrightarrow> port_step p p'"

inductive reachable :: "port \<Rightarrow> port \<Rightarrow> bool" for p0 where
  start: "reachable p0 p0"
| step: "reachable p0 p \<Longrightarrow> port_step p p' \<Longrightarrow> reachable p0 p'"

inductive_cases port_stepE [elim]: "port_step p p'"

inductive_simps port_step_iff: "port_step p p'"

text \<open>
  What passed between two states: the input read, the commands in it, the datagrams heard and the
  messages they became.
\<close>

definition forwards :: "bytes \<Rightarrow> bytes \<Rightarrow> bool" where
  "forwards d m \<longleftrightarrow> m = take BUFFER_SIZE d \<or> unsolicited d \<and> m = notice BUFFER_SIZE d"

definition relays :: "port \<Rightarrow> port \<Rightarrow> bool" where
  "relays p p' \<longleftrightarrow>
     (\<exists>ins cs ds ms. input_of (stdin_answers p) = ins @ input_of (stdin_answers p') \<and>
        packets (unread p @ ins) = (cs, Partial (unread p')) \<and>
        sent (psock p') = sent (psock p) @ cs \<and>
        recv_answers (psock p) = map RecvMsg ds @ recv_answers (psock p') \<and>
        list_all2 forwards ds ms \<and>
        written (stdout p') = written (stdout p) @ concat (map frame ms))"

lemma relays_refl: "port_ok p \<Longrightarrow> relays p p"
  unfolding relays_def
  by (intro exI [of _ "[]"]) (simp add: port_ok_def)

lemma relays_trans:
  assumes "relays p p1" and "relays p1 p2"
  shows "relays p p2"
proof -
  from assms(1) obtain ins cs ds ms where 1:
    "input_of (stdin_answers p) = ins @ input_of (stdin_answers p1)"
    "packets (unread p @ ins) = (cs, Partial (unread p1))" "sent (psock p1) = sent (psock p) @ cs"
    "recv_answers (psock p) = map RecvMsg ds @ recv_answers (psock p1)" "list_all2 forwards ds ms"
    "written (stdout p1) = written (stdout p) @ concat (map frame ms)" by (auto simp: relays_def)
  from assms(2) obtain ins' cs' ds' ms' where 2:
    "input_of (stdin_answers p1) = ins' @ input_of (stdin_answers p2)"
    "packets (unread p1 @ ins') = (cs', Partial (unread p2))"
    "sent (psock p2) = sent (psock p1) @ cs'"
    "recv_answers (psock p1) = map RecvMsg ds' @ recv_answers (psock p2)"
    "list_all2 forwards ds' ms'"
    "written (stdout p2) = written (stdout p1) @ concat (map frame ms')" by (auto simp: relays_def)
  have "packets (unread p @ ins @ ins') = (cs @ cs', Partial (unread p2))"
    using packets_append [of "unread p @ ins" ins'] 1(2) 2(2) by simp
  then show ?thesis unfolding relays_def using 1 2
    by (intro exI [of _ "ins @ ins'"] exI [of _ "cs @ cs'"] exI [of _ "ds @ ds'"] exI [of _ "ms @ ms'"])
      (simp add: list_all2_appendI)
qed

lemma told_forwards: "list_all proper xs \<Longrightarrow> list_all2 forwards (heard xs) (told xs)"
proof (induction xs)
  case (Cons x xs)
  obtain ns m where x: "x = (ns, m)" by (cases x)
  have "list_all2 forwards ns (map (notice BUFFER_SIZE) ns)"
    using Cons.prems x by (auto simp: proper_def forwards_def list_all2_conv_all_nth)
  moreover have "forwards m (take BUFFER_SIZE m)" by (simp add: forwards_def)
  ultimately show ?case using Cons x by (auto intro: list_all2_appendI)
qed simp

lemma process_erl_step:
  assumes "port_ok p" and "process_erl p = (Ret (), p')"
  shows "port_ok p' \<and> relays p p'"
  using process_erl_relays [OF assms] told_forwards unfolding relays_def by blast

lemma process_wpa_step:
  assumes ok: "port_ok p" and ret: "process_wpa p = (Ret (), p')"
  shows "port_ok p' \<and> relays p p'"
proof -
  have "length (wpa_buffer p) = BUFFER_SIZE" using ok by (simp add: port_ok_def)
  from process_wpa_relays [OF ret this] obtain ds sel where
    ds: "recv_answers (psock p) = map RecvMsg ds @ recv_answers (psock p')"
    "written (stdout p') = written (stdout p) @ concat (map frame (map (take BUFFER_SIZE) ds))"
    and rest: "sent (psock p') = sent (psock p)" "stdin_answers p' = stdin_answers p"
      "erl_buffer p' = erl_buffer p" "erl_buffer_ix p' = erl_buffer_ix p"
      "length (wpa_buffer p') = BUFFER_SIZE" by blast
  have u: "unread p' = unread p" using rest by (simp add: unread_def)
  have "list_all2 forwards ds (map (take BUFFER_SIZE) ds)"
    by (simp add: list_all2_conv_all_nth forwards_def)
  with ds rest u ok have "relays p p'"
    unfolding relays_def by (intro exI [of _ "[]"] exI [of _ ds] exI [of _ "map (take BUFFER_SIZE) ds"])
      (auto simp: port_ok_def)
  moreover have "port_ok p'" using ok rest u by (simp add: port_ok_def)
  ultimately show ?thesis by blast
qed

lemma port_step_relays:
  assumes "port_step p p'" and ok: "port_ok p"
  shows "port_ok p' \<and> relays p p'"
  using assms(1)
proof (rule port_stepE)
  fix a assume turn: "main_iter a p = (Ret (), p')"
  show ?thesis
  proof (cases a)
    case (PollError e)
    then show ?thesis using turn ok relays_refl by (auto simp: main_iter_def split: if_splits)
  next
    case (PollReady r0 r1)
    then obtain p1 where
      "p1 = p \<or> process_erl p = (Ret (), p1)" "p' = p1 \<or> process_wpa p1 = (Ret (), p')"
      using turn by (auto simp: main_iter_def bind_out_Ret_iff split: if_splits)
    then show ?thesis
      using process_erl_step [OF ok] process_wpa_step relays_refl relays_trans ok by metis
  qed
qed

lemma reachable_relays: "reachable p0 p \<Longrightarrow> port_ok p0 \<Longrightarrow> port_ok p \<and> relays p0 p"
proof (induction rule: reachable.induct)
  case start
  then show ?case by (simp add: relays_refl)
next
  case (step p p')
  then show ?case using port_step_relays relays_trans by blast
qed

lemma main_iter_no_fault:
  assumes ok: "port_ok p" and clk: "clock_ok (psock p)" and it: "main_iter a p = (out, p')"
  shows "out \<noteq> Fault \<and> clock_ok (psock p')"
proof (cases a)
  case (PollError e)
  then show ?thesis using it clk by (auto simp: main_iter_def split: if_splits)
next
  case (PollReady r0 r1)
  obtain o1 p1 where b: "(if r0 AND (POLLIN OR POLLHUP) \<noteq> 0 then process_erl p else (Ret (), p)) = (o1, p1)"
    by fastforce
  have 1: "o1 \<noteq> Fault \<and> clock_ok (psock p1)"
    using b process_erl_no_fault [OF ok clk] clk by (auto split: if_splits)
  show ?thesis
  proof (cases "o1 = Ret ()")
    case True
    then have "length (wpa_buffer p1) = BUFFER_SIZE"
      using b ok process_erl_step [OF ok] by (auto simp: port_ok_def split: if_splits)
    then show ?thesis using it PollReady b 1 True process_wpa_no_fault [of p1]
      by (auto simp: main_iter_def split: if_splits)
  qed (use it PollReady b 1 in \<open>cases o1; auto simp: main_iter_def\<close>)
qed

lemma main_loop_no_fault:
  "port_ok p \<Longrightarrow> clock_ok (psock p) \<Longrightarrow> fst (main_loop as p) \<noteq> Fault"
proof (induction as arbitrary: p)
  case (Cons a as)
  obtain out p1 where it: "main_iter a p = (out, p1)" by (cases "main_iter a p")
  note nf = main_iter_no_fault [OF Cons.prems it]
  show ?case
  proof (cases "out = Ret ()")
    case True
    then have "port_step p p1" using it by (auto simp: port_step_iff)
    then show ?thesis using Cons.IH Cons.prems nf it True port_step_relays by auto
  qed (use it nf in \<open>cases out; auto\<close>)
qed simp

section \<open>A daemon that answers\<close>

text \<open>A pipe that takes whole frames, and a daemon that answers each command.\<close>

definition pipe_takes :: "nat \<Rightarrow> write_answer list \<Rightarrow> out \<Rightarrow> bool" where
  "pipe_takes n w st \<longleftrightarrow>
     (\<exists>js. length js = n \<and> (\<forall>j \<in> set js. BUFFER_SIZE + 2 \<le> j) \<and>
        writev_answers st = map WriteAmount js @ w)"

definition daemon_answers :: "exchange list \<Rightarrow> sock \<Rightarrow> bool" where
  "daemon_answers xs s \<longleftrightarrow> list_all proper xs \<and>
     (\<exists>sa r q. send_answers s = replicate (length xs) None @ sa \<and>
        select_answers s = replicate (length (heard xs)) SelReady @ r \<and>
        recv_answers s = map RecvMsg (heard xs) @ q)"

lemma length_notice: "length (notice n m) \<le> n"
  by (simp add: notice_def)

lemma erl_messages_taken:
  assumes "pipe_takes (length ms + k) w st" and "\<forall>m \<in> set ms. length m \<le> BUFFER_SIZE"
  shows "\<exists>st'. deliver erl_message ms st = (Ret (), st') \<and> pipe_takes k w st'"
  using assms
proof (induction ms arbitrary: st)
  case (Cons m ms)
  from Cons.prems(1) obtain j js where js: "length js = length ms + k" "BUFFER_SIZE + 2 \<le> j"
    "\<forall>j \<in> set js. BUFFER_SIZE + 2 \<le> j" "writev_answers st = WriteAmount j # map WriteAmount js @ w"
    unfolding pipe_takes_def by (auto simp: length_Suc_conv)
  have le: "length m + 2 \<le> j" using Cons.prems(2) js(2) by auto
  define st1 where "st1 = st\<lparr>writev_answers := map WriteAmount js @ w, written := written st @ frame m\<rparr>"
  have m: "erl_message m st = (Ret (), st1)"
    using send_to_erl_ready [OF order_refl js(4) le] by (simp add: st1_def)
  have "pipe_takes (length ms + k) w st1" using js by (auto simp: pipe_takes_def st1_def)
  from Cons.IH [OF this] Cons.prems(2) show ?case using m by simp
qed simp

lemma do_wpa_request_completes:
  assumes wb: "length (wpa_buffer p) = BUFFER_SIZE" and d: "daemon_answers ((ns, m) # xs) (psock p)"
    and w: "pipe_takes (Suc (length ns) + k) w (stdout p)"
  shows "\<exists>p'. request c p = (Ret (), p') \<and> daemon_answers xs (psock p') \<and> pipe_takes k w (stdout p')"
proof -
  have n: "0 < BUFFER_SIZE" "BUFFER_SIZE \<le> length (wpa_buffer p)"
    using wb by (simp_all add: BUFFER_SIZE_def)
  from d obtain sa r q where s: "send_answers (psock p) = None # replicate (length xs) None @ sa"
    "select_answers (psock p) = replicate (Suc (length ns)) SelReady @ replicate (length (heard xs)) SelReady @ r"
    "recv_answers (psock p) = map RecvMsg ns @ RecvMsg m # map RecvMsg (heard xs) @ q"
    and pr: "\<forall>x \<in> set ns. unsolicited x" "\<not> unsolicited m" "list_all proper xs"
    by (auto simp: daemon_answers_def proper_def [of "(ns, m)"] replicate_add)
  define s1 where "s1 = (psock p)\<lparr>send_answers := replicate (length xs) None @ sa,
    sent := sent (psock p) @ [c]\<rparr>"
  have snd: "retry_send (take (length c) c) \<lparr>sec = 0, usec = 0\<rparr> (psock p) = (Ret True, s1)"
    using s(1) by (simp add: retry_send.simps [of _ _ "psock p"] s1_def)
  obtain st' where del: "deliver erl_message (map (notice BUFFER_SIZE) ns) (stdout p) = (Ret (), st')"
    and w': "pipe_takes (Suc k) w st'"
    using erl_messages_taken [of "map (notice BUFFER_SIZE) ns" "Suc k"] w by (auto simp: length_notice)
  from erl_callback.request_delivers [OF order_refl snd s(2,3) pr(1,2) del n] obtain buf s' where
    req: "wpa_ctrl_request (Some send_to_erl) c (length c) (wpa_buffer p) BUFFER_SIZE (psock p) (stdout p) =
      (Ret (0, buf, length (take BUFFER_SIZE m)), s', st')"
    and buf: "take (length (take BUFFER_SIZE m)) buf = take BUFFER_SIZE m" "length buf = BUFFER_SIZE"
    and s': "select_answers s' = replicate (length (heard xs)) SelReady @ r"
      "recv_answers s' = map RecvMsg (heard xs) @ q" "send_answers s' = send_answers s1"
    using wb by auto
  obtain st2 where "erl_message (take BUFFER_SIZE m) st' = (Ret (), st2)" "pipe_takes k w st2"
    using erl_messages_taken [of "[take BUFFER_SIZE m]" k w st'] w' by (auto simp: bind_out_Ret_iff)
  moreover have "send_to_erl buf (length (take BUFFER_SIZE m)) st' = erl_message (take BUFFER_SIZE m) st'"
    using send_to_erl_take [of "length (take BUFFER_SIZE m)" buf st'] buf by simp
  ultimately show ?thesis using req s' pr
    by (auto simp: do_wpa_request_def daemon_answers_def s1_def)
qed

lemma requests_complete:
  assumes "length xs = length cs" and "length (wpa_buffer p) = BUFFER_SIZE"
    and "daemon_answers xs (psock p)" and "pipe_takes (length (told xs)) w (stdout p)"
  shows "\<exists>p'. deliver request cs p = (Ret (), p')"
  using assms
proof (induction cs arbitrary: xs p)
  case (Cons c cs)
  then obtain ns m ys where xs: "xs = (ns, m) # ys" "length ys = length cs"
    by (cases xs) auto
  have "pipe_takes (Suc (length ns) + length (told ys)) w (stdout p)"
    using Cons.prems(4) xs by simp
  from do_wpa_request_completes [OF Cons.prems(2) Cons.prems(3) [unfolded xs] this] obtain p1 where
    "request c p = (Ret (), p1)" "daemon_answers ys (psock p1)" "pipe_takes (length (told ys)) w (stdout p1)"
    by blast
  with Cons.IH [OF xs(2)] do_wpa_request_relays [OF this(1) Cons.prems(2)] show ?case by auto
qed simp

lemma process_wpa_completes:
  assumes "length (wpa_buffer p) = BUFFER_SIZE"
    and "select_answers (psock p) = sel @ SelTimeout # r" and "SelTimeout \<notin> set sel"
    and "recv_answers (psock p) = map RecvMsg ds @ q" and "length ds = length sel"
    and "pipe_takes (length ds) w (stdout p)"
  shows "\<exists>p'. process_wpa p = (Ret (), p') \<and> select_answers (psock p') = r \<and>
    recv_answers (psock p') = q"
  using assms
proof (induction ds arbitrary: p sel)
  case Nil
  then have "\<not> (\<exists>a r m q. select_answers (psock p) = a # r \<and> a \<noteq> SelTimeout \<and>
      recv_answers (psock p) = RecvMsg m # q)" by simp
  from process_wpa_other [OF this] Nil show ?case by auto
next
  case (Cons d ds)
  then obtain a sel' where sel: "sel = a # sel'" by (cases sel) auto
  let ?d = "take BUFFER_SIZE d"
  from erl_messages_taken [of "[?d]" "length ds" w "stdout p"] Cons.prems(6) obtain o1 where
    o1: "erl_message ?d (stdout p) = (Ret (), o1)" "pipe_takes (length ds) w o1"
    by (auto simp: bind_out_Ret_iff)
  have "select_answers (psock p) = a # sel' @ SelTimeout # r" "a \<noteq> SelTimeout"
    "recv_answers (psock p) = RecvMsg d # map RecvMsg ds @ q" using Cons.prems sel by auto
  from process_wpa_message [OF Cons.prems(1) this] o1(1) obtain buf where
    "length buf = BUFFER_SIZE"
    "process_wpa p = process_wpa (p\<lparr>wpa_buffer := buf, psock := (psock p)\<lparr>select_answers :=
       sel' @ SelTimeout # r, recv_answers := map RecvMsg ds @ q\<rparr>, stdout := o1\<rparr>)"
    by (auto simp: Let_def)
  then show ?case using Cons.IH [of _ sel'] Cons.prems(3,5) sel o1(2) by auto
qed

text \<open>A daemon that sends some events and then nothing for ten seconds.\<close>

definition daemon_silent :: "bytes list \<Rightarrow> sock \<Rightarrow> bool" where
  "daemon_silent ns s \<longleftrightarrow> (\<forall>n \<in> set ns. unsolicited n) \<and>
     (\<exists>sa r q. send_answers s = None # sa \<and>
        select_answers s = replicate (length ns) SelReady @ SelTimeout # r \<and>
        recv_answers s = map RecvMsg ns @ q)"

lemma do_wpa_request_times_out:
  assumes wb: "length (wpa_buffer p) = BUFFER_SIZE" and d: "daemon_silent ns (psock p)"
    and w: "pipe_takes (length ns) w (stdout p)"
  shows "\<exists>p'. request c p = (Exit 1 ''wpa_ctrl_request'', p') \<and>
    written (stdout p') = written (stdout p) @ concat (map frame (map (notice BUFFER_SIZE) ns))"
proof -
  have n: "0 < BUFFER_SIZE" "BUFFER_SIZE \<le> length (wpa_buffer p)"
    using wb by (simp_all add: BUFFER_SIZE_def)
  from d obtain sa r q where s: "send_answers (psock p) = None # sa"
    "select_answers (psock p) = replicate (length ns) SelReady @ SelTimeout # r"
    "recv_answers (psock p) = map RecvMsg ns @ q" and ns: "\<forall>n \<in> set ns. unsolicited n"
    by (auto simp: daemon_silent_def)
  obtain st' where del: "deliver erl_message (map (notice BUFFER_SIZE) ns) (stdout p) = (Ret (), st')"
    using erl_messages_taken [of "map (notice BUFFER_SIZE) ns" 0 w "stdout p"] w by (auto simp: length_notice)
  have "await_reply erl_message BUFFER_SIZE (select_answers (psock p)) (recv_answers (psock p)) (stdout p) =
      (Ret ReplyTimeout, (r, q), st')"
    using await_reply_errors [OF ns del] s(2,3) by simp
  from erl_callback.request_fails [OF order_refl s(1) this _ n, of c] obtain buf len s' where
    "wpa_ctrl_request (Some send_to_erl) c (length c) (wpa_buffer p) BUFFER_SIZE (psock p) (stdout p) =
      (Ret (-2, buf, len), s', st')" by auto
  then show ?thesis using erl_messages_written [OF del] by (simp add: do_wpa_request_def)
qed

section \<open>Properties of the handlers\<close>

text \<open>
  C11: \<^verbatim>\<open>process_wpa\<close> forwards every waiting datagram: when \<^verbatim>\<open>select\<close> finds the socket readable as often
  as datagrams are waiting and the pipe takes them, it returns with nothing left, and each datagram,
  cut to 2048 bytes, has left as one frame, in order.
\<close>

theorem process_wpa_drains:
  assumes "length (wpa_buffer p) = BUFFER_SIZE"
    and "select_answers (psock p) = sel @ SelTimeout # r" and "SelTimeout \<notin> set sel"
    and "recv_answers (psock p) = map RecvMsg ds @ q" and "length ds = length sel"
    and "pipe_takes (length ds) w (stdout p)"
  shows "\<exists>p'. process_wpa p = (Ret (), p') \<and> recv_answers (psock p') = q \<and>
    written (stdout p') = written (stdout p) @ concat (map (\<lambda>d. frame (take 2048 d)) ds) \<and>
    sent (psock p') = sent (psock p) \<and> erl_buffer p' = erl_buffer p"
proof -
  from process_wpa_completes [OF assms] obtain p' where
    p': "process_wpa p = (Ret (), p')" "recv_answers (psock p') = q" by blast
  from process_wpa_relays [OF p'(1) assms(1)] obtain ds' where
    "map RecvMsg ds @ q = map RecvMsg ds' @ q" and w: "written (stdout p') =
      written (stdout p) @ concat (map frame (map (take BUFFER_SIZE) ds'))"
    "sent (psock p') = sent (psock p)" "erl_buffer p' = erl_buffer p"
    using assms(4) p'(2) by auto
  then have "map RecvMsg ds = map RecvMsg ds'" by simp
  then have "ds' = ds" using inj_map_eq_map [of RecvMsg ds ds'] by (simp add: inj_def)
  with w p' show ?thesis by (auto simp: BUFFER_SIZE_def o_def)
qed

definition idle_port :: port where
  "idle_port = \<lparr>erl_buffer_ix = 0, erl_buffer = replicate BUFFER_SIZE NUL,
     wpa_buffer = replicate BUFFER_SIZE NUL,
     psock = \<lparr>send_answers = [None], select_answers = [SelReady, SelReady, SelTimeout],
       recv_answers = [RecvMsg ''<1>UP'', RecvMsg ''OK''],
       sock_clock = \<lparr>clock_id = CLOCK_BOOTTIME, clock_answers = []\<rparr>, sent = [], slept = 0\<rparr>,
     stdin_answers = [ReadData (frame ''SCAN'' @ [NUL])],
     stdout = \<lparr>writev_answers = [WriteAmount 4096, WriteAmount 4096], written = []\<rparr>\<rparr>"

lemma idle_port_ok: "port_ok idle_port"
  by (simp add: port_ok_def idle_port_def unread_def BUFFER_SIZE_def)

lemma idle_port_pipe: "pipe_takes 2 [] (stdout idle_port)"
  unfolding pipe_takes_def
  by (rule exI [of _ "[4096, 4096]"]) (simp add: idle_port_def BUFFER_SIZE_def)

theorem process_wpa_drains_witness:
  "\<exists>p'. process_wpa idle_port = (Ret (), p') \<and>
     written (stdout p') = frame ''<1>UP'' @ frame ''OK''"
  using process_wpa_drains [of idle_port "[SelReady, SelReady]" "[]" "[''<1>UP'', ''OK'']" "[]" "[]"]
    idle_port_ok idle_port_pipe
  by (simp add: idle_port_def port_ok_def numeral_2_eq_2) blast

text \<open>Exchanges can be told apart in what is received.\<close>

lemma first_reply_unique:
  "map RecvMsg ns @ RecvMsg m # a = map RecvMsg ns' @ RecvMsg m' # b \<Longrightarrow>
   \<forall>x \<in> set ns. unsolicited x \<Longrightarrow> \<forall>x \<in> set ns'. unsolicited x \<Longrightarrow>
   \<not> unsolicited m \<Longrightarrow> \<not> unsolicited m' \<Longrightarrow> ns = ns' \<and> m = m' \<and> a = b"
proof (induction ns arbitrary: ns')
  case Nil
  then show ?case by (cases ns') auto
next
  case (Cons n ns)
  then show ?case by (cases ns') auto
qed

lemma heard_unique:
  "map RecvMsg (heard xs) @ a = map RecvMsg (heard ys) @ b \<Longrightarrow> length xs = length ys \<Longrightarrow>
   list_all proper xs \<Longrightarrow> list_all proper ys \<Longrightarrow> xs = ys"
proof (induction xs arbitrary: ys)
  case (Cons x xs)
  obtain ns m where x: "x = (ns, m)" by (cases x)
  from Cons.prems(2) obtain ns' m' ys' where y: "ys = (ns', m') # ys'"
    by (cases ys) auto
  have pr: "proper (ns, m)" "proper (ns', m')" "list_all proper xs" "list_all proper ys'"
    using Cons.prems(3,4) x y by simp_all
  have eq: "map RecvMsg ns @ RecvMsg m # (map RecvMsg (heard xs) @ a) =
      map RecvMsg ns' @ RecvMsg m' # (map RecvMsg (heard ys') @ b)"
    using Cons.prems(1) x y by simp
  have "ns = ns' \<and> m = m' \<and> map RecvMsg (heard xs) @ a = map RecvMsg (heard ys') @ b"
    using first_reply_unique [OF eq] pr(1,2) by (simp add: proper_def)
  then show ?case using Cons.IH [of ys'] Cons.prems(2) pr(3,4) x y by simp
qed simp

lemma process_erl_serving:
  assumes ok: "port_ok p" and ans: "stdin_answers p = ReadData bs # r" and bs: "bs \<noteq> []"
    and pk: "packets (unread p @ take (2048 - erl_buffer_ix p) bs) = (cs, Partial rest)"
    and xs: "length xs = length cs" "daemon_answers xs (psock p)"
    and w: "pipe_takes (length (told xs)) w (stdout p)"
  shows "\<exists>p'. process_erl p = (Ret (), p') \<and> port_ok p' \<and> unread p' = rest \<and>
    sent (psock p') = sent (psock p) @ cs \<and>
    recv_answers (psock p) = map RecvMsg (heard xs) @ recv_answers (psock p') \<and>
    written (stdout p') = written (stdout p) @ concat (map frame (told xs))"
proof -
  have pk': "packets (unread p @ take (BUFFER_SIZE - erl_buffer_ix p) bs) = (cs, Partial rest)"
    using pk by (simp add: BUFFER_SIZE_def)
  from process_erl_refines [OF ok ans bs pk'] obtain b i r' where
    eq: "process_erl p = apsnd (relocate b i)
      (bind_out (deliver request cs (p\<lparr>stdin_answers := r'\<rparr>)) (\<lambda>_. finish (Partial rest)))"
    and rem: "fst (deliver request cs (p\<lparr>stdin_answers := r'\<rparr>)) = Ret () \<longrightarrow>
      take i b = remaining (Partial rest)" by blast
  have wb: "length (wpa_buffer (p\<lparr>stdin_answers := r'\<rparr>)) = BUFFER_SIZE" using ok by (simp add: port_ok_def)
  from requests_complete [OF xs(1) wb] xs(2) w obtain p1 where
    d: "deliver request cs (p\<lparr>stdin_answers := r'\<rparr>) = (Ret (), p1)" by auto
  let ?p = "relocate b i p1"
  have ret: "process_erl p = (Ret (), ?p)" using eq d by simp
  have u: "unread ?p = rest" using rem d by (simp add: unread_def relocate_def)
  from requests_relay [OF d wb] obtain ys where ys: "length ys = length cs" "list_all proper ys"
    "sent (psock p1) = sent (psock p) @ cs"
    "recv_answers (psock p) = map RecvMsg (heard ys) @ recv_answers (psock p1)"
    "written (stdout p1) = written (stdout p) @ concat (map frame (told ys))" by auto
  from xs(2) obtain q where "recv_answers (psock p) = map RecvMsg (heard xs) @ q"
    and pr: "list_all proper xs" by (auto simp: daemon_answers_def)
  then have "map RecvMsg (heard xs) @ q = map RecvMsg (heard ys) @ recv_answers (psock p1)"
    using ys(4) by simp
  from heard_unique [OF this _ pr ys(2)] xs(1) ys(1) have "xs = ys" by simp
  moreover have "port_ok ?p" using process_erl_step [OF ok ret] by blast
  ultimately show ?thesis using ret u ys by (auto simp: relocate_def)
qed

text \<open>
  C4: when the daemon answers each command and the pipe takes the replies, \<^verbatim>\<open>process_erl\<close> sends
  every command that is complete after the read, in order and each once, forwards the unsolicited
  messages of each exchange and then exactly one reply, and keeps the beginning of the next command.
\<close>

theorem process_erl_serves:
  assumes ok: "port_ok p" and ans: "stdin_answers p = ReadData bs # r" and bs: "bs \<noteq> []"
    and pk: "packets (unread p @ take (2048 - erl_buffer_ix p) bs) = (cs, Partial rest)"
    and xs: "length xs = length cs" "daemon_answers xs (psock p)"
    and w: "pipe_takes (length (told xs)) w (stdout p)"
  shows "\<exists>p'. process_erl p = (Ret (), p') \<and> port_ok p' \<and> unread p' = rest \<and>
    sent (psock p') = sent (psock p) @ cs \<and>
    recv_answers (psock p) = map RecvMsg (heard xs) @ recv_answers (psock p') \<and>
    written (stdout p') = written (stdout p) @ concat (map frame (told xs))"
  by (rule process_erl_serving [OF assms])

lemma idle_port_daemon: "daemon_answers [([''<1>UP''], ''OK'')] (psock idle_port)"
  by (simp add: daemon_answers_def idle_port_def proper_def unsolicited_def)

theorem process_erl_serves_witness:
  "\<exists>p'. process_erl idle_port = (Ret (), p') \<and> unread p' = [NUL] \<and> sent (psock p') = [''SCAN''] \<and>
     written (stdout p') = frame ''<1>UP'' @ frame ''OK''"
proof -
  have ok: "port_ok idle_port" by (rule idle_port_ok)
  have ans: "stdin_answers idle_port = ReadData (frame ''SCAN'' @ [NUL]) # []" by (simp add: idle_port_def)
  have "packets (frame ''SCAN'' @ [NUL]) = ([''SCAN''], Partial [NUL])"
    using packets_frame [of "''SCAN''" "[NUL]"] by (simp add: BUFFER_SIZE_def)
  then have pk: "packets (unread idle_port @ take (2048 - erl_buffer_ix idle_port) (frame ''SCAN'' @ [NUL])) =
      ([''SCAN''], Partial [NUL])"
    by (simp add: idle_port_def unread_def)
  from process_erl_serves [OF ok ans _ pk _ idle_port_daemon, of "[]"] idle_port_pipe show ?thesis
    by (simp add: idle_port_def notice_def BUFFER_SIZE_def numeral_2_eq_2) blast
qed

text \<open>
  A length field that no buffer has room for ends the program with status 1, after every
  command before it has been sent and answered.
\<close>

theorem process_erl_rejects:
  assumes ok: "port_ok p" and ans: "stdin_answers p = ReadData bs # r" and bs: "bs \<noteq> []"
    and pk: "packets (unread p @ take (2048 - erl_buffer_ix p) bs) = (cs, TooLong rest)"
    and xs: "length xs = length cs" "daemon_answers xs (psock p)"
    and w: "pipe_takes (length (told xs)) w (stdout p)"
  shows "\<exists>p'. process_erl p = (Exit 1 ''Message too long'', p') \<and>
    sent (psock p') = sent (psock p) @ cs"
proof -
  have pk': "packets (unread p @ take (BUFFER_SIZE - erl_buffer_ix p) bs) = (cs, TooLong rest)"
    using pk by (simp add: BUFFER_SIZE_def)
  from process_erl_refines [OF ok ans bs pk'] obtain b i r' where
    eq: "process_erl p = apsnd (relocate b i)
      (bind_out (deliver request cs (p\<lparr>stdin_answers := r'\<rparr>)) (\<lambda>_. finish (TooLong rest)))" by blast
  have wb: "length (wpa_buffer (p\<lparr>stdin_answers := r'\<rparr>)) = BUFFER_SIZE" using ok by (simp add: port_ok_def)
  from requests_complete [OF xs(1) wb] xs(2) w obtain p1 where
    d: "deliver request cs (p\<lparr>stdin_answers := r'\<rparr>) = (Ret (), p1)" by auto
  then show ?thesis using eq requests_relay [OF d wb] by (simp add: relocate_def)
qed

theorem process_erl_rejects_witness:
  "\<exists>p'. process_erl (idle_port\<lparr>stdin_answers := [ReadData (frame ''SCAN'' @ ''zz'')]\<rparr>) =
      (Exit 1 ''Message too long'', p') \<and> sent (psock p') = [''SCAN'']"
proof -
  let ?p = "idle_port\<lparr>stdin_answers := [ReadData (frame ''SCAN'' @ ''zz'')]\<rparr>"
  have ok: "port_ok ?p" using idle_port_ok by (simp add: port_ok_def unread_def)
  have "packets ''zz'' = ([], TooLong ''zz'')"
    by (simp add: packets.simps(3) ntohs_bytes_def BUFFER_SIZE_def Let_def)
  then have "packets (frame ''SCAN'' @ ''zz'') = ([''SCAN''], TooLong ''zz'')"
    using packets_frame [of "''SCAN''" "''zz''"] by (simp add: BUFFER_SIZE_def)
  then have pk: "packets (unread ?p @ take (2048 - erl_buffer_ix ?p) (frame ''SCAN'' @ ''zz'')) =
      ([''SCAN''], TooLong ''zz'')"
    by (simp add: idle_port_def unread_def)
  from process_erl_rejects [OF ok _ _ pk, of "[]" "[([''<1>UP''], ''OK'')]" "[]"]
    idle_port_daemon idle_port_pipe
  show ?thesis by (simp add: idle_port_def numeral_2_eq_2)
qed

text \<open>
  When the daemon does not reply to the first command of a read within ten seconds, the program ends
  with status 1; of that command nothing but the events that came meanwhile has reached Erlang.
\<close>

lemma process_erl_times_out:
  assumes ok: "port_ok p" and ans: "stdin_answers p = ReadData bs # r" and bs: "bs \<noteq> []"
    and pk: "packets (unread p @ take (2048 - erl_buffer_ix p) bs) = (c # cs, t)"
    and d: "daemon_silent ns (psock p)" and w: "pipe_takes (length ns) w (stdout p)"
  shows "\<exists>p'. process_erl p = (Exit 1 ''wpa_ctrl_request'', p') \<and>
    written (stdout p') = written (stdout p) @ concat (map frame (map (notice 2048) ns))"
proof -
  have pk': "packets (unread p @ take (BUFFER_SIZE - erl_buffer_ix p) bs) = (c # cs, t)"
    using pk by (simp add: BUFFER_SIZE_def)
  from process_erl_refines [OF ok ans bs pk'] obtain b i r' where
    eq: "process_erl p = apsnd (relocate b i)
      (bind_out (deliver request (c # cs) (p\<lparr>stdin_answers := r'\<rparr>)) (\<lambda>_. finish t))" by blast
  have wb: "length (wpa_buffer (p\<lparr>stdin_answers := r'\<rparr>)) = BUFFER_SIZE" using ok by (simp add: port_ok_def)
  from do_wpa_request_times_out [OF wb, of ns w c] d w obtain p1 where
    "request c (p\<lparr>stdin_answers := r'\<rparr>) = (Exit 1 ''wpa_ctrl_request'', p1)"
    "written (stdout p1) = written (stdout p) @ concat (map frame (map (notice BUFFER_SIZE) ns))" by auto
  then show ?thesis using eq by (simp add: relocate_def BUFFER_SIZE_def)
qed

text \<open>Every other exit has status 1.\<close>

lemma send_to_erl_exit: "fst (send_to_erl b k st) = Exit c x \<Longrightarrow> c = 1"
proof (induction b k st rule: send_to_erl.induct)
  case (1 b k st)
  then show ?case
    by (auto simp: send_to_erl.simps [of b k st] Let_def
        split: option.splits list.splits write_answer.splits if_splits)
qed

lemma do_wpa_request_exit:
  assumes "length (wpa_buffer p) = BUFFER_SIZE" and "do_wpa_request cmd k p = (Exit c x, p')"
  shows "c = 1"
proof -
  obtain o1 s1 st1 where r: "wpa_ctrl_request (Some send_to_erl) cmd k (wpa_buffer p) BUFFER_SIZE
      (psock p) (stdout p) = (o1, s1, st1)"
    by (cases "wpa_ctrl_request (Some send_to_erl) cmd k (wpa_buffer p) BUFFER_SIZE (psock p) (stdout p)")
  have n: "0 < BUFFER_SIZE" "BUFFER_SIZE \<le> length (wpa_buffer p)"
    using assms(1) by (simp_all add: BUFFER_SIZE_def)
  have "o1 = Exit a y \<Longrightarrow> a = 1" for a y
    using erl_callback.request_exit [of "\<lambda>c x. c = 1", OF _ n] send_to_erl_exit r by blast
  then show ?thesis
  proof (cases o1)
    case (Ret v)
    obtain ret buf len where v: "v = (ret, buf, len)" by (cases v)
    show ?thesis using assms(2) r Ret v send_to_erl_exit [of buf len st1 c x]
      by (auto simp: do_wpa_request_def Let_def split: if_splits prod.splits)
  qed (use assms(2) r in \<open>auto simp: do_wpa_request_def\<close>)
qed

lemma requests_exit:
  "deliver request cs p = (Exit c x, p') \<Longrightarrow> length (wpa_buffer p) = BUFFER_SIZE \<Longrightarrow> c = 1"
proof (induction cs arbitrary: p)
  case (Cons d cs)
  obtain o1 p1 where r: "request d p = (o1, p1)" by (cases "request d p")
  show ?case
  proof (cases "o1 = Ret ()")
    case True
    then show ?thesis using Cons r do_wpa_request_relays [OF r [unfolded True]] by simp
  qed (use Cons.prems r do_wpa_request_exit [OF Cons.prems(2)] in \<open>cases o1; auto\<close>)
qed simp

text \<open>
  C14: \<^verbatim>\<open>process_erl\<close> ends the program with status 0 exactly when the standard input is at its end: a
  full buffer, which would make \<^verbatim>\<open>read\<close> return 0 as well, never comes about.
\<close>

theorem process_erl_exits_at_eof:
  assumes ok: "port_ok p"
  shows "(\<exists>x p'. process_erl p = (Exit 0 x, p')) \<longleftrightarrow> (\<exists>r. stdin_answers p = ReadData [] # r)"
proof -
  consider "stdin_answers p = []" | e r where "stdin_answers p = ReadError e # r"
    | r where "stdin_answers p = ReadData [] # r"
    | bs r where "stdin_answers p = ReadData bs # r" "bs \<noteq> []"
    by (metis list.exhaust read_answer.exhaust)
  then show ?thesis
  proof cases
    case (4 bs r)
    let ?got = "take (BUFFER_SIZE - erl_buffer_ix p) bs"
    obtain cs t where pk: "packets (unread p @ ?got) = (cs, t)" by (cases "packets (unread p @ ?got)")
    from process_erl_refines [OF ok 4 pk] obtain b i r' where
      eq: "process_erl p =
        apsnd (relocate b i) (bind_out (deliver request cs (p\<lparr>stdin_answers := r'\<rparr>)) (\<lambda>_. finish t))"
      by blast
    obtain o1 p1 where d: "deliver request cs (p\<lparr>stdin_answers := r'\<rparr>) = (o1, p1)"
      by (cases "deliver request cs (p\<lparr>stdin_answers := r'\<rparr>)")
    have "o1 \<noteq> Exit 0 x" for x using requests_exit [of cs "p\<lparr>stdin_answers := r'\<rparr>" 0 x p1] d ok
      by (auto simp: port_ok_def)
    then show ?thesis using eq d 4 by (cases o1; cases t) auto
  qed (auto simp: process_erl_def Let_def)
qed

theorem process_erl_exits_at_eof_witness:
  "\<exists>x p'. process_erl (idle_port\<lparr>stdin_answers := [ReadData []]\<rparr>) = (Exit 0 x, p')"
  using process_erl_exits_at_eof [of "idle_port\<lparr>stdin_answers := [ReadData []]\<rparr>"] idle_port_ok
  by (simp add: port_ok_def unread_def)

text \<open>
  The loop of \<^verbatim>\<open>main\<close> never makes an access outside its buffers, whatever \<^verbatim>\<open>poll\<close>, \<^verbatim>\<open>read\<close>,
  \<^verbatim>\<open>writev\<close>, \<^verbatim>\<open>send\<close>, \<^verbatim>\<open>select\<close> and \<^verbatim>\<open>recv\<close> answer and whatever Erlang and the daemon send, as long
  as the clock works.
\<close>

theorem main_loop_memory_safe:
  assumes "port_ok p" and "None \<notin> set (clock_answers (sock_clock (psock p)))"
  shows "fst (main_loop polls p) \<noteq> Fault"
  using main_loop_no_fault assms by (simp add: clock_ok_def)

theorem main_loop_memory_safe_witness:
  "fst (main_loop [PollReady 0x11 1, PollError EINTR, PollReady 0 1] idle_port) \<noteq> Fault"
  by (rule main_loop_memory_safe [OF idle_port_ok]) (simp add: idle_port_def)

text \<open>
  The loop of \<^verbatim>\<open>main\<close> waits for \<^verbatim>\<open>POLLIN\<close> and, on the standard input, \<^verbatim>\<open>POLLHUP\<close>. When \<^verbatim>\<open>poll\<close>
  reports anything else, an error on either descriptor or the daemon's socket hung up, the loop goes
  round with nothing read, written or changed, as often as \<^verbatim>\<open>poll\<close> reports it, and since \<^verbatim>\<open>poll\<close> does
  not wait while such a condition lasts, it never waits.
\<close>

theorem unhandled_conditions_spin:
  assumes "\<forall>a \<in> set as. \<exists>r0 r1. a = PollReady r0 r1 \<and> r0 AND (POLLIN OR POLLHUP) = 0 \<and> r1 AND POLLIN = 0"
  shows "main_loop (as @ bs) p = main_loop bs p"
  using assms by (induction as) (auto simp: main_iter_def)

theorem unhandled_conditions_spin_witness:
  "main_loop (replicate 1000 (PollReady 0x008 0x018) @ []) idle_port = (Blocked, idle_port)"
proof -
  have "\<forall>a \<in> set (replicate 1000 (PollReady 0x008 0x018)).
      \<exists>r0 r1. a = PollReady r0 r1 \<and> r0 AND (POLLIN OR POLLHUP) = 0 \<and> r1 AND POLLIN = 0"
    by (simp add: POLLIN_def POLLHUP_def)
  from unhandled_conditions_spin [OF this, of "[]" idle_port] show ?thesis by simp
qed

text \<open>
  C3: in every state the loop of \<^verbatim>\<open>main\<close> reaches, the commands sent are exactly the complete messages
  in the input read so far, in order, however the pipe cut it and whatever events came in between; the
  incomplete rest is what the buffer keeps; and the bytes written are one frame for each datagram
  received from the daemon, in the order they came.
\<close>

theorem port_relays:
  assumes "reachable p0 p" and "port_ok p0"
  shows "port_ok p \<and>
    (\<exists>ins cs ds ms. input_of (stdin_answers p0) = ins @ input_of (stdin_answers p) \<and>
       packets (unread p0 @ ins) = (cs, Partial (unread p)) \<and>
       sent (psock p) = sent (psock p0) @ cs \<and>
       recv_answers (psock p0) = map RecvMsg ds @ recv_answers (psock p) \<and>
       list_all2 (\<lambda>d m. m = take 2048 d \<or> unsolicited d \<and> m = notice 2048 d) ds ms \<and>
       written (stdout p) = written (stdout p0) @ concat (map frame ms))"
  using reachable_relays [OF assms] by (simp add: relays_def forwards_def [abs_def] BUFFER_SIZE_def)

lemma idle_port_step:
  "\<exists>p'. port_step idle_port p' \<and> sent (psock p') = [''SCAN''] \<and> recv_answers (psock p') = [] \<and>
     written (stdout p') = frame ''<1>UP'' @ frame ''OK''"
proof -
  have ok: "port_ok idle_port" by (rule idle_port_ok)
  have ans: "stdin_answers idle_port = ReadData (frame ''SCAN'' @ [NUL]) # []" by (simp add: idle_port_def)
  have "packets (frame ''SCAN'' @ [NUL]) = ([''SCAN''], Partial [NUL])"
    using packets_frame [of "''SCAN''" "[NUL]"] by (simp add: BUFFER_SIZE_def)
  then have pk: "packets (unread idle_port @ take (2048 - erl_buffer_ix idle_port) (frame ''SCAN'' @ [NUL])) =
      ([''SCAN''], Partial [NUL])"
    by (simp add: idle_port_def unread_def)
  from process_erl_serving [OF ok ans _ pk _ idle_port_daemon, of "[]"] idle_port_pipe obtain p' where
    p': "process_erl idle_port = (Ret (), p')" "sent (psock p') = [''SCAN'']"
      "recv_answers (psock p') = []" "written (stdout p') = frame ''<1>UP'' @ frame ''OK''"
    by (auto simp: idle_port_def notice_def BUFFER_SIZE_def numeral_2_eq_2)
  have "main_iter (PollReady 1 0) idle_port = (Ret (), p')"
    using p'(1) by (simp add: main_iter_def POLLIN_def POLLHUP_def)
  then show ?thesis using p' by (auto simp: port_step_iff)
qed

theorem port_relays_witness:
  "\<exists>p. reachable idle_port p \<and> sent (psock p) = [''SCAN''] \<and> port_ok p"
proof -
  obtain p' where "port_step idle_port p'" "sent (psock p') = [''SCAN'']" using idle_port_step by blast
  then have "reachable idle_port p'" by (blast intro: reachable.intros)
  with port_relays [OF this idle_port_ok] \<open>sent (psock p') = [''SCAN'']\<close> show ?thesis by blast
qed

end
