(* ===== verification/Program.thy ===== *)
theory Program
  imports Relay Ctrl_Open
begin

text \<open>
  \<^verbatim>\<open>main\<close> of \<^verbatim>\<open>src/src/wpa_ex.c\<close> as a whole: its argument check, opening and attaching the control
  connection, then the loop. The answers of \<^verbatim>\<open>poll\<close> are those for the standard input and for the
  descriptor \<^verbatim>\<open>wpa_ctrl_get_fd\<close> gives.
\<close>

section \<open>The program\<close>

text \<open>The static variables before \<^verbatim>\<open>main\<close> runs.\<close>

definition start_port :: "sock \<Rightarrow> read_answer list \<Rightarrow> out \<Rightarrow> port" where
  "start_port sk ins outs =
     \<lparr>erl_buffer_ix = 0, erl_buffer = replicate BUFFER_SIZE NUL,
      wpa_buffer = replicate BUFFER_SIZE NUL, psock = sk, stdin_answers = ins, stdout = outs\<rparr>"

text \<open>\<open>stack\<close> is the uninitialised buffer of the attach helper.\<close>

definition wpa_ex_main ::
  "bytes list \<Rightarrow> bytes \<Rightarrow> poll_answer list \<Rightarrow> sys \<Rightarrow> port \<Rightarrow> unit outcome \<times> sys \<times> port" where
  "wpa_ex_main argv stack polls k p =
     (if length argv \<noteq> 2 then (Exit 1 ''<path to supplicant control pipe>'', k, p)
      else
        (case wpa_ctrl_open (Some (argv ! 1)) k of
           (Ret (Some ctrl), k1) \<Rightarrow>
             (case wpa_ctrl_attach stack (psock p) of
                (Ret r, s1) \<Rightarrow>
                  (if r < 0 then (Exit 1 ''wpa_ctrl_attach'', k1, p\<lparr>psock := s1\<rparr>)
                   else (case main_loop polls (p\<lparr>psock := s1\<rparr>) of (out, p1) \<Rightarrow> (out, k1, p1)))
              | (Exit c x, s1) \<Rightarrow> (Exit c x, k1, p\<lparr>psock := s1\<rparr>)
              | (Blocked, s1) \<Rightarrow> (Blocked, k1, p\<lparr>psock := s1\<rparr>)
              | (Fault, s1) \<Rightarrow> (Fault, k1, p\<lparr>psock := s1\<rparr>))
         | (Ret None, k1) \<Rightarrow> (Exit 1 ''Could not open'', k1, p)
         | (Exit c x, k1) \<Rightarrow> (Exit c x, k1, p)
         | (Blocked, k1) \<Rightarrow> (Blocked, k1, p)
         | (Fault, k1) \<Rightarrow> (Fault, k1, p)))"

lemma start_port_ok: "port_ok (start_port sk ins outs)"
  by (simp add: port_ok_def start_port_def unread_def BUFFER_SIZE_def)

lemma port_ok_psock [simp]: "port_ok (p\<lparr>psock := sk\<rparr>) = port_ok p"
  by (simp add: port_ok_def unread_def)


section \<open>Properties of the program\<close>



text \<open>
  C6: when the connection opens and the daemon acknowledges, after any events, the first datagram the
  program sends is \<^verbatim>\<open>ATTACH\<close>, it enters its loop, and in every state the loop reaches, what it has sent
  is \<^verbatim>\<open>ATTACH\<close> followed by exactly the complete messages of the input read so far.
\<close>

theorem program_attaches_then_relays:
  assumes op: "wpa_ctrl_open (Some path) k = (Ret (Some ctrl), k1)" and stack: "length stack = 10"
    and sk: "send_answers sk = None # sa" "sent sk = []"
      "select_answers sk = replicate (Suc (length ns)) SelReady @ r"
      "recv_answers sk = map RecvMsg ns @ RecvMsg ''OK\<newline>'' # q"
    and ns: "\<forall>x \<in> set ns. unsolicited x"
  shows "\<exists>p1. wpa_ex_main [arg0, path] stack polls k (start_port sk ins outs) =
      (fst (main_loop polls p1), k1, snd (main_loop polls p1)) \<and>
    recv_answers (psock p1) = q \<and>
    (\<forall>p. reachable p1 p \<longrightarrow>
       (\<exists>input cs. input_of ins = input @ input_of (stdin_answers p) \<and>
          packets input = (cs, Partial (unread p)) \<and> sent (psock p) = ''ATTACH'' # cs))"
proof -
  have "\<not> unsolicited ''OK\<newline>''" by (simp add: unsolicited_def)
  from attach_helper_result [OF stack sk(1,3,4) ns this, of True] obtain s1 where
    at: "wpa_ctrl_attach stack sk = (Ret 0, s1)" and s1: "sent s1 = [''ATTACH'']" "recv_answers s1 = q"
    using sk(2) by (auto simp: wpa_ctrl_attach_def)
  let ?p1 = "(start_port sk ins outs)\<lparr>psock := s1\<rparr>"
  have "wpa_ex_main [arg0, path] stack polls k (start_port sk ins outs) =
      (fst (main_loop polls ?p1), k1, snd (main_loop polls ?p1))"
    using op at by (simp add: wpa_ex_main_def start_port_def split: prod.splits)
  moreover have "\<exists>input cs. input_of ins = input @ input_of (stdin_answers p) \<and>
      packets input = (cs, Partial (unread p)) \<and> sent (psock p) = ''ATTACH'' # cs"
    if "reachable ?p1 p" for p
  proof -
    have "relays ?p1 p" using reachable_relays [OF that] start_port_ok by simp
    moreover have "unread ?p1 = []" by (simp add: start_port_def unread_def)
    ultimately show ?thesis using s1 unfolding relays_def by (auto simp: start_port_def)
  qed
  ultimately show ?thesis using s1 by (intro exI [of _ ?p1]) simp
qed

theorem program_attaches_then_relays_witness:
  "\<exists>p1 k1. wpa_ex_main [''wpa_ex'' @ [NUL], ''/var/run/wlan0'' @ NUL # []] ''..........'' [] stale_sys
      (start_port (pong_sock\<lparr>recv_answers := [RecvMsg ''<2>EV'', RecvMsg ''OK\<newline>'']\<rparr>) [] \<lparr>writev_answers = [], written = []\<rparr>) =
    (Blocked, k1, p1) \<and> sent (psock p1) = [''ATTACH'']"
proof -
  let ?sk = "pong_sock\<lparr>recv_answers := [RecvMsg ''<2>EV'', RecvMsg ''OK\<newline>'']\<rparr>"
  obtain k1 where op: "wpa_ctrl_open (Some (''/var/run/wlan0'' @ NUL # [])) stale_sys =
      (Ret (Some (opened ''/var/run/wlan0'' 5 stale_sys)), k1)" using stale_open by blast
  have sk: "send_answers ?sk = None # []" "sent ?sk = []"
    "select_answers ?sk = replicate (Suc (length [''<2>EV''])) SelReady @ []"
    "recv_answers ?sk = map RecvMsg [''<2>EV''] @ RecvMsg ''OK\<newline>'' # []"
    "\<forall>x \<in> set [''<2>EV'']. unsolicited x" "length ''..........'' = 10"
    by (simp_all add: pong_sock_def unsolicited_def)
  from program_attaches_then_relays [OF op sk(6) sk(1-5), of "''wpa_ex'' @ [NUL]" "[]" "[]"
      "\<lparr>writev_answers = [], written = []\<rparr>"]
  obtain p1 where p1: "wpa_ex_main [''wpa_ex'' @ [NUL], ''/var/run/wlan0'' @ NUL # []] ''..........'' [] stale_sys
      (start_port ?sk [] \<lparr>writev_answers = [], written = []\<rparr>) = (Blocked, k1, p1)"
    and reach: "reachable p1 p1 \<longrightarrow> (\<exists>input cs. input_of [] = input @ input_of (stdin_answers p1) \<and>
      packets input = (cs, Partial (unread p1)) \<and> sent (psock p1) = ''ATTACH'' # cs)" by auto
  have "sent (psock p1) = [''ATTACH'']" using reach reachable.start by fastforce
  with p1 show ?thesis by blast
qed

text \<open>
  The length prefix is an inverse pair: a stream splits into the messages \<open>cs\<close> and an incomplete
  rest exactly when it is their frames followed by a rest that has no complete message, and no
  message longer than 2046 bytes has a frame the program accepts.
\<close>

theorem framing_round_trip:
  "packets xs = (cs, Partial r) \<longleftrightarrow>
   xs = concat (map frame cs) @ r \<and> packets r = ([], Partial r) \<and>
   list_all (\<lambda>c. length c \<le> 2046) cs"
proof
  assume "packets xs = (cs, Partial r)"
  from packets_Partial [OF this]
  show "xs = concat (map frame cs) @ r \<and> packets r = ([], Partial r) \<and>
      list_all (\<lambda>c. length c \<le> 2046) cs"
    by (auto simp: list_all_iff BUFFER_SIZE_def)
next
  assume r: "xs = concat (map frame cs) @ r \<and> packets r = ([], Partial r) \<and>
      list_all (\<lambda>c. length c \<le> 2046) cs"
  then have "\<forall>c \<in> set cs. length c + 2 \<le> BUFFER_SIZE" by (auto simp: list_all_iff BUFFER_SIZE_def)
  from packets_frames [OF this, of r] r show "packets xs = (cs, Partial r)" by simp
qed

end
