(* ===== verification/Output.thy ===== *)
theory Output
  imports Program
begin

text \<open>
  What the Erlang side sees of the port program (\<^verbatim>\<open>src/src/wpa_ex.c\<close>) in any run, also one that ends
  in the middle: whole frames, at the end perhaps the beginning of one.
\<close>

section \<open>Whole frames and the beginning of one\<close>

definition whole :: "bytes \<Rightarrow> bool" where
  "whole w \<longleftrightarrow> (\<exists>ms. w = concat (map frame ms) \<and> list_all (\<lambda>m. length m \<le> BUFFER_SIZE) ms)"

definition cut_short :: "bytes \<Rightarrow> bool" where
  "cut_short w \<longleftrightarrow> (\<exists>v m j. whole v \<and> length m \<le> BUFFER_SIZE \<and> w = v @ take j (frame m))"

text \<open>From one state of the output to another: whole frames when a value came back.\<close>

definition emits :: "'a outcome \<Rightarrow> out \<Rightarrow> out \<Rightarrow> bool" where
  "emits r st st' \<longleftrightarrow>
     (\<exists>w. written st' = written st @ w \<and> (case r of Ret _ \<Rightarrow> whole w | _ \<Rightarrow> cut_short w))"

lemma whole_append: "whole v \<Longrightarrow> whole w \<Longrightarrow> whole (v @ w)"
  unfolding whole_def by (elim exE conjE, rule exI) (rule conjI, simp flip: concat_append map_append, simp)

lemma whole_Nil: "whole []"
  unfolding whole_def by (rule exI [of _ "[]"]) simp

lemma whole_frame: "length m \<le> BUFFER_SIZE \<Longrightarrow> whole (frame m)"
  unfolding whole_def by (rule exI [of _ "[m]"]) simp

lemma cut_short_whole: "whole w \<Longrightarrow> cut_short w"
  unfolding cut_short_def by (rule exI [of _ w], rule exI [of _ "[]"], rule exI [of _ 0]) simp

lemma cut_short_append: "whole v \<Longrightarrow> cut_short w \<Longrightarrow> cut_short (v @ w)"
  unfolding cut_short_def using whole_append by (metis append.assoc)

lemma emits_refl [simp]: "emits r st st"
  using whole_Nil cut_short_whole by (auto simp: emits_def split: outcome.splits)

lemma emits_trans: "emits (Ret u) st st1 \<Longrightarrow> emits r st1 st2 \<Longrightarrow> emits r st st2"
  using whole_append cut_short_append unfolding emits_def
  by (cases r) (fastforce simp: emits_def)+

lemma emits_other: "emits r0 st st' \<Longrightarrow> \<forall>x. r \<noteq> Ret x \<Longrightarrow> emits r st st'"
  using cut_short_whole by (cases r0; cases r) (auto simp: emits_def)

lemma emits_Ret: "emits (Ret u) st st' = emits (Ret v) st st'"
  by (simp add: emits_def)

lemma emits_map: "emits r st st' \<Longrightarrow> emits (map_outcome f r) st st'"
  by (cases r) (simp_all add: emits_def)

section \<open>The operations\<close>

lemma send_to_erl_emits:
  assumes "k \<le> length b" and "k \<le> BUFFER_SIZE" and "send_to_erl b k st = (r, st')"
  shows "emits r st st'"
proof -
  have len: "length (take k b) \<le> BUFFER_SIZE" using assms(2) by simp
  show ?thesis
  proof (cases "r = Ret ()")
    case True
    then show ?thesis using send_to_erl_result [OF assms(1,3)] whole_frame [OF len] by (simp add: emits_def)
  next
    case False
    then obtain j where "written st' = written st @ take j (frame (take k b))"
      using send_to_erl_result [OF assms(1,3)] by auto
    moreover have "cut_short (take j (frame (take k b)))"
      unfolding cut_short_def using whole_Nil len by (metis append_Nil)
    ultimately show ?thesis using False by (cases r) (auto simp: emits_def)
  qed
qed

lemma await_reply_emits:
  "await_reply erl_message n sel rcv st = (r, x, st') \<Longrightarrow> n \<le> BUFFER_SIZE \<Longrightarrow> emits r st st'"
proof (induction "erl_message" n sel rcv st arbitrary: r x st' rule: await_reply.induct)
  case (6 n q m rcv st)
  obtain o1 st1 where g: "erl_message (notice n m) st = (o1, st1)" by (cases "erl_message (notice n m) st")
  have "length (notice n m) \<le> BUFFER_SIZE" using length_notice [of n m] 6(3) by simp
  note e = send_to_erl_emits [OF order_refl this g]
  show ?case
  proof (cases "unsolicited m")
    case False
    then show ?thesis using 6(2) by simp
  next
    case True
    show ?thesis
    proof (cases o1)
      case (Ret u)
      have "await_reply erl_message n q rcv st1 = (r, x, st')" using 6(2) True g Ret by simp
      from 6(1) [OF True g [symmetric] Ret this 6(3)] show ?thesis
        by (rule emits_trans [OF e [unfolded Ret]])
    qed (use 6(2) True g e in \<open>auto simp: emits_def\<close>)
  qed
qed auto

lemma do_wpa_request_emits:
  assumes wb: "length (wpa_buffer p) = BUFFER_SIZE" and req: "do_wpa_request cmd k p = (r, p')"
  shows "emits r (stdout p) (stdout p')"
proof -
  have n: "0 < BUFFER_SIZE" "BUFFER_SIZE \<le> length (wpa_buffer p)" using wb by (simp_all add: BUFFER_SIZE_def)
  obtain o1 s1 st1 where w: "wpa_ctrl_request (Some send_to_erl) cmd k (wpa_buffer p) BUFFER_SIZE
      (psock p) (stdout p) = (o1, s1, st1)"
    by (cases "wpa_ctrl_request (Some send_to_erl) cmd k (wpa_buffer p) BUFFER_SIZE (psock p) (stdout p)")
  from erl_callback.request_awaits [OF w n] have e: "emits o1 (stdout p) st1"
  proof (elim disjE exE)
    fix s2 x assume "await_reply erl_message BUFFER_SIZE (select_answers s2) (recv_answers s2) (stdout p) =
        (map_outcome abs_reply o1, x, st1)"
    from await_reply_emits [OF this] show ?thesis by (cases o1) (simp_all add: emits_def)
  qed simp
  show ?thesis
  proof (cases "\<exists>buf len. o1 = Ret (0, buf, len)")
    case True
    then obtain buf len where o1: "o1 = Ret (0, buf, len)" by blast
    have "len \<le> length buf" "len \<le> BUFFER_SIZE"
      using erl_callback.request_success [OF w [unfolded o1] n] wb by auto
    moreover obtain r2 st2 where "send_to_erl buf len st1 = (r2, st2)" by (cases "send_to_erl buf len st1")
    ultimately show ?thesis using send_to_erl_emits e o1 req w emits_trans
      by (fastforce simp: do_wpa_request_def Let_def)
  next
    case False
    then have r: "\<forall>x. r \<noteq> Ret x" and "stdout p' = st1"
      using req w erl_callback.request_codes [OF _ n] by (cases o1; force simp: do_wpa_request_def Let_def)+
    then show ?thesis using emits_other [OF e r] by simp
  qed
qed

lemma requests_emit:
  "deliver request cs p = (r, p') \<Longrightarrow> length (wpa_buffer p) = BUFFER_SIZE \<Longrightarrow>
   emits r (stdout p) (stdout p')"
proof (induction cs arbitrary: p)
  case (Cons c cs)
  obtain o1 p1 where q: "request c p = (o1, p1)" by (cases "request c p")
  note e = do_wpa_request_emits [OF Cons.prems(2) q]
  show ?case
  proof (cases "o1 = Ret ()")
    case True
    have "length (wpa_buffer p1) = BUFFER_SIZE"
      using do_wpa_request_relays [OF q [unfolded True] Cons.prems(2)] by simp
    then have "emits r (stdout p1) (stdout p')" using Cons.IH Cons.prems(1) q True by simp
    then show ?thesis by (rule emits_trans [OF e [unfolded True]])
  next
    case False
    then have "r = o1" "p' = p1" using Cons.prems(1) q by (cases o1; simp)+
    then show ?thesis using e by simp
  qed
qed simp

lemma process_erl_emits:
  assumes ok: "port_ok p" and pe: "process_erl p = (r, p')"
  shows "emits r (stdout p) (stdout p')"
proof -
  consider "stdin_answers p = []" | e q where "stdin_answers p = ReadError e # q"
    | q where "stdin_answers p = ReadData [] # q"
    | bs q where "stdin_answers p = ReadData bs # q" "bs \<noteq> []"
    by (metis list.exhaust read_answer.exhaust)
  then show ?thesis
  proof cases
    case (4 bs q)
    let ?got = "take (BUFFER_SIZE - erl_buffer_ix p) bs"
    obtain cs t where pk: "packets (unread p @ ?got) = (cs, t)" by (cases "packets (unread p @ ?got)")
    from process_erl_refines [OF ok 4 pk] obtain b i q' where
      eq: "process_erl p =
        apsnd (relocate b i) (bind_out (deliver request cs (p\<lparr>stdin_answers := q'\<rparr>)) (\<lambda>_. finish t))"
      by blast
    obtain o1 p1 where d: "deliver request cs (p\<lparr>stdin_answers := q'\<rparr>) = (o1, p1)"
      by (cases "deliver request cs (p\<lparr>stdin_answers := q'\<rparr>)")
    have e: "emits o1 (stdout p) (stdout p1)" using requests_emit [OF d] ok by (simp add: port_ok_def)
    have "stdout p' = stdout p1" using eq d pe by (cases o1; cases t) (auto simp: relocate_def)
    moreover have "r = o1 \<or> (\<forall>x. r \<noteq> Ret x)" using eq d pe by (cases o1; cases t) auto
    ultimately show ?thesis using e emits_other [OF e, of r] by auto
  qed (use pe in \<open>auto simp: process_erl_def Let_def split: if_splits\<close>)
qed

lemma process_wpa_emits:
  "process_wpa p = (r, p') \<Longrightarrow> length (wpa_buffer p) = BUFFER_SIZE \<Longrightarrow> emits r (stdout p) (stdout p')"
proof (induction "length (select_answers (psock p))" arbitrary: p)
  case 0
  then show ?case by (subst (asm) process_wpa.simps) (auto simp: wpa_ctrl_pending_def)
next
  case (Suc k)
  show ?case
  proof (cases "\<exists>a l m q. select_answers (psock p) = a # l \<and> a \<noteq> SelTimeout \<and>
      recv_answers (psock p) = RecvMsg m # q")
    case False
    from process_wpa_other [OF False] Suc.prems show ?thesis by auto
  next
    case True
    then obtain a l m q where a: "select_answers (psock p) = a # l" "a \<noteq> SelTimeout"
      "recv_answers (psock p) = RecvMsg m # q" by blast
    let ?d = "take BUFFER_SIZE m"
    obtain o0 o1 where w: "erl_message ?d (stdout p) = (o0, o1)" by (cases "erl_message ?d (stdout p)")
    have e: "emits o0 (stdout p) o1" by (rule send_to_erl_emits [OF order_refl _ w]) simp
    from process_wpa_message [OF Suc.prems(2) a] obtain buf where buf: "length buf = BUFFER_SIZE"
      and eq: "process_wpa p =
      (let p1 = p\<lparr>wpa_buffer := buf, psock := (psock p)\<lparr>select_answers := l, recv_answers := q\<rparr>\<rparr>
       in case (o0, o1) of
            (Ret _, o1) \<Rightarrow> process_wpa (p1\<lparr>stdout := o1\<rparr>)
          | (Exit c x, o1) \<Rightarrow> (Exit c x, p1\<lparr>stdout := o1\<rparr>)
          | (Blocked, o1) \<Rightarrow> (Blocked, p1\<lparr>stdout := o1\<rparr>)
          | (Fault, o1) \<Rightarrow> (Fault, p1\<lparr>stdout := o1\<rparr>))" unfolding w by blast
    let ?p1 = "p\<lparr>wpa_buffer := buf, psock := (psock p)\<lparr>select_answers := l, recv_answers := q\<rparr>,
        stdout := o1\<rparr>"
    show ?thesis
    proof (cases "o0 = Ret ()")
      case True
      then have "process_wpa ?p1 = (r, p')" using eq Suc.prems(1) by (simp add: Let_def)
      then have "emits r (stdout ?p1) (stdout p')"
        using Suc.hyps a buf by (intro Suc.hyps(1) [of ?p1]) auto
      then show ?thesis using emits_trans [OF e [unfolded True]] by simp
    next
      case False
      then have "r = o0" "stdout p' = o1" using eq Suc.prems(1) by (cases o0; auto simp: Let_def)+
      then show ?thesis using e by simp
    qed
  qed
qed

lemma main_iter_emits:
  assumes ok: "port_ok p" and it: "main_iter a p = (r, p')"
  shows "emits r (stdout p) (stdout p')"
proof (cases a)
  case (PollError e)
  then show ?thesis using it by (auto simp: main_iter_def split: if_splits)
next
  case (PollReady r0 r1)
  obtain o1 p1 where b: "(if r0 AND (POLLIN OR POLLHUP) \<noteq> 0 then process_erl p else (Ret (), p)) = (o1, p1)"
    by fastforce
  have e1: "emits o1 (stdout p) (stdout p1)"
    using b process_erl_emits [OF ok] by (auto split: if_splits)
  show ?thesis
  proof (cases "o1 = Ret ()")
    case True
    then have "length (wpa_buffer p1) = BUFFER_SIZE"
      using b ok process_erl_step [OF ok] by (auto simp: port_ok_def split: if_splits)
    then have "emits r (stdout p1) (stdout p')"
      using it PollReady b True process_wpa_emits [of p1] by (auto simp: main_iter_def split: if_splits)
    then show ?thesis by (rule emits_trans [OF e1 [unfolded True]])
  next
    case False
    then have "r = o1" "p' = p1" using it PollReady b by (cases o1; simp add: main_iter_def)+
    then show ?thesis using e1 by simp
  qed
qed

lemma main_loop_emits:
  "port_ok p \<Longrightarrow> main_loop polls p = (r, p') \<Longrightarrow> emits r (stdout p) (stdout p')"
proof (induction polls arbitrary: p)
  case (Cons a polls)
  obtain o1 p1 where it: "main_iter a p = (o1, p1)" by (cases "main_iter a p")
  note e = main_iter_emits [OF Cons.prems(1) it]
  show ?case
  proof (cases "o1 = Ret ()")
    case True
    then have "port_step p p1" using it by (auto intro: port_step.turn)
    then have "port_ok p1" using port_step_relays Cons.prems(1) by blast
    then have "emits r (stdout p1) (stdout p')" using Cons.IH Cons.prems(2) it True by simp
    then show ?thesis by (rule emits_trans [OF e [unfolded True]])
  next
    case False
    then have "r = o1" "p' = p1" using it Cons.prems(2) by (cases o1; simp)+
    then show ?thesis using e by simp
  qed
qed auto

section \<open>The stream Erlang reads\<close>

text \<open>
  C8: however the program ends or is stopped, what it has written is a series of whole frames of at most
  2048 bytes each, followed at most by the beginning of one more: Erlang never reads a length that
  does not fit its message.
\<close>

theorem output_well_framed:
  assumes "wpa_ex_main argv stack polls k (start_port sk ins outs) = (r, k', p')"
  shows "\<exists>ms m j. written (stdout p') = written outs @ concat (map frame ms) @ take j (frame m) \<and>
    list_all (\<lambda>m. length m \<le> 2048) (m # ms)"
proof -
  have st: "stdout (start_port sk ins outs) = outs" by (simp add: start_port_def)
  obtain out :: "unit outcome" where e: "emits out outs (stdout p')"
  proof (cases "\<exists>s1. main_loop polls ((start_port sk ins outs)\<lparr>psock := s1\<rparr>) = (r, p')")
    case True
    then obtain s1 where "main_loop polls ((start_port sk ins outs)\<lparr>psock := s1\<rparr>) = (r, p')" by blast
    from main_loop_emits [OF _ this] start_port_ok have "emits r outs (stdout p')" by (simp add: st)
    then show ?thesis by (rule that)
  next
    case False
    then have "stdout p' = outs"
      using assms st by (auto simp: wpa_ex_main_def split: if_splits prod.splits outcome.splits option.splits)
    then show ?thesis using that [of "Ret ()"] by simp
  qed
  then obtain w where w: "written (stdout p') = written outs @ w" "cut_short w"
    using cut_short_whole by (cases out) (auto simp: emits_def)
  then obtain ms m j where "w = concat (map frame ms) @ take j (frame m)"
    "list_all (\<lambda>m. length m \<le> BUFFER_SIZE) ms" "length m \<le> BUFFER_SIZE"
    by (auto simp: cut_short_def whole_def)
  then show ?thesis using w by (intro exI [of _ ms] exI [of _ m] exI [of _ j]) (simp add: BUFFER_SIZE_def)
qed

theorem output_well_framed_witness:
  "\<exists>r k' p' ms m j. wpa_ex_main [''wpa_ex'' @ [NUL], ''/var/run/wlan0'' @ [NUL]] ''..........''
      [PollReady 1 0] stale_sys (start_port (pong_sock\<lparr>recv_answers := [RecvMsg ''OK\<newline>'', RecvMsg ''PONG'']\<rparr>)
        [ReadData (frame ''PING'')] \<lparr>writev_answers = [WriteAmount 3], written = ''seen''\<rparr>) = (r, k', p') \<and>
    written (stdout p') = ''seen'' @ concat (map frame ms) @ take j (frame m)"
proof -
  obtain r k' p' where run: "wpa_ex_main [''wpa_ex'' @ [NUL], ''/var/run/wlan0'' @ [NUL]] ''..........''
      [PollReady 1 0] stale_sys (start_port (pong_sock\<lparr>recv_answers := [RecvMsg ''OK\<newline>'', RecvMsg ''PONG'']\<rparr>)
        [ReadData (frame ''PING'')] \<lparr>writev_answers = [WriteAmount 3], written = ''seen''\<rparr>) = (r, k', p')"
    by (metis prod_cases3)
  from output_well_framed [OF run] show ?thesis using run by auto
qed

end
