(* ===== verification/Os_Trace.thy ===== *)
theory Os_Trace
  imports Prelude
begin

text \<open>
  The tracing allocator of \<^verbatim>\<open>src/src/wpa_ctrl/os_unix.c\<close> (\<^verbatim>\<open>WPA_TRACE\<close>): every block carries a header
  with a magic number and its length, and all live blocks are in the list \<^verbatim>\<open>alloc_list\<close>, from which
  \<^verbatim>\<open>os_program_deinit\<close> reports what was never freed. The list operations and the recorder of stack
  traces (\<^verbatim>\<open>list.h\<close>, \<^verbatim>\<open>trace.h\<close>) are not in the repository; they and the C library's allocator are
  the fields of the record \<open>lib\<close>, and \<open>lib_ok\<close> says what the code relies on. Of what is printed, the
  messages before an abort are their texts without addresses, and the reports of leaks are values.
\<close>

section \<open>State\<close>

definition ALLOC_MAGIC :: u32 where
  "ALLOC_MAGIC = 0xa84ef1b2"

definition FREED_MAGIC :: u32 where
  "FREED_MAGIC = 0x67fd487a"

text \<open>
  A block is its header (\<^verbatim>\<open>struct os_alloc_trace\<close>, less the links and the stack trace) and the bytes
  behind it. A pointer is \<open>None\<close> for \<^verbatim>\<open>NULL\<close>, else \<open>Some a\<close> where \<open>a\<close> is the address of the header
  before the byte pointed at, so that \<^verbatim>\<open>a + 1\<close> and \<^verbatim>\<open>(struct os_alloc_trace *) ptr - 1\<close> change nothing.
\<close>

record trace_block =
  magic :: u32
  len :: size_t
  payload :: bytes

type_synonym ptr = "nat option"

text \<open>
  \<open>memory\<close> is what lies at an address, whether it is allocated or not; \<open>live\<close> are the blocks
  the C library has given out.
\<close>

record 'l trace_heap =
  memory :: "nat \<Rightarrow> trace_block"
  live :: "nat list"
  alloc_list :: 'l

text \<open>
  The environment: \<^verbatim>\<open>sizeof(struct os_alloc_trace)\<close>, the address \<^verbatim>\<open>malloc\<close> gives for a number of bytes
  while certain blocks are live, what fresh memory contains, what \<^verbatim>\<open>free\<close> leaves of a block, whether
  \<^verbatim>\<open>wpa_trace_check_ref\<close> finds no reference to a block, and the list.
\<close>

record 'l lib =
  hdr_size :: size_t
  malloc_at :: "nat list \<Rightarrow> size_t \<Rightarrow> nat option"
  fresh_bytes :: "nat \<Rightarrow> nat \<Rightarrow> bytes"
  leftover :: "nat \<Rightarrow> trace_block \<Rightarrow> trace_block"
  no_refs :: "nat \<Rightarrow> bool"
  dl_list_init :: 'l
  dl_list_add :: "'l \<Rightarrow> nat \<Rightarrow> 'l"
  dl_list_del :: "nat \<Rightarrow> 'l \<Rightarrow> 'l"
  dl_list_elems :: "'l \<Rightarrow> nat list"

definition lib_ok :: "'l lib \<Rightarrow> bool" where
  "lib_ok L \<longleftrightarrow>
     (\<forall>as n a. malloc_at L as n = Some a \<longrightarrow> a \<notin> set as) \<and>
     (\<forall>a n. length (fresh_bytes L a n) = n) \<and>
     dl_list_elems L (dl_list_init L) = [] \<and>
     (\<forall>l a. dl_list_elems L (dl_list_add L l a) = a # dl_list_elems L l) \<and>
     (\<forall>l a. a \<in> set (dl_list_elems L l) \<longrightarrow>
        dl_list_elems L (dl_list_del L a l) = remove1 a (dl_list_elems L l))"

section \<open>Allocating and freeing\<close>

text \<open>The status of a process that \<^verbatim>\<open>abort\<close> ends, as a shell shows it.\<close>

definition abort_status :: int where
  "abort_status = 134"

definition magic_note :: "u32 \<Rightarrow> string" where
  "magic_note m = (if m = FREED_MAGIC then '' (already freed)'' else [])"

text \<open>
  The sum \<^verbatim>\<open>sizeof(*a) + size\<close> is one of \<^verbatim>\<open>size_t\<close> and wraps; filling in the header of a block that is
  smaller than it leaves the block.
\<close>

definition os_malloc :: "'l lib \<Rightarrow> size_t \<Rightarrow> 'l trace_heap \<Rightarrow> ptr outcome \<times> 'l trace_heap" where
  "os_malloc L sz h =
     (case malloc_at L (live h) (hdr_size L + sz) of
        None \<Rightarrow> (Ret None, h)
      | Some a \<Rightarrow>
          (let room = unat (hdr_size L + sz);
               hd = unat (hdr_size L)
           in if room < hd then (Fault, h\<lparr>live := a # live h\<rparr>)
              else
                (Ret (Some a),
                 h\<lparr>live := a # live h,
                   memory := (memory h)(a :=
                     \<lparr>magic = ALLOC_MAGIC, len = sz, payload = fresh_bytes L a (room - hd)\<rparr>),
                   alloc_list := dl_list_add L (alloc_list h) a\<rparr>)))"

definition os_free :: "'l lib \<Rightarrow> ptr \<Rightarrow> 'l trace_heap \<Rightarrow> unit outcome \<times> 'l trace_heap" where
  "os_free L ptr h =
     (case ptr of
        None \<Rightarrow> (Ret (), h)
      | Some a \<Rightarrow>
          (if magic (memory h a) \<noteq> ALLOC_MAGIC then
             (Exit abort_status (''FREE: invalid magic'' @ magic_note (magic (memory h a))), h)
           else
             (let b = (memory h a)\<lparr>magic := FREED_MAGIC\<rparr>;
                  h1 = h\<lparr>alloc_list := dl_list_del L a (alloc_list h), memory := (memory h)(a := b)\<rparr>
              in if \<not> no_refs L a then (Exit abort_status ''Freeing referenced memory'', h1)
                 else if a \<notin> set (live h1) then (Fault, h1)
                 else
                   (Ret (),
                    h1\<lparr>live := remove1 a (live h1), memory := (memory h1)(a := leftover L a b)\<rparr>))))"

text \<open>Storing bytes in a block.\<close>

definition store_bytes :: "nat \<Rightarrow> nat \<Rightarrow> bytes \<Rightarrow> 'l trace_heap \<Rightarrow> 'l trace_heap option" where
  "store_bytes a off xs h =
     (case mem_write off xs (payload (memory h a)) of
        None \<Rightarrow> None
      | Some p \<Rightarrow> Some (h\<lparr>memory := (memory h)(a := (memory h a)\<lparr>payload := p\<rparr>)\<rparr>))"

definition os_realloc ::
  "'l lib \<Rightarrow> ptr \<Rightarrow> size_t \<Rightarrow> 'l trace_heap \<Rightarrow> ptr outcome \<times> 'l trace_heap" where
  "os_realloc L ptr sz h =
     (case ptr of
        None \<Rightarrow> os_malloc L sz h
      | Some a \<Rightarrow>
          (if magic (memory h a) \<noteq> ALLOC_MAGIC then
             (Exit abort_status (''REALLOC: invalid magic'' @ magic_note (magic (memory h a))), h)
           else
             bind_out (os_malloc L sz h)
               (\<lambda>n h1.
                  case n of
                    None \<Rightarrow> (Ret None, h1)
                  | Some na \<Rightarrow>
                      (let copy_len = (if len (memory h1 a) > sz then sz else len (memory h1 a))
                       in case mem_read 0 (unat copy_len) (payload (memory h1 a)) of
                            None \<Rightarrow> (Fault, h1)
                          | Some xs \<Rightarrow>
                              (case store_bytes na 0 xs h1 of
                                 None \<Rightarrow> (Fault, h1)
                               | Some h2 \<Rightarrow>
                                   bind_out (os_free L ptr h2) (\<lambda>_ h3. (Ret n, h3)))))))"

definition os_zalloc :: "'l lib \<Rightarrow> size_t \<Rightarrow> 'l trace_heap \<Rightarrow> ptr outcome \<times> 'l trace_heap" where
  "os_zalloc L sz h =
     bind_out (os_malloc L sz h)
       (\<lambda>ptr h1.
          case ptr of
            None \<Rightarrow> (Ret None, h1)
          | Some a \<Rightarrow>
              (case store_bytes a 0 (replicate (unat sz) NUL) h1 of
                 None \<Rightarrow> (Fault, h1)
               | Some h2 \<Rightarrow> (Ret ptr, h2)))"

text \<open>\<open>s\<close> is the memory from the pointer on.\<close>

definition os_strdup :: "'l lib \<Rightarrow> bytes \<Rightarrow> 'l trace_heap \<Rightarrow> ptr outcome \<times> 'l trace_heap" where
  "os_strdup L s h =
     (case c_strlen s of
        None \<Rightarrow> (Fault, h)
      | Some n \<Rightarrow>
          bind_out (os_malloc L (of_nat n + 1) h)
            (\<lambda>d h1.
               case d of
                 None \<Rightarrow> (Ret None, h1)
               | Some a \<Rightarrow>
                   (case Option.bind (store_bytes a 0 (take n s) h1) (store_bytes a n [NUL]) of
                      None \<Rightarrow> (Fault, h1)
                    | Some h2 \<Rightarrow> (Ret d, h2))))"

section \<open>Start and end of the program\<close>

definition os_program_init :: "'l lib \<Rightarrow> 'l trace_heap \<Rightarrow> int \<times> 'l trace_heap" where
  "os_program_init L h = (0, h\<lparr>alloc_list := dl_list_init L\<rparr>)"

text \<open>The lines \<^verbatim>\<open>os_program_deinit\<close> prints.\<close>

datatype report = Memleak nat size_t | Invalid_magic nat u32 size_t | Leak_total u64

fun deinit_loop :: "(nat \<Rightarrow> trace_block) \<Rightarrow> nat list \<Rightarrow> u64 \<Rightarrow> report list \<times> u64" where
  "deinit_loop m [] tot = ([], tot)"
| "deinit_loop m (a # as) tot =
     (let (rs, t) = deinit_loop m as (tot + len (m a))
      in ((if magic (m a) \<noteq> ALLOC_MAGIC then Invalid_magic a (magic (m a)) (len (m a))
           else Memleak a (len (m a))) # rs, t))"

definition os_program_deinit :: "'l lib \<Rightarrow> 'l trace_heap \<Rightarrow> report list" where
  "os_program_deinit L h =
     (let (rs, tot) = deinit_loop (memory h) (dl_list_elems L (alloc_list h)) 0
      in rs @ (if tot \<noteq> 0 then [Leak_total tot] else []))"

section \<open>Invariant\<close>

text \<open>
  The list holds exactly the live blocks, and each of them carries its tag and as many bytes as its
  header says.
\<close>

definition heap_ok :: "'l lib \<Rightarrow> 'l trace_heap \<Rightarrow> bool" where
  "heap_ok L h \<longleftrightarrow>
     distinct (live h) \<and> dl_list_elems L (alloc_list h) = live h \<and>
     (\<forall>a \<in> set (live h). magic (memory h a) = ALLOC_MAGIC \<and>
        length (payload (memory h a)) = unat (len (memory h a)))"

text \<open>The heap as a client sees it: the bytes behind each pointer it holds.\<close>

definition client_heap :: "'l trace_heap \<Rightarrow> nat \<rightharpoonup> bytes" where
  "client_heap h a = (if a \<in> set (live h) then Some (payload (memory h a)) else None)"

definition fits :: "'l lib \<Rightarrow> size_t \<Rightarrow> bool" where
  "fits L sz \<longleftrightarrow> unat (hdr_size L) + unat sz < 2 ^ 64"

named_theorems heap_defs \<open>unfolding the invariant and the abstraction\<close>

declare heap_ok_def [heap_defs] client_heap_def [heap_defs] fun_eq_iff [heap_defs]

lemma lib_okD:
  assumes "lib_ok L"
  shows "malloc_at L as n = Some a \<Longrightarrow> a \<notin> set as"
    and "length (fresh_bytes L a k) = k"
    and "dl_list_elems L (dl_list_init L) = []"
    and "dl_list_elems L (dl_list_add L l a) = a # dl_list_elems L l"
    and "a \<in> set (dl_list_elems L l) \<Longrightarrow>
      dl_list_elems L (dl_list_del L a l) = remove1 a (dl_list_elems L l)"
  using assms by (auto simp: lib_ok_def)

text \<open>The sum has wrapped exactly when it is smaller than the header.\<close>

lemma room_less: "unat (hdr_size L + sz) < unat (hdr_size L) \<longleftrightarrow> \<not> fits L sz"
proof -
  have "unat sz < 2 ^ 64" "unat (hdr_size L) < 2 ^ 64"
    using unsigned_less [of sz] unsigned_less [of "hdr_size L"] by simp_all
  moreover have "unat (hdr_size L + sz) = (unat (hdr_size L) + unat sz) mod 2 ^ 64"
    by (simp add: unat_word_ariths)
  ultimately show ?thesis
    by (cases "unat (hdr_size L) + unat sz < 2 ^ 64") (auto simp: fits_def mod_if split: if_splits)
qed

lemma room_fits: "fits L sz \<Longrightarrow> unat (hdr_size L + sz) - unat (hdr_size L) = unat sz"
  by (simp add: fits_def unat_word_ariths)

lemma os_malloc_fits:
  "fits L sz \<Longrightarrow> os_malloc L sz h =
     (case malloc_at L (live h) (hdr_size L + sz) of
        None \<Rightarrow> (Ret None, h)
      | Some a \<Rightarrow>
          (Ret (Some a),
           h\<lparr>live := a # live h,
             memory := (memory h)(a := \<lparr>magic = ALLOC_MAGIC, len = sz, payload = fresh_bytes L a (unat sz)\<rparr>),
             alloc_list := dl_list_add L (alloc_list h) a\<rparr>))"
  using room_less [of L sz] room_fits [of L sz] by (auto simp: os_malloc_def Let_def split: option.split)

text \<open>One fact for each operation on a heap in order: what it returns, and what the client then holds.\<close>

lemma os_malloc_ok:
  assumes "lib_ok L" and "heap_ok L h" and "fits L sz"
  shows "\<exists>r h'. os_malloc L sz h = (Ret r, h') \<and> heap_ok L h' \<and>
    (case r of None \<Rightarrow> h' = h
     | Some a \<Rightarrow> a \<notin> set (live h) \<and> live h' = a # live h \<and>
         (\<forall>b. b \<noteq> a \<longrightarrow> memory h' b = memory h b) \<and> len (memory h' a) = sz \<and>
         length (payload (memory h' a)) = unat sz)"
proof (cases "malloc_at L (live h) (hdr_size L + sz)")
  case None
  then show ?thesis using assms(2) by (simp add: os_malloc_fits [OF assms(3)])
next
  case (Some a)
  then have "a \<notin> set (live h)" by (rule lib_okD(1) [OF assms(1)])
  then show ?thesis using Some assms(2) lib_okD [OF assms(1)]
    by (auto simp: os_malloc_fits [OF assms(3)] heap_ok_def)
qed

lemma store_bytes_ok:
  assumes "heap_ok L h" and "a \<in> set (live h)" and "off + length xs \<le> length (payload (memory h a))"
  shows "\<exists>h'. store_bytes a off xs h = Some h' \<and> heap_ok L h' \<and> live h' = live h \<and>
    memory h' = (memory h)(a := (memory h a)\<lparr>payload :=
      take off (payload (memory h a)) @ xs @ drop (off + length xs) (payload (memory h a))\<rparr>)"
  using assms by (auto simp: store_bytes_def heap_ok_def mem_write_def)

lemma os_free_ok:
  assumes "lib_ok L" and "heap_ok L h" and "a \<in> set (live h)" and "no_refs L a"
  shows "\<exists>h'. os_free L (Some a) h = (Ret (), h') \<and> heap_ok L h' \<and> live h' = remove1 a (live h) \<and>
    (\<forall>b. b \<noteq> a \<longrightarrow> memory h' b = memory h b) \<and>
    memory h' a = leftover L a ((memory h a)\<lparr>magic := FREED_MAGIC\<rparr>)"
  using assms lib_okD(5) [OF assms(1), of a "alloc_list h"]
  by (auto simp: os_free_def heap_ok_def Let_def)

lemma os_zalloc_ok:
  assumes "lib_ok L" and "heap_ok L h" and "fits L sz"
  shows "\<exists>r h'. os_zalloc L sz h = (Ret r, h') \<and> heap_ok L h' \<and>
    (case r of None \<Rightarrow> h' = h
     | Some a \<Rightarrow> a \<notin> set (live h) \<and> live h' = a # live h \<and>
         (\<forall>b. b \<noteq> a \<longrightarrow> memory h' b = memory h b) \<and> payload (memory h' a) = replicate (unat sz) NUL)"
proof -
  obtain r h1 where m: "os_malloc L sz h = (Ret r, h1)" "heap_ok L h1"
    "case r of None \<Rightarrow> h1 = h | Some a \<Rightarrow> a \<notin> set (live h) \<and> live h1 = a # live h \<and>
       (\<forall>b. b \<noteq> a \<longrightarrow> memory h1 b = memory h b) \<and> len (memory h1 a) = sz \<and>
       length (payload (memory h1 a)) = unat sz"
    using os_malloc_ok [OF assms] by blast
  show ?thesis
  proof (cases r)
    case None
    then show ?thesis using m assms(2) by (simp add: os_zalloc_def)
  next
    case (Some a)
    with m(3) have a: "a \<in> set (live h1)" "length (payload (memory h1 a)) = unat sz" by simp_all
    from store_bytes_ok [OF m(2) a(1), of 0 "replicate (unat sz) NUL"] a(2) obtain h' where
      "store_bytes a 0 (replicate (unat sz) NUL) h1 = Some h'" "heap_ok L h'" "live h' = live h1"
      "memory h' = (memory h1)(a := (memory h1 a)\<lparr>payload := replicate (unat sz) NUL\<rparr>)" by auto
    then show ?thesis using m(1,3) Some by (auto simp: os_zalloc_def)
  qed
qed

lemma os_strdup_ok:
  assumes "lib_ok L" and "heap_ok L h" and "fits L (of_nat (length str) + 1)" and "NUL \<notin> set str"
    and "length str + 1 < 2 ^ 64"
  shows "\<exists>r h'. os_strdup L (str @ NUL # rest) h = (Ret r, h') \<and> heap_ok L h' \<and>
    (case r of None \<Rightarrow> h' = h
     | Some a \<Rightarrow> a \<notin> set (live h) \<and> live h' = a # live h \<and>
         (\<forall>b. b \<noteq> a \<longrightarrow> memory h' b = memory h b) \<and> payload (memory h' a) = str @ [NUL])"
proof -
  let ?sz = "of_nat (length str) + 1 :: size_t"
  have sz: "unat ?sz = length str + 1"
  proof -
    have "?sz = of_nat (Suc (length str))" by simp
    then show ?thesis using assms(5)
      by (simp only: unsigned_of_nat) (simp add: take_bit_nat_eq_self)
  qed
  obtain r h1 where m: "os_malloc L ?sz h = (Ret r, h1)" "heap_ok L h1"
    "case r of None \<Rightarrow> h1 = h | Some a \<Rightarrow> a \<notin> set (live h) \<and> live h1 = a # live h \<and>
       (\<forall>b. b \<noteq> a \<longrightarrow> memory h1 b = memory h b) \<and> len (memory h1 a) = ?sz \<and>
       length (payload (memory h1 a)) = unat ?sz"
    using os_malloc_ok [OF assms(1-3)] by blast
  show ?thesis
  proof (cases r)
    case None
    then show ?thesis using m assms(2,4) by (simp add: os_strdup_def)
  next
    case (Some a)
    let ?p = "payload (memory h1 a)"
    from Some m(3) sz have a: "a \<in> set (live h1)" "length ?p = length str + 1" by simp_all
    obtain h2 where h2: "store_bytes a 0 str h1 = Some h2" "heap_ok L h2" "live h2 = live h1"
      "memory h2 = (memory h1)(a := (memory h1 a)\<lparr>payload := str @ drop (length str) ?p\<rparr>)"
      using store_bytes_ok [OF m(2) a(1), of 0 str] a(2) by auto
    then have "a \<in> set (live h2)" "length str + length [NUL] \<le> length (payload (memory h2 a))"
      using a by simp_all
    from store_bytes_ok [OF h2(2) this] obtain h' where
      "store_bytes a (length str) [NUL] h2 = Some h'" "heap_ok L h'" "live h' = live h1"
      "memory h' = (memory h1)(a := (memory h1 a)\<lparr>payload := str @ [NUL]\<rparr>)"
      using h2 a(2) by auto
    then show ?thesis using m(1,3) Some h2(1) assms(4) by (auto simp: os_strdup_def)
  qed
qed

lemma os_realloc_ok:
  assumes "lib_ok L" and "heap_ok L h" and "fits L sz" and "a \<in> set (live h)" and "no_refs L a"
  shows "\<exists>r h'. os_realloc L (Some a) sz h = (Ret r, h') \<and> heap_ok L h' \<and>
    (case r of None \<Rightarrow> h' = h
     | Some n \<Rightarrow> n \<notin> set (live h) \<and> live h' = remove1 a (n # live h) \<and>
         (\<forall>b. b \<noteq> a \<and> b \<noteq> n \<longrightarrow> memory h' b = memory h b) \<and>
         length (payload (memory h' n)) = unat sz \<and>
         take (min (unat sz) (length (payload (memory h a)))) (payload (memory h' n)) =
         take (unat sz) (payload (memory h a)))"
proof -
  obtain r h1 where m: "os_malloc L sz h = (Ret r, h1)" "heap_ok L h1"
    "case r of None \<Rightarrow> h1 = h | Some n \<Rightarrow> n \<notin> set (live h) \<and> live h1 = n # live h \<and>
       (\<forall>b. b \<noteq> n \<longrightarrow> memory h1 b = memory h b) \<and> len (memory h1 n) = sz \<and>
       length (payload (memory h1 n)) = unat sz"
    using os_malloc_ok [OF assms(1-3)] by blast
  have a: "magic (memory h a) = ALLOC_MAGIC" "length (payload (memory h a)) = unat (len (memory h a))"
    using assms(2,4) by (simp_all add: heap_ok_def)
  show ?thesis
  proof (cases r)
    case None
    then show ?thesis using m a assms(2) by (simp add: os_realloc_def)
  next
    case (Some n)
    let ?p = "payload (memory h a)" and ?q = "payload (memory h1 n)"
    from Some m(3) have n: "n \<notin> set (live h)" "live h1 = n # live h" "memory h1 a = memory h a"
      "length ?q = unat sz" "\<forall>b. b \<noteq> n \<longrightarrow> memory h1 b = memory h b" using assms(4) by auto
    let ?c = "if len (memory h1 a) > sz then sz else len (memory h1 a)"
    have c: "unat ?c = min (unat sz) (length ?p)"
      using a(2) n(3) by (simp add: word_less_nat_alt min_def)
    let ?xs = "take (unat ?c) ?p"
    have xs: "length ?xs = unat ?c" "?xs = take (unat sz) ?p" unfolding c by (simp_all add: min_def)
    obtain h2 where h2: "store_bytes n 0 ?xs h1 = Some h2" "heap_ok L h2" "live h2 = n # live h"
      "memory h2 = (memory h1)(n := (memory h1 n)\<lparr>payload := ?xs @ drop (length ?xs) ?q\<rparr>)"
      using store_bytes_ok [OF m(2), of n 0 ?xs] n c by auto
    then have "a \<in> set (live h2)" using assms(4) by simp
    from os_free_ok [OF assms(1) h2(2) this assms(5)] obtain h' where h':
      "os_free L (Some a) h2 = (Ret (), h')" "heap_ok L h'" "live h' = remove1 a (n # live h)"
      "\<forall>b. b \<noteq> a \<longrightarrow> memory h' b = memory h2 b" using h2(3) by auto
    have rd: "mem_read 0 (unat ?c) (payload (memory h1 a)) = Some ?xs"
      using c n(3) by (simp add: mem_read_def)
    have "n \<noteq> a" using n(1) assms(4) by auto
    then have pl: "payload (memory h' n) = ?xs @ drop (length ?xs) ?q" using h'(4) h2(4) by simp
    have "os_realloc L (Some a) sz h = (Ret (Some n), h')"
      using m(1) a(1) Some rd h2(1) h'(1) by (simp add: os_realloc_def Let_def)
    moreover have "length (payload (memory h' n)) = unat sz" using pl n(4) c xs(1) by simp
    moreover have "take (min (unat sz) (length ?p)) (payload (memory h' n)) = take (unat sz) ?p"
      using pl xs c by simp
    ultimately show ?thesis using n h' h2(4) by auto
  qed
qed

section \<open>Sequences of operations\<close>

text \<open>What a client may call, and writing in a block it holds.\<close>

datatype op =
    Op_malloc size_t
  | Op_zalloc size_t
  | Op_realloc ptr size_t
  | Op_free ptr
  | Op_strdup bytes
  | Op_store nat nat bytes

fun run_op :: "'l lib \<Rightarrow> op \<Rightarrow> 'l trace_heap \<Rightarrow> ptr outcome \<times> 'l trace_heap" where
  "run_op L (Op_malloc sz) h = os_malloc L sz h"
| "run_op L (Op_zalloc sz) h = os_zalloc L sz h"
| "run_op L (Op_realloc p sz) h = os_realloc L p sz h"
| "run_op L (Op_free p) h = bind_out (os_free L p h) (\<lambda>_ h1. (Ret None, h1))"
| "run_op L (Op_strdup s) h = os_strdup L s h"
| "run_op L (Op_store a off xs) h =
     (case store_bytes a off xs h of None \<Rightarrow> (Fault, h) | Some h1 \<Rightarrow> (Ret None, h1))"

inductive trace_reach :: "'l lib \<Rightarrow> 'l trace_heap \<Rightarrow> bool" for L where
  start: "live h = [] \<Longrightarrow> trace_reach L (snd (os_program_init L h))"
| step: "trace_reach L h \<Longrightarrow> run_op L op h = (Ret r, h') \<Longrightarrow> trace_reach L h'"

lemma os_malloc_keeps:
  assumes "lib_ok L" and "heap_ok L h" and "os_malloc L sz h = (Ret r, h')"
  shows "heap_ok L h'"
proof (cases "fits L sz")
  case True
  then show ?thesis using os_malloc_ok [OF assms(1,2)] assms(3) by fastforce
next
  case False
  then show ?thesis using assms(2,3) room_less [of L sz]
    by (simp add: os_malloc_def Let_def split: option.splits)
qed

lemma store_bytes_keeps: "heap_ok L h \<Longrightarrow> store_bytes a off xs h = Some h' \<Longrightarrow> heap_ok L h'"
  by (auto simp: heap_ok_def store_bytes_def mem_write_length split: option.splits)

lemma os_free_keeps:
  assumes "lib_ok L" and "heap_ok L h" and "os_free L p h = (Ret (), h')"
  shows "heap_ok L h'"
proof (cases p)
  case None
  then show ?thesis using assms(2,3) by (simp add: os_free_def)
next
  case (Some a)
  then have "a \<in> set (live h)" "no_refs L a"
    using assms(3) by (auto simp: os_free_def Let_def split: if_splits)
  then show ?thesis using os_free_ok [OF assms(1,2)] assms(3) Some by fastforce
qed

lemma os_realloc_keeps:
  assumes "lib_ok L" and "heap_ok L h" and "os_realloc L p sz h = (Ret r, h')"
  shows "heap_ok L h'"
proof (cases p)
  case None
  then show ?thesis using assms os_malloc_keeps [OF assms(1,2)] by (simp add: os_realloc_def)
next
  case (Some a)
  then obtain n h1 where m: "os_malloc L sz h = (Ret n, h1)"
    using assms(3) by (auto simp: os_realloc_def bind_out_Ret_iff split: if_splits)
  then have ok: "heap_ok L h1" by (rule os_malloc_keeps [OF assms(1,2)])
  show ?thesis
  proof (cases n)
    case None
    then show ?thesis using Some assms(3) m ok by (auto simp: os_realloc_def split: if_splits)
  next
    case (Some na)
    then obtain xs h2 u where "store_bytes na 0 xs h1 = Some h2" "os_free L p h2 = (Ret u, h')"
      using \<open>p = Some a\<close> assms(3) m
      by (auto simp: os_realloc_def Let_def bind_out_Ret_iff split: if_splits option.splits)
    then show ?thesis using os_free_keeps [OF assms(1) store_bytes_keeps [OF ok]] by simp
  qed
qed

text \<open>Filling a block that was just allocated, as \<^verbatim>\<open>os_zalloc\<close> and \<^verbatim>\<open>os_strdup\<close> do.\<close>

lemma fill_keeps:
  assumes "lib_ok L" and "heap_ok L h" and "\<And>a h1 h2. heap_ok L h1 \<Longrightarrow> f a h1 = Some h2 \<Longrightarrow> heap_ok L h2"
    and "bind_out (os_malloc L sz h) (\<lambda>p h1. case p of None \<Rightarrow> (Ret None, h1)
      | Some a \<Rightarrow> (case f a h1 of None \<Rightarrow> (Fault, h1) | Some h2 \<Rightarrow> (Ret p, h2))) = (Ret r, h')"
  shows "heap_ok L h'"
proof -
  obtain p h1 where m: "os_malloc L sz h = (Ret p, h1)" using assms(4) by (auto simp: bind_out_Ret_iff)
  then have "heap_ok L h1" by (rule os_malloc_keeps [OF assms(1,2)])
  then show ?thesis using assms(3,4) m by (auto split: option.splits)
qed

lemma os_zalloc_keeps:
  assumes "lib_ok L" and "heap_ok L h" and "os_zalloc L sz h = (Ret r, h')"
  shows "heap_ok L h'"
  by (rule fill_keeps [OF assms(1,2) store_bytes_keeps, where f = "\<lambda>a. store_bytes a 0 (replicate (unat sz) NUL)"])
    (use assms(3) in \<open>auto simp: os_zalloc_def\<close>)

lemma os_strdup_keeps:
  assumes "lib_ok L" and "heap_ok L h" and "os_strdup L s h = (Ret r, h')"
  shows "heap_ok L h'"
proof -
  obtain n where n: "c_strlen s = Some n" using assms(3) by (auto simp: os_strdup_def split: option.splits)
  let ?f = "\<lambda>a h. Option.bind (store_bytes a 0 (take n s) h) (store_bytes a n [NUL])"
  have "heap_ok L h2" if "heap_ok L h1" "?f a h1 = Some h2" for a h1 h2
    using that by (auto simp: bind_eq_Some_conv) (blast intro: store_bytes_keeps)
  from fill_keeps [OF assms(1,2) this, where f = ?f] show ?thesis
    using assms(3) n by (auto simp: os_strdup_def)
qed

lemma run_op_keeps:
  assumes L: "lib_ok L" and ok: "heap_ok L h" and r: "run_op L op h = (Ret r, h')"
  shows "heap_ok L h'"
proof (cases op)
  case (Op_malloc sz)
  then show ?thesis using os_malloc_keeps [OF L ok] r by simp
next
  case (Op_zalloc sz)
  then show ?thesis using os_zalloc_keeps [OF L ok] r by simp
next
  case (Op_realloc p sz)
  then show ?thesis using os_realloc_keeps [OF L ok] r by simp
next
  case (Op_free p)
  then show ?thesis using os_free_keeps [OF L ok] r by (auto simp: bind_out_Ret_iff)
next
  case (Op_strdup s)
  then show ?thesis using os_strdup_keeps [OF L ok] r by simp
next
  case (Op_store a off xs)
  then show ?thesis using store_bytes_keeps [OF ok] r by (simp split: option.splits)
qed

lemma trace_reach_ok:
  assumes "lib_ok L" and "trace_reach L h"
  shows "heap_ok L h"
  using assms(2)
proof induction
  case (start h)
  then show ?case using lib_okD(3) [OF assms(1)] by (simp add: heap_ok_def os_program_init_def)
next
  case (step h op r h')
  then show ?case using run_op_keeps [OF assms(1)] by blast
qed

text \<open>
  C27: from \<^verbatim>\<open>os_program_init\<close> on, whatever sequence of allocations, reallocations, duplications, frees and
  writes a program makes, with valid arguments or not, as long as the calls return, the heap stays
  well formed: \<^verbatim>\<open>alloc_list\<close> is exactly the list of the blocks that are allocated, each without
  repetition, and each has the allocation magic in its header and as many bytes behind it as the
  header's length says.
\<close>

theorem trace_heap_typed:
  assumes "lib_ok L" and "trace_reach L h"
  shows "distinct (live h) \<and> dl_list_elems L (alloc_list h) = live h \<and>
    (\<forall>a \<in> set (live h). magic (memory h a) = 0xa84ef1b2 \<and>
       length (payload (memory h a)) = unat (len (memory h a)))"
  using trace_reach_ok [OF assms] by (simp add: heap_ok_def ALLOC_MAGIC_def)

text \<open>A C library for the witnesses: blocks at increasing addresses, a list of HOL for the list.\<close>

definition sample_lib :: "nat list lib" where
  "sample_lib =
     \<lparr>hdr_size = 32, malloc_at = (\<lambda>as n. Some (10 + sum_list as)),
      fresh_bytes = (\<lambda>a n. replicate n CHR ''?''), leftover = (\<lambda>a b. b), no_refs = (\<lambda>a. True),
      dl_list_init = [], dl_list_add = (\<lambda>l a. a # l), dl_list_del = remove1, dl_list_elems = (\<lambda>l. l)\<rparr>"

definition sample_heap :: "nat list trace_heap" where
  "sample_heap =
     \<lparr>memory = (\<lambda>_. \<lparr>magic = 0, len = 0, payload = []\<rparr>), live = [], alloc_list = []\<rparr>"

lemma sample_lib_ok: "lib_ok sample_lib"
proof -
  have "10 + sum_list as \<notin> set as" for as :: "nat list"
    using member_le_sum_list [of "10 + sum_list as" as] by auto
  then show ?thesis by (simp add: lib_ok_def sample_lib_def)
qed

text \<open>A heap with the two blocks of a duplicated string and of zeros.\<close>

definition sample_run :: "nat list trace_heap" where
  "sample_run =
     snd (os_zalloc sample_lib 4 (snd (os_strdup sample_lib (''wlan'' @ NUL # []) sample_heap)))"

lemma sample_run_eq:
  "fst (os_strdup sample_lib (''wlan'' @ NUL # []) sample_heap) = Ret (Some 10)"
  "fst (os_zalloc sample_lib 4 (snd (os_strdup sample_lib (''wlan'' @ NUL # []) sample_heap))) =
     Ret (Some 20)"
  "live sample_run = [20, 10]"
  "memory sample_run 10 = \<lparr>magic = ALLOC_MAGIC, len = 5, payload = ''wlan'' @ [NUL]\<rparr>"
  "memory sample_run 20 = \<lparr>magic = ALLOC_MAGIC, len = 4, payload = replicate 4 NUL\<rparr>"
  by code_simp+

lemma sample_run_reach: "trace_reach sample_lib sample_run"
proof -
  have "snd (os_program_init sample_lib sample_heap) = sample_heap"
    by (simp add: os_program_init_def sample_lib_def sample_heap_def)
  then have "trace_reach sample_lib sample_heap"
    using trace_reach.start [of sample_heap sample_lib] by (simp add: sample_heap_def)
  then have "trace_reach sample_lib (snd (os_strdup sample_lib (''wlan'' @ NUL # []) sample_heap))"
    by (rule trace_reach.step [where op = "Op_strdup (''wlan'' @ NUL # [])" and r = "Some 10"])
      (simp only: run_op.simps prod_eq_iff fst_conv snd_conv sample_run_eq(1) simp_thms)
  then show ?thesis
    by (rule trace_reach.step [where op = "Op_zalloc 4" and r = "Some 20"])
      (simp only: run_op.simps prod_eq_iff fst_conv snd_conv sample_run_eq(2) sample_run_def simp_thms)
qed

theorem trace_heap_typed_witness:
  "lib_ok sample_lib \<and> trace_reach sample_lib sample_run \<and>
   dl_list_elems sample_lib (alloc_list sample_run) = [20, 10]"
  using trace_heap_typed [OF sample_lib_ok sample_run_reach] sample_lib_ok sample_run_reach
  by (simp add: sample_run_eq(3))

section \<open>Refinement of the heap a client sees\<close>

text \<open>
  The abstract allocator: a map from the pointers a client holds to the bytes behind them. \<open>fresh r f\<close>
  says that the result is either nothing or a new pointer with bytes that satisfy \<open>f\<close>.
\<close>

definition fresh ::
  "(nat \<rightharpoonup> bytes) \<Rightarrow> (bytes \<Rightarrow> bool) \<Rightarrow> ptr \<Rightarrow> (nat \<rightharpoonup> bytes) \<Rightarrow> (nat \<rightharpoonup> bytes) \<Rightarrow> bool" where
  "fresh m f r base m' \<longleftrightarrow>
     (case r of None \<Rightarrow> m' = m | Some n \<Rightarrow> n \<notin> dom m \<and> (\<exists>p. f p \<and> m' = base(n \<mapsto> p)))"

text \<open>The arguments the operations are meant for.\<close>

fun op_valid :: "'l lib \<Rightarrow> (nat \<rightharpoonup> bytes) \<Rightarrow> op \<Rightarrow> bool" where
  "op_valid L m (Op_malloc sz) = fits L sz"
| "op_valid L m (Op_zalloc sz) = fits L sz"
| "op_valid L m (Op_realloc p sz) =
     (fits L sz \<and> (case p of None \<Rightarrow> True | Some a \<Rightarrow> m a \<noteq> None \<and> no_refs L a))"
| "op_valid L m (Op_free p) = (case p of None \<Rightarrow> True | Some a \<Rightarrow> m a \<noteq> None \<and> no_refs L a)"
| "op_valid L m (Op_strdup s) =
     (case c_strlen s of None \<Rightarrow> False
      | Some n \<Rightarrow> n + 1 < 2 ^ 64 \<and> fits L (of_nat n + 1))"
| "op_valid L m (Op_store a off xs) =
     (case m a of None \<Rightarrow> False | Some p \<Rightarrow> off + length xs \<le> length p)"

fun op_spec :: "op \<Rightarrow> (nat \<rightharpoonup> bytes) \<Rightarrow> ptr \<Rightarrow> (nat \<rightharpoonup> bytes) \<Rightarrow> bool" where
  "op_spec (Op_malloc sz) m r m' = fresh m (\<lambda>p. length p = unat sz) r m m'"
| "op_spec (Op_zalloc sz) m r m' = fresh m (\<lambda>p. p = replicate (unat sz) NUL) r m m'"
| "op_spec (Op_realloc None sz) m r m' = fresh m (\<lambda>p. length p = unat sz) r m m'"
| "op_spec (Op_realloc (Some a) sz) m r m' =
     fresh m (\<lambda>p. length p = unat sz \<and>
         take (min (unat sz) (length (the (m a)))) p = take (unat sz) (the (m a)))
       r (m(a := None)) m'"
| "op_spec (Op_free None) m r m' = (r = None \<and> m' = m)"
| "op_spec (Op_free (Some a)) m r m' = (r = None \<and> m' = m(a := None))"
| "op_spec (Op_strdup s) m r m' =
     fresh m (\<lambda>p. p = take (the (c_strlen s)) s @ [NUL]) r m m'"
| "op_spec (Op_store a off xs) m r m' =
     (r = None \<and> m' = m(a \<mapsto> take off (the (m a)) @ xs @ drop (off + length xs) (the (m a))))"

lemma client_heap_None: "client_heap h a = None \<longleftrightarrow> a \<notin> set (live h)"
  by (simp add: client_heap_def)

lemma client_heap_fresh:
  assumes "case r of None \<Rightarrow> h' = h
     | Some a \<Rightarrow> a \<notin> set (live h) \<and> live h' = a # live h \<and>
         (\<forall>b. b \<noteq> a \<longrightarrow> memory h' b = memory h b) \<and> f (payload (memory h' a))"
  shows "fresh (client_heap h) f r (client_heap h) (client_heap h')"
  using assms by (auto simp: fresh_def client_heap_def fun_eq_iff dom_def split: option.splits)

lemma malloc_fresh:
  assumes "lib_ok L" and "heap_ok L h" and "fits L sz"
  shows "\<exists>r h'. os_malloc L sz h = (Ret r, h') \<and>
    fresh (client_heap h) (\<lambda>p. length p = unat sz) r (client_heap h) (client_heap h')"
proof -
  obtain r h' where m: "os_malloc L sz h = (Ret r, h')"
    "case r of None \<Rightarrow> h' = h | Some a \<Rightarrow> a \<notin> set (live h) \<and> live h' = a # live h \<and>
       (\<forall>b. b \<noteq> a \<longrightarrow> memory h' b = memory h b) \<and> len (memory h' a) = sz \<and>
       length (payload (memory h' a)) = unat sz"
    using os_malloc_ok [OF assms] by blast
  have "fresh (client_heap h) (\<lambda>p. length p = unat sz) r (client_heap h) (client_heap h')"
    by (rule client_heap_fresh) (use m(2) in \<open>cases r; auto\<close>)
  then show ?thesis using m(1) by blast
qed

lemma refines_new:
  assumes "lib_ok L" and "heap_ok L h" and "op_valid L (client_heap h) op"
    and "op = Op_malloc sz \<or> op = Op_zalloc sz \<or> op = Op_strdup s \<or> op = Op_realloc None sz"
  shows "\<exists>r h'. run_op L op h = (Ret r, h') \<and> op_spec op (client_heap h) r (client_heap h')"
  using assms(4)
proof (elim disjE)
  assume op: "op = Op_zalloc sz"
  with assms(3) have f: "fits L sz" by simp
  from os_zalloc_ok [OF assms(1,2) f] obtain r h' where "os_zalloc L sz h = (Ret r, h')"
    "case r of None \<Rightarrow> h' = h | Some a \<Rightarrow> a \<notin> set (live h) \<and> live h' = a # live h \<and>
       (\<forall>b. b \<noteq> a \<longrightarrow> memory h' b = memory h b) \<and> payload (memory h' a) = replicate (unat sz) NUL" by blast
  then show ?thesis using client_heap_fresh op by auto
next
  assume op: "op = Op_strdup s"
  with assms(3) obtain n where n: "c_strlen s = Some n" "n + 1 < 2 ^ 64" "fits L (of_nat n + 1)"
    by (auto split: option.splits)
  obtain str rest where s: "s = str @ NUL # rest" "NUL \<notin> set str" "length str = n"
    using c_strlen_SomeD [OF n(1)] by blast
  from os_strdup_ok [OF assms(1,2) n(3) [folded s(3)] s(2) n(2) [folded s(3)], of rest]
  obtain r h' where "os_strdup L (str @ NUL # rest) h = (Ret r, h')"
    "case r of None \<Rightarrow> h' = h | Some a \<Rightarrow> a \<notin> set (live h) \<and> live h' = a # live h \<and>
       (\<forall>b. b \<noteq> a \<longrightarrow> memory h' b = memory h b) \<and> payload (memory h' a) = str @ [NUL]" by blast
  then show ?thesis using client_heap_fresh [where f = "\<lambda>p. p = str @ [NUL]"] op s by auto
next
  assume op: "op = Op_malloc sz"
  with assms(3) show ?thesis using malloc_fresh [OF assms(1,2)] by simp
next
  assume op: "op = Op_realloc None sz"
  with assms(3) show ?thesis using malloc_fresh [OF assms(1,2)] by (simp add: os_realloc_def)
qed

lemma refines_realloc:
  assumes "lib_ok L" and "heap_ok L h" and "op_valid L (client_heap h) (Op_realloc (Some a) sz)"
  shows "\<exists>r h'. os_realloc L (Some a) sz h = (Ret r, h') \<and>
    op_spec (Op_realloc (Some a) sz) (client_heap h) r (client_heap h')"
proof -
  have a: "fits L sz" "a \<in> set (live h)" "no_refs L a" using assms(3) by (auto simp: client_heap_None)
  then have ca: "client_heap h a = Some (payload (memory h a))" by (simp add: client_heap_def)
  from os_realloc_ok [OF assms(1,2) a] obtain r h' where r: "os_realloc L (Some a) sz h = (Ret r, h')"
    "case r of None \<Rightarrow> h' = h
     | Some n \<Rightarrow> n \<notin> set (live h) \<and> live h' = remove1 a (n # live h) \<and>
         (\<forall>b. b \<noteq> a \<and> b \<noteq> n \<longrightarrow> memory h' b = memory h b) \<and>
         length (payload (memory h' n)) = unat sz \<and>
         take (min (unat sz) (length (payload (memory h a)))) (payload (memory h' n)) =
         take (unat sz) (payload (memory h a))" by blast
  have "distinct (live h)" using assms(2) by (simp add: heap_ok_def)
  then have "client_heap h' = (client_heap h)(a := None, n \<mapsto> payload (memory h' n))"
    if "r = Some n" for n
    using that r(2) a(2) by (auto simp: client_heap_def fun_eq_iff)
  then show ?thesis using r ca by (cases r) (auto simp: fresh_def client_heap_None dom_def)
qed

lemma refines_op:
  assumes "lib_ok L" and "heap_ok L h" and "op_valid L (client_heap h) op"
  shows "\<exists>r h'. run_op L op h = (Ret r, h') \<and> op_spec op (client_heap h) r (client_heap h')"
proof (cases op)
  case (Op_realloc p sz)
  then show ?thesis using refines_new [OF assms] refines_realloc [OF assms(1,2)] assms(3)
    by (cases p) auto
next
  case (Op_free p)
  show ?thesis
  proof (cases p)
    case None
    then show ?thesis using Op_free by (simp add: os_free_def)
  next
    case (Some a)
    then have a: "a \<in> set (live h)" "no_refs L a" using Op_free assms(3) by (auto simp: client_heap_None)
    from os_free_ok [OF assms(1,2) a] obtain h' where h': "os_free L (Some a) h = (Ret (), h')"
      "live h' = remove1 a (live h)" "\<forall>b. b \<noteq> a \<longrightarrow> memory h' b = memory h b" by blast
    have "distinct (live h)" using assms(2) by (simp add: heap_ok_def)
    then have "client_heap h' = (client_heap h)(a := None)"
      using h'(2,3) by (auto simp: client_heap_def fun_eq_iff)
    then show ?thesis using h'(1) Op_free Some by simp
  qed
next
  case (Op_store a off xs)
  then have a: "a \<in> set (live h)" "off + length xs \<le> length (payload (memory h a))"
    using assms(3) by (auto simp: client_heap_def split: option.splits if_splits)
  from store_bytes_ok [OF assms(2) a] obtain h' where h': "store_bytes a off xs h = Some h'"
    "live h' = live h"
    "memory h' = (memory h)(a := (memory h a)\<lparr>payload :=
      take off (payload (memory h a)) @ xs @ drop (off + length xs) (payload (memory h a))\<rparr>)" by blast
  then show ?thesis using Op_store a(1) by (auto simp: client_heap_def fun_eq_iff)
qed (use refines_new [OF assms] in auto)

text \<open>
  C28: the tracing allocator implements the map from pointers to bytes. In every heap a program reaches,
  each operation on arguments it is meant for (sizes to which the header can be added, NULL or a
  pointer that is held and unreferenced) returns, and does to the client's map what the abstract
  operation does: a new pointer with as many bytes as asked for, zeros, or the copied string;
  \<^verbatim>\<open>os_realloc\<close> gives a new block that begins with the old bytes as far as they fit and drops the
  old pointer, and when no memory is left it changes nothing; no other block is ever touched.
\<close>

theorem allocator_refines:
  assumes "lib_ok L" and "trace_reach L h" and "op_valid L (client_heap h) op"
  shows "\<exists>r h'. run_op L op h = (Ret r, h') \<and> trace_reach L h' \<and>
    op_spec op (client_heap h) r (client_heap h')"
  using refines_op [OF assms(1) trace_reach_ok [OF assms(1,2)] assms(3)] trace_reach.step [OF assms(2)]
  by blast

lemma sample_run_client:
  "client_heap sample_run 10 = Some (''wlan'' @ [NUL])" "client_heap sample_run 20 = Some (replicate 4 NUL)"
  by (simp_all add: client_heap_def sample_run_eq)

theorem allocator_refines_witness:
  "\<exists>n h'. os_realloc sample_lib (Some 10) 3 sample_run = (Ret n, h') \<and>
     (n = None \<or> client_heap h' (the n) = Some ''wla'')"
proof -
  have "op_valid sample_lib (client_heap sample_run) (Op_realloc (Some 10) 3)"
    by (simp add: sample_run_client fits_def) (simp add: sample_lib_def)
  from allocator_refines [OF sample_lib_ok sample_run_reach this] obtain r h' where
    r: "os_realloc sample_lib (Some 10) 3 sample_run = (Ret r, h')"
    "op_spec (Op_realloc (Some 10) 3) (client_heap sample_run) r (client_heap h')" by auto
  have t: "take 3 (''wlan'' @ [NUL]) = ''wla''" by (simp add: numeral_eq_Suc)
  have "r = None \<or> client_heap h' (the r) = Some ''wla''"
    using r(2) t by (auto simp: fresh_def sample_run_client split: option.splits)
  then show ?thesis using r(1) by blast
qed

text \<open>
  C29: a block is freed once. Freeing a pointer that is held and unreferenced returns and takes it off
  the list; after that, freeing or resizing the same pointer again aborts the process before it
  changes anything, as long as the C library has not written the allocation magic there, and says
  that the block was already freed when the library has left the header alone.
\<close>

theorem double_free_aborts:
  assumes "lib_ok L" and "trace_reach L h" and "a \<in> set (live h)" and "no_refs L a"
    and left: "\<And>b. magic b = FREED_MAGIC \<Longrightarrow> magic (leftover L a b) \<noteq> ALLOC_MAGIC"
  shows "\<exists>h'. os_free L (Some a) h = (Ret (), h') \<and> a \<notin> set (live h') \<and>
    a \<notin> set (dl_list_elems L (alloc_list h')) \<and>
    (\<exists>note. os_free L (Some a) h' = (Exit 134 (''FREE: invalid magic'' @ note), h') \<and>
       os_realloc L (Some a) sz h' = (Exit 134 (''REALLOC: invalid magic'' @ note), h') \<and>
       ((\<forall>b. leftover L a b = b) \<longrightarrow> note = '' (already freed)''))"
proof -
  have ok: "heap_ok L h" by (rule trace_reach_ok [OF assms(1,2)])
  from os_free_ok [OF assms(1) ok assms(3,4)] obtain h' where h': "os_free L (Some a) h = (Ret (), h')"
    "heap_ok L h'" "live h' = remove1 a (live h)"
    "memory h' a = leftover L a ((memory h a)\<lparr>magic := FREED_MAGIC\<rparr>)" by blast
  have "a \<notin> set (live h')" using h'(3) ok by (simp add: heap_ok_def)
  moreover have "dl_list_elems L (alloc_list h') = live h'" using h'(2) by (simp add: heap_ok_def)
  moreover have "magic (memory h' a) \<noteq> ALLOC_MAGIC" using left h'(4) by simp
  ultimately show ?thesis using h'(1,4)
    by (auto simp: os_free_def os_realloc_def abort_status_def magic_note_def)
qed

theorem double_free_aborts_witness:
  "\<exists>h'. os_free sample_lib (Some 10) sample_run = (Ret (), h') \<and>
     os_free sample_lib (Some 10) h' = (Exit 134 ''FREE: invalid magic (already freed)'', h')"
proof -
  have "10 \<in> set (live sample_run)" by (simp add: sample_run_eq(3))
  moreover have "no_refs sample_lib 10" by (simp add: sample_lib_def)
  moreover have "magic (leftover sample_lib 10 b) \<noteq> ALLOC_MAGIC" if "magic b = FREED_MAGIC" for b
    using that by (simp add: sample_lib_def FREED_MAGIC_def ALLOC_MAGIC_def)
  moreover have "\<forall>b. leftover sample_lib 10 b = b" by (simp add: sample_lib_def)
  ultimately show ?thesis
    using double_free_aborts [OF sample_lib_ok sample_run_reach, of 10] by fastforce
qed

section \<open>The report at the end\<close>

lemma deinit_loop_ok:
  assumes "\<forall>a \<in> set as. magic (m a) = ALLOC_MAGIC"
  shows "deinit_loop m as t = (map (\<lambda>a. Memleak a (len (m a))) as, t + sum_list (map (\<lambda>a. len (m a)) as))"
  using assms by (induction as arbitrary: t) (simp_all add: Let_def add.assoc)

text \<open>
  At the end of a run, \<^verbatim>\<open>os_program_deinit\<close> reports exactly the blocks that were allocated and not
  freed, each once and with its length, the latest first, and the sum of the lengths (as an
  \<^verbatim>\<open>unsigned long\<close>) unless that is zero; it never finds an invalid magic, and after a run that freed
  everything it prints nothing.
\<close>

theorem deinit_reports_leaks:
  assumes "lib_ok L" and "trace_reach L h"
  shows "\<exists>as. distinct as \<and> set as = dom (client_heap h) \<and>
    os_program_deinit L h =
      map (\<lambda>a. Memleak a (of_nat (length (the (client_heap h a))))) as @
      (let tot = of_nat (\<Sum>a\<leftarrow>as. length (the (client_heap h a))) in if tot \<noteq> 0 then [Leak_total tot] else [])"
proof -
  have ok: "heap_ok L h" by (rule trace_reach_ok [OF assms])
  have len: "len (memory h a) = of_nat (length (the (client_heap h a)))" if "a \<in> set (live h)" for a
    using that ok by (simp add: heap_ok_def client_heap_def)
  have "(\<Sum>a\<leftarrow>as. of_nat (f a) :: size_t) = of_nat (\<Sum>a\<leftarrow>as. f a)" for f and as :: "nat list"
    by (induction as) simp_all
  moreover have "(\<Sum>a\<leftarrow>live h. len (memory h a)) = (\<Sum>a\<leftarrow>live h. of_nat (length (the (client_heap h a))))"
    by (rule arg_cong [where f = sum_list]) (use len in simp)
  ultimately have "deinit_loop (memory h) (live h) 0 =
      (map (\<lambda>a. Memleak a (of_nat (length (the (client_heap h a))))) (live h),
       of_nat (\<Sum>a\<leftarrow>live h. length (the (client_heap h a))))"
    using ok len by (simp add: deinit_loop_ok heap_ok_def)
  moreover have "set (live h) = dom (client_heap h)" by (auto simp: client_heap_def dom_def)
  ultimately show ?thesis using ok by (auto simp: os_program_deinit_def Let_def heap_ok_def)
qed

theorem deinit_reports_leaks_witness:
  "\<exists>as. set as = {10, 20} \<and>
     os_program_deinit sample_lib sample_run =
       map (\<lambda>a. Memleak a (of_nat (length (the (client_heap sample_run a))))) as @ [Leak_total 9]"
proof -
  have dom: "dom (client_heap sample_run) = {10, 20}"
    by (auto simp: client_heap_def sample_run_eq(3) split: if_splits)
  obtain as where as: "distinct as" "set as = {10, 20}"
    "os_program_deinit sample_lib sample_run =
      map (\<lambda>a. Memleak a (of_nat (length (the (client_heap sample_run a))))) as @
      (let tot = of_nat (\<Sum>a\<leftarrow>as. length (the (client_heap sample_run a))) in if tot \<noteq> 0 then [Leak_total tot] else [])"
    using deinit_reports_leaks [OF sample_lib_ok sample_run_reach] unfolding dom by blast
  have "(\<Sum>a\<leftarrow>as. length (the (client_heap sample_run a))) = 9"
    using as(1,2) by (simp add: sum_list_distinct_conv_sum_set sample_run_client)
  with as(2,3) show ?thesis by auto
qed

text \<open>
  The size \<^verbatim>\<open>os_malloc\<close> asks the C library for wraps. For a request to which the header can be
  added, the library is asked for exactly the sum; for any larger one it is asked for fewer bytes
  than the header has, and when it provides them, the header is written beyond the block.
\<close>

theorem os_malloc_wraps:
  "(if unat (hdr_size L) + unat sz < 2 ^ 64 then
      unat (hdr_size L + sz) = unat (hdr_size L) + unat sz \<and> fst (os_malloc L sz h) \<noteq> Fault
    else unat (hdr_size L + sz) < unat (hdr_size L) \<and>
      (fst (os_malloc L sz h) = (if malloc_at L (live h) (hdr_size L + sz) = None then Ret None else Fault)))"
proof (cases "fits L sz")
  case True
  then have "unat (hdr_size L + sz) = unat (hdr_size L) + unat sz"
    using room_fits [OF True] room_less [of L sz] by simp
  moreover have "fst (os_malloc L sz h) \<noteq> Fault" by (simp add: os_malloc_fits [OF True] split: option.split)
  ultimately show ?thesis using True by (simp add: fits_def)
next
  case False
  then show ?thesis using room_less [of L sz]
    by (simp add: os_malloc_def Let_def split: option.split) (simp add: fits_def)
qed

end
