(* ===== verification/Os_Process.thy ===== *)
theory Os_Process
  imports Prelude
begin

text \<open>
  Setting up the process, from \<^verbatim>\<open>src/src/wpa_ctrl/os_unix.c\<close>: \<^verbatim>\<open>os_daemonize\<close> with the replacement of
  \<^verbatim>\<open>daemon\<close> on Apple systems, the environment, and the privileges that the Android build of
  \<^verbatim>\<open>os_program_init\<close> gives up. The kernel's part is written out as documented: what a call needs, what
  it changes and that it changes nothing when it fails.
\<close>

unbundle bit_operations_syntax

section \<open>Running in the background\<close>

text \<open>
  The working directory, the file behind each open descriptor, the environment and the contents of
  files; then the process id and the answers: whether \<^verbatim>\<open>chdir\<close> succeeds, the descriptor \<^verbatim>\<open>open\<close> gives,
  which \<^verbatim>\<open>dup2\<close> calls succeed, and whether the file for the process id can be opened.
\<close>

record proc =
  cwd :: string
  fd_table :: "nat \<rightharpoonup> string"
  environ :: "string \<rightharpoonup> string"
  contents :: "string \<rightharpoonup> string"
  proc_id :: nat
  chdir_ok :: bool
  open_answer :: "nat option"
  dup2_ok :: "nat \<Rightarrow> bool"
  pid_fopen_ok :: bool

text \<open>
  The three calls of \<^verbatim>\<open>dup2\<close> of \<^verbatim>\<open>os_daemon\<close>, each with its failure branch, which closes \<^verbatim>\<open>devnull\<close>.
\<close>

fun dup_streams :: "nat \<Rightarrow> nat list \<Rightarrow> proc \<Rightarrow> int \<times> proc" where
  "dup_streams devnull [] k = (0, k)"
| "dup_streams devnull (fd # fds) k =
     (if \<not> dup2_ok k fd then (-1, k\<lparr>fd_table := (fd_table k)(devnull := None)\<rparr>)
      else dup_streams devnull fds (k\<lparr>fd_table := (fd_table k)(fd := fd_table k devnull)\<rparr>))"

definition os_daemon :: "bool \<Rightarrow> bool \<Rightarrow> proc \<Rightarrow> int \<times> proc" where
  "os_daemon nochdir noclose k =
     (if \<not> chdir_ok k then (-1, k)
      else let k1 = k\<lparr>cwd := ''/''\<rparr>
        in case open_answer k1 of
             None \<Rightarrow> (-1, k1)
           | Some devnull \<Rightarrow>
               dup_streams devnull [0, 1, 2]
                 (k1\<lparr>fd_table := (fd_table k1)(devnull \<mapsto> ''/dev/null'')\<rparr>))"

text \<open>\<open>daemon\<close> is the C library's function, or \<open>os_daemon\<close> on Apple systems.\<close>

definition os_daemonize ::
  "(bool \<Rightarrow> bool \<Rightarrow> proc \<Rightarrow> int \<times> proc) \<Rightarrow> string option \<Rightarrow> proc \<Rightarrow> int \<times> proc" where
  "os_daemonize daemon pid_file k =
     (case daemon False False k of
        (r, k1) \<Rightarrow>
          (if r \<noteq> 0 then (-1, k1)
           else
             (0, case pid_file of
                   None \<Rightarrow> k1
                 | Some f \<Rightarrow>
                     (if pid_fopen_ok k1
                      then k1\<lparr>contents := (contents k1)(f \<mapsto> dec_nat (proc_id k1) @ [CHR 0x0A])\<rparr>
                      else k1))))"

definition os_daemonize_terminate :: "string option \<Rightarrow> proc \<Rightarrow> proc" where
  "os_daemonize_terminate pid_file k =
     (case pid_file of None \<Rightarrow> k | Some f \<Rightarrow> k\<lparr>contents := (contents k)(f := None)\<rparr>)"

section \<open>The environment\<close>

definition env_name :: "string \<Rightarrow> bool" where
  "env_name name \<longleftrightarrow> name \<noteq> [] \<and> CHR ''='' \<notin> set name"

definition os_setenv :: "string \<Rightarrow> string \<Rightarrow> bool \<Rightarrow> proc \<Rightarrow> int \<times> proc" where
  "os_setenv name v overwrite k =
     (if \<not> env_name name then (-1, k)
      else if environ k name \<noteq> None \<and> \<not> overwrite then (0, k)
      else (0, k\<lparr>environ := (environ k)(name \<mapsto> v)\<rparr>))"

text \<open>\<open>bsd\<close> tells the builds that ignore the result of \<^verbatim>\<open>unsetenv\<close>.\<close>

definition os_unsetenv :: "bool \<Rightarrow> string \<Rightarrow> proc \<Rightarrow> int \<times> proc" where
  "os_unsetenv bsd name k =
     (let (r, k1) = (if \<not> env_name name then (-1, k) else (0, k\<lparr>environ := (environ k)(name := None)\<rparr>))
      in (if bsd then 0 else r, k1))"

section \<open>Privileges\<close>

text \<open>The credentials of a process; the sets of capabilities are words with a bit for each.\<close>

record cred =
  uid :: nat
  gid :: nat
  groups :: "nat list"
  keepcaps :: bool
  effective :: u32
  permitted :: u32
  inheritable :: u32

definition CAP_SETGID :: nat where "CAP_SETGID = 6"
definition CAP_SETUID :: nat where "CAP_SETUID = 7"
definition CAP_NET_ADMIN :: nat where "CAP_NET_ADMIN = 12"
definition CAP_NET_RAW :: nat where "CAP_NET_RAW = 13"

definition setgroups :: "nat list \<Rightarrow> cred \<Rightarrow> cred" where
  "setgroups gs c = (if bit (effective c) CAP_SETGID then c\<lparr>groups := gs\<rparr> else c)"

definition set_keepcaps :: "cred \<Rightarrow> cred" where
  "set_keepcaps c = c\<lparr>keepcaps := True\<rparr>"

definition setgid :: "nat \<Rightarrow> cred \<Rightarrow> cred" where
  "setgid g c = (if bit (effective c) CAP_SETGID then c\<lparr>gid := g\<rparr> else c)"

text \<open>
  Leaving user 0 empties the effective set, and the permitted one too unless the process keeps its
  capabilities.
\<close>

definition setuid :: "nat \<Rightarrow> cred \<Rightarrow> cred" where
  "setuid u c =
     (if \<not> bit (effective c) CAP_SETUID then c
      else if uid c = 0 \<and> u \<noteq> 0
      then c\<lparr>uid := u, effective := 0, permitted := (if keepcaps c then permitted c else 0)\<rparr>
      else c\<lparr>uid := u\<rparr>)"

definition capset :: "u32 \<Rightarrow> u32 \<Rightarrow> u32 \<Rightarrow> cred \<Rightarrow> cred" where
  "capset e p i c =
     (if p AND NOT (permitted c) = 0 \<and> e AND NOT p = 0 \<and>
         i AND NOT (inheritable c OR permitted c) = 0
      then c\<lparr>effective := e, permitted := p, inheritable := i\<rparr> else c)"

text \<open>The ANDROID block of \<^verbatim>\<open>os_program_init\<close>; the ids are those of the platform or the build.\<close>

definition android_program_init :: "nat list \<Rightarrow> nat \<Rightarrow> cred \<Rightarrow> int \<times> cred" where
  "android_program_init gs aid_wifi c =
     (let c1 = setgroups gs c;
          c2 = set_keepcaps c1;
          c3 = setuid aid_wifi (setgid aid_wifi c2);
          caps = BIT CAP_NET_ADMIN OR BIT CAP_NET_RAW
      in (0, capset caps caps 0 c3))"

section \<open>Properties\<close>

lemma dup_streams_ok:
  "\<forall>fd \<in> set fds. dup2_ok k fd \<Longrightarrow>
   dup_streams d fds (k\<lparr>fd_table := t\<rparr>) =
     (0, k\<lparr>fd_table := (\<lambda>x. if x \<in> set fds then t d else t x)\<rparr>)"
proof (induction fds arbitrary: t)
  case (Cons fd fds)
  then have "dup_streams d fds (k\<lparr>fd_table := t(fd := t d)\<rparr>) =
      (0, k\<lparr>fd_table := (\<lambda>x. if x \<in> set fds then (t(fd := t d)) d else (t(fd := t d)) x)\<rparr>)" by simp
  moreover have "(\<lambda>x. if x \<in> set fds then (t(fd := t d)) d else (t(fd := t d)) x) =
      (\<lambda>x. if x \<in> set (fd # fds) then t d else t x)" by auto
  ultimately show ?case using Cons.prems by simp
qed simp

text \<open>
  On Apple systems \<^verbatim>\<open>os_daemonize\<close> puts the process in the root directory with its three streams on
  the null device and writes its process id, and \<^verbatim>\<open>os_daemonize_terminate\<close> removes that file again; but
  the process is still the one that was started, for nothing forks, and the descriptor the null
  device was opened with stays open.
\<close>

theorem daemonize_apple:
  assumes "chdir_ok k" and "open_answer k = Some d" and "\<forall>fd \<in> {0, 1, 2}. dup2_ok k fd"
    and "pid_fopen_ok k" and "2 < d"
  shows "\<exists>k'. os_daemonize os_daemon (Some f) k = (0, k') \<and> cwd k' = ''/'' \<and>
    fd_table k' = (fd_table k)(0 \<mapsto> ''/dev/null'', 1 \<mapsto> ''/dev/null'', 2 \<mapsto> ''/dev/null'', d \<mapsto> ''/dev/null'') \<and>
    proc_id k' = proc_id k \<and> contents k' f = Some (dec_nat (proc_id k) @ [CHR 0x0A]) \<and>
    contents (os_daemonize_terminate (Some f) k') = (contents k)(f := None)"
proof -
  let ?k = "k\<lparr>cwd := ''/''\<rparr>" and ?t = "(fd_table k)(d \<mapsto> ''/dev/null'')"
  have "dup_streams d [0, 1, 2] (?k\<lparr>fd_table := ?t\<rparr>) =
      (0, ?k\<lparr>fd_table := (\<lambda>x. if x \<in> set [0, 1, 2] then ?t d else ?t x)\<rparr>)"
    by (rule dup_streams_ok) (use assms(3) in simp)
  moreover have "(\<lambda>x. if x \<in> set [0, 1, 2] then ?t d else ?t x) =
      (fd_table k)(0 \<mapsto> ''/dev/null'', 1 \<mapsto> ''/dev/null'', 2 \<mapsto> ''/dev/null'', d \<mapsto> ''/dev/null'')"
    using assms(5) by (auto simp: fun_eq_iff)
  ultimately show ?thesis using assms
    by (simp add: os_daemonize_def os_daemon_def os_daemonize_terminate_def Let_def)
qed

definition sample_proc :: proc where
  "sample_proc = \<lparr>cwd = ''/root'', fd_table = [0 \<mapsto> ''tty'', 1 \<mapsto> ''tty'', 2 \<mapsto> ''tty''], environ = Map.empty,
     contents = Map.empty, proc_id = 42, chdir_ok = True, open_answer = Some 3, dup2_ok = (\<lambda>_. True),
     pid_fopen_ok = True\<rparr>"

theorem daemonize_apple_witness:
  "\<exists>k'. os_daemonize os_daemon (Some ''/run/pid'') sample_proc = (0, k') \<and>
     contents k' ''/run/pid'' = Some (dec_nat 42 @ [CHR 0x0A]) \<and> fd_table k' 3 = Some ''/dev/null''"
proof -
  have "chdir_ok sample_proc" "open_answer sample_proc = Some 3" "\<forall>fd \<in> {0, 1, 2}. dup2_ok sample_proc fd"
    "pid_fopen_ok sample_proc" "proc_id sample_proc = 42" by (simp_all add: sample_proc_def)
  from daemonize_apple [OF this(1-4), of "''/run/pid''"] this(5) show ?thesis by auto
qed

lemma caps_bits: "bit (BIT CAP_NET_ADMIN OR BIT CAP_NET_RAW) n \<longleftrightarrow> n = 12 \<or> n = 13"
  by (auto simp: bit_or_iff bit_BIT CAP_NET_ADMIN_def CAP_NET_RAW_def)

text \<open>
  C30: started as root, the Android program goes on as the Wi-Fi user with exactly the two networking
  capabilities; started without the capabilities to change users it keeps its ids, and no start ever
  gives it a capability it was not permitted. The result says nothing of it: it is 0 in every case.
\<close>

theorem android_drops_privileges:
  "fst (android_program_init gs aid c) = 0 \<and>
   permitted (snd (android_program_init gs aid c)) AND NOT (permitted c) = 0 \<and>
   (uid c = 0 \<and> aid \<noteq> 0 \<and> effective c = NOT 0 \<and> permitted c = NOT 0 \<longrightarrow>
      (let c' = snd (android_program_init gs aid c)
       in uid c' = aid \<and> gid c' = aid \<and> groups c' = gs \<and> inheritable c' = 0 \<and>
          permitted c' = effective c' \<and> (\<forall>n. bit (effective c') n \<longleftrightarrow> n = 12 \<or> n = 13))) \<and>
   (effective c = 0 \<longrightarrow>
      (let c' = snd (android_program_init gs aid c)
       in uid c' = uid c \<and> gid c' = gid c \<and> groups c' = groups c))"
proof (intro conjI impI)
  let ?caps = "BIT CAP_NET_ADMIN OR BIT CAP_NET_RAW"
  show "permitted (snd (android_program_init gs aid c)) AND NOT (permitted c) = 0"
    by (auto simp: android_program_init_def capset_def setuid_def setgid_def set_keepcaps_def setgroups_def Let_def)
  assume root: "uid c = 0 \<and> aid \<noteq> 0 \<and> effective c = NOT 0 \<and> permitted c = NOT 0"
  have "?caps AND NOT (NOT 0) = 0" by simp
  then show "let c' = snd (android_program_init gs aid c)
       in uid c' = aid \<and> gid c' = aid \<and> groups c' = gs \<and> inheritable c' = 0 \<and>
          permitted c' = effective c' \<and> (\<forall>n. bit (effective c') n \<longleftrightarrow> n = 12 \<or> n = 13)"
    using root caps_bits
    by (simp add: android_program_init_def capset_def setuid_def setgid_def set_keepcaps_def setgroups_def
        Let_def CAP_SETGID_def CAP_SETUID_def bit_not_iff)
qed (auto simp: android_program_init_def capset_def setuid_def setgid_def set_keepcaps_def setgroups_def Let_def)

theorem android_drops_privileges_witness:
  "uid (snd (android_program_init [3003, 1010, 1017] 1010
     \<lparr>uid = 0, gid = 0, groups = [], keepcaps = False, effective = NOT 0, permitted = NOT 0, inheritable = 0\<rparr>)) = 1010"
  using android_drops_privileges [of "[3003, 1010, 1017]" 1010
    "\<lparr>uid = 0, gid = 0, groups = [], keepcaps = False, effective = NOT 0, permitted = NOT 0, inheritable = 0\<rparr>"]
  by (simp add: Let_def)

end
