(* ===== verification/Codec.thy ===== *)
theory Codec
  imports Prelude "HOL-Library.AList"
begin

text \<open>
  What the Elixir client says to the daemon and how it reads the answers:
  \<^verbatim>\<open>src/lib/encode.ex\<close> and \<^verbatim>\<open>src/lib/decode.ex\<close>. Strings are those of ASCII characters, on which
  the functions of Elixir's \<^verbatim>\<open>String\<close> module that count or test characters are plain list functions.
  A raised exception is a value.
\<close>

section \<open>Terms and exceptions\<close>

text \<open>A map from atoms is an association list without repeated keys.\<close>

datatype eterm =
    EAtom string
  | EInt int
  | EStr string
  | ETuple "eterm list"
  | EList "eterm list"
  | EMap "(string \<times> eterm) list"

datatype exn = FunctionClauseError | MatchError | ArgumentError | ProtocolError

section \<open>The string library\<close>

definition whitespace :: "char \<Rightarrow> bool" where
  "whitespace c \<longleftrightarrow> c \<in> {CHR 0x20, CHR 0x09, CHR 0x0A, CHR 0x0B, CHR 0x0C, CHR 0x0D}"

definition rstrip_char :: "(char \<Rightarrow> bool) \<Rightarrow> string \<Rightarrow> string" where
  "rstrip_char f s = rev (dropWhile f (rev s))"

abbreviation rstrip :: "string \<Rightarrow> string" where
  "rstrip \<equiv> rstrip_char whitespace"

definition strip :: "string \<Rightarrow> string" where
  "strip s = rstrip (dropWhile whitespace s)"

text \<open>\<^verbatim>\<open>String.length\<close>: a carriage return and a line feed are one grapheme.\<close>

fun graphemes :: "string \<Rightarrow> nat" where
  "graphemes [] = 0"
| "graphemes [c] = 1"
| "graphemes (c # d # s) =
     (if c = CHR 0x0D \<and> d = CHR 0x0A then Suc (graphemes s) else Suc (graphemes (d # s)))"

text \<open>\<^verbatim>\<open>String.split\<close> without and with \<^verbatim>\<open>trim: true\<close>, and with \<^verbatim>\<open>parts\<close> as well.\<close>

fun split_on :: "char \<Rightarrow> string \<Rightarrow> string list" where
  "split_on c [] = [[]]"
| "split_on c (x # s) =
     (if x = c then [] # split_on c s
      else (case split_on c s of [] \<Rightarrow> [[x]] | y # ys \<Rightarrow> (x # y) # ys))"

definition split_trim :: "char \<Rightarrow> string \<Rightarrow> string list" where
  "split_trim c s = filter (\<lambda>p. p \<noteq> []) (split_on c s)"

fun split_parts :: "nat \<Rightarrow> char \<Rightarrow> string \<Rightarrow> string list" where
  "split_parts 0 c s = []"
| "split_parts (Suc 0) c s = (if s = [] then [] else [s])"
| "split_parts (Suc (Suc n)) c s =
     (let s1 = dropWhile (\<lambda>x. x = c) s;
          h = takeWhile (\<lambda>x. x \<noteq> c) s1;
          t = dropWhile (\<lambda>x. x \<noteq> c) s1
      in if s1 = [] then []
         else if t = [] then [h]
         else h # split_parts (Suc n) c (tl t))"

definition digit_value :: "char \<Rightarrow> nat option" where
  "digit_value c =
     (let n = of_char c :: nat
      in if 48 \<le> n \<and> n \<le> 57 then Some (n - 48)
         else if 65 \<le> n \<and> n \<le> 90 then Some (n - 55)
         else if 97 \<le> n \<and> n \<le> 122 then Some (n - 87)
         else None)"

fun parse_digits :: "nat \<Rightarrow> nat \<Rightarrow> string \<Rightarrow> nat option" where
  "parse_digits base acc [] = Some acc"
| "parse_digits base acc (c # s) =
     (case digit_value c of
        None \<Rightarrow> None
      | Some d \<Rightarrow> if d < base then parse_digits base (acc * base + d) s else None)"

definition parse_nat :: "nat \<Rightarrow> string \<Rightarrow> nat option" where
  "parse_nat base s = (if s = [] then None else parse_digits base 0 s)"

text \<open>\<^verbatim>\<open>String.to_integer\<close>; \<open>None\<close> when it raises \<^verbatim>\<open>ArgumentError\<close>.\<close>

definition to_integer :: "string \<Rightarrow> nat \<Rightarrow> int option" where
  "to_integer s base =
     (case s of
        [] \<Rightarrow> None
      | c # r \<Rightarrow>
          (if c = CHR ''-'' then map_option (\<lambda>n. - int n) (parse_nat base r)
           else if c = CHR ''+'' then map_option int (parse_nat base r)
           else map_option int (parse_nat base s)))"

text \<open>Character data: a list of characters, strings and such lists.\<close>

fun chardata :: "eterm list \<Rightarrow> string option" where
  "chardata [] = Some []"
| "chardata (EInt n # r) =
     (if 0 \<le> n \<and> n < 128 then map_option (Cons (char_of (nat n))) (chardata r) else None)"
| "chardata (EStr s # r) = map_option ((@) s) (chardata r)"
| "chardata (EList l # r) =
     (case chardata l of None \<Rightarrow> None | Some s \<Rightarrow> map_option ((@) s) (chardata r))"
| "chardata _ = None"

text \<open>\<^verbatim>\<open>to_string\<close>; the atom \<^verbatim>\<open>nil\<close> is the empty string.\<close>

fun to_string :: "eterm \<Rightarrow> exn + string" where
  "to_string (EAtom a) = Inr (if a = ''nil'' then [] else a)"
| "to_string (EInt i) = Inr (dec_int i)"
| "to_string (EStr s) = Inr s"
| "to_string (EList l) = (case chardata l of None \<Rightarrow> Inl ArgumentError | Some s \<Rightarrow> Inr s)"
| "to_string _ = Inl ProtocolError"

definition try_then :: "exn + 'a \<Rightarrow> ('a \<Rightarrow> exn + 'b) \<Rightarrow> exn + 'b" where
  "try_then r f = (case r of Inl e \<Rightarrow> Inl e | Inr a \<Rightarrow> f a)"

lemma try_then_simps [simp]:
  "try_then (Inl e) f = Inl e"
  "try_then (Inr a) f = f a"
  by (simp_all add: try_then_def)

section \<open>Encoding commands\<close>

definition hex_digit :: "char \<Rightarrow> bool" where
  "hex_digit c \<longleftrightarrow> (case digit_value c of None \<Rightarrow> False | Some d \<Rightarrow> d < 16)"

text \<open>The regular expression is not anchored: it may match anywhere.\<close>

fun mac_prefix :: "nat \<Rightarrow> string \<Rightarrow> bool" where
  "mac_prefix 0 s = True"
| "mac_prefix (Suc n) (a # b # s) =
     (hex_digit a \<and> hex_digit b \<and>
      (n = 0 \<or> (case s of [] \<Rightarrow> False | c # r \<Rightarrow> c = CHR '':'' \<and> mac_prefix n r)))"
| "mac_prefix (Suc n) _ = False"

fun mac_match :: "string \<Rightarrow> bool" where
  "mac_match [] = False"
| "mac_match (c # s) = (mac_prefix 6 (c # s) \<or> mac_match s)"

definition encode_arg :: "eterm \<Rightarrow> exn + string" where
  "encode_arg arg =
     (case arg of
        EStr s \<Rightarrow>
          (if graphemes s = 17 \<and> mac_match s then Inr s
           else Inr (CHR 0x22 # s @ [CHR 0x22]))
      | _ \<Rightarrow> to_string arg)"

definition ctrl_rsp :: "string list" where
  "ctrl_rsp =
     [''CTRL-RSP-IDENTITY'', ''CTRL-RSP-PASSWORD'', ''CTRL-RSP-NEW_PASSWORD'', ''CTRL-RSP-PIN'',
      ''CTRL-RSP-OTP'', ''CTRL-RSP-PASSPHRASE'']"

fun encode_args :: "eterm list \<Rightarrow> exn + string" where
  "encode_args [] = Inr []"
| "encode_args (a # as) =
     try_then (encode_arg a) (\<lambda>s. try_then (encode_args as) (\<lambda>r. Inr (CHR '' '' # s @ r)))"

fun encode :: "eterm \<Rightarrow> exn + string" where
  "encode (EAtom a) = to_string (EAtom a)"
| "encode (ETuple (EAtom a # args)) =
     (if length args = 2 \<and> a \<in> set ctrl_rsp then
        try_then (to_string (args ! 0)) (\<lambda>n.
        try_then (to_string (args ! 1)) (\<lambda>s. Inr (a @ ''-'' @ n @ ''-'' @ s)))
      else if length args \<in> {1, 2, 3} then
        try_then (to_string (EAtom a)) (\<lambda>c.
        try_then (encode_args args) (\<lambda>r. Inr (c @ r)))
      else Inl FunctionClauseError)"
| "encode _ = Inl FunctionClauseError"

section \<open>Decoding notifications\<close>

text \<open>Matching a binary against a prefix.\<close>

fun after_prefix :: "string \<Rightarrow> string \<Rightarrow> string option" where
  "after_prefix [] s = Some s"
| "after_prefix (p # ps) [] = None"
| "after_prefix (p # ps) (c # s) = (if p = c then after_prefix ps s else None)"

definition bss_notif :: "string \<Rightarrow> string \<Rightarrow> exn + eterm" where
  "bss_notif a rest =
     (case split_trim (CHR '' '') rest of
        [entry_id, bssid] \<Rightarrow>
          (case to_integer entry_id 10 of
             None \<Rightarrow> Inl ArgumentError
           | Some n \<Rightarrow> Inr (ETuple [EAtom a, EInt n, EStr bssid]))
      | _ \<Rightarrow> Inl MatchError)"

definition ctrl_req_notif :: "string \<Rightarrow> exn + eterm" where
  "ctrl_req_notif rest =
     (case split_parts 3 (CHR ''-'') rest of
        [field, net_id, txt] \<Rightarrow>
          (case to_integer net_id 10 of
             None \<Rightarrow> Inl ArgumentError
           | Some n \<Rightarrow> Inr (ETuple [EAtom (''CTRL-REQ-'' @ field), EInt n, EStr txt]))
      | _ \<Rightarrow> Inl MatchError)"

text \<open>The clauses of \<^verbatim>\<open>notif\<close>, tried in order.\<close>

definition notif_clauses :: "(string \<times> (string \<Rightarrow> string \<Rightarrow> exn + eterm)) list" where
  "notif_clauses =
     [(''CTRL-REQ-'', \<lambda>s rest. ctrl_req_notif rest),
      (''CTRL-EVENT-BSS-ADDED'', \<lambda>s rest. bss_notif ''CTRL-EVENT-BSS-ADDED'' rest),
      (''CTRL-EVENT-BSS-REMOVED'', \<lambda>s rest. bss_notif ''CTRL-EVENT-BSS-REMOVED'' rest),
      (''CTRL-EVENT-CONNECTED'', \<lambda>s rest. Inr (EAtom ''CTRL-EVENT-CONNECTED'')),
      (''CTRL-EVENT-DISCONNECTED'', \<lambda>s rest. Inr (EAtom ''CTRL-EVENT-DISCONNECTED'')),
      (''CTRL-EVENT-'', \<lambda>s rest. Inr (EAtom (rstrip s))),
      (''WPS-'', \<lambda>s rest. Inr (EAtom (rstrip s))),
      (''AP-STA-CONNECTED '', \<lambda>s rest. Inr (ETuple [EAtom ''AP-STA-CONNECTED'', EStr (rstrip rest)])),
      (''AP-STA-DISCONNECTED '', \<lambda>s rest. Inr (ETuple [EAtom ''AP-STA-DISCONNECTED'', EStr (rstrip rest)])),
      ([], \<lambda>s rest. Inr (ETuple [EAtom ''INFO'', EStr (rstrip s)]))]"

fun first_clause ::
  "(string \<times> (string \<Rightarrow> string \<Rightarrow> exn + eterm)) list \<Rightarrow> string \<Rightarrow> exn + eterm" where
  "first_clause [] s = Inl FunctionClauseError"
| "first_clause ((p, f) # cs) s =
     (case after_prefix p s of Some rest \<Rightarrow> f s rest | None \<Rightarrow> first_clause cs s)"

definition notif :: "string \<Rightarrow> exn + eterm" where
  "notif s = first_clause notif_clauses s"

section \<open>Decoding responses\<close>

definition kv_value :: "string \<Rightarrow> eterm" where
  "kv_value s =
     (let num = (\<lambda>v base. case to_integer v base of Some n \<Rightarrow> EInt n | None \<Rightarrow> EStr v)
      in if s = ''TRUE'' then EAtom ''true''
         else if s = ''FALSE'' then EAtom ''false''
         else if s = [] then EAtom ''nil''
         else (case after_prefix ''0x'' s of Some hex \<Rightarrow> num hex 16 | None \<Rightarrow> num s 10))"

fun kv_fold :: "(string \<times> eterm) list \<Rightarrow> string list \<Rightarrow> exn + (string \<times> eterm) list" where
  "kv_fold acc [] = Inr acc"
| "kv_fold acc (pair # ps) =
     (case split_on (CHR ''='') pair of
        [k, v] \<Rightarrow> kv_fold (AList.update k (kv_value (rstrip v)) acc) ps
      | _ \<Rightarrow> Inl MatchError)"

definition kv_resp :: "string \<Rightarrow> exn + eterm" where
  "kv_resp s = try_then (kv_fold [] (split_trim (CHR 0x0A) s)) (\<lambda>m. Inr (EMap m))"

definition is_bss :: "eterm \<Rightarrow> bool" where
  "is_bss req = (case req of ETuple [EAtom a, _] \<Rightarrow> a = ''BSS'' | _ \<Rightarrow> False)"

definition tresp :: "eterm \<Rightarrow> string \<Rightarrow> exn + eterm" where
  "tresp req s =
     (if req = EAtom ''PING'' \<and> s = ''PONG'' then Inr (EAtom ''PONG'')
      else if req = EAtom ''MIB'' then kv_resp s
      else if req = EAtom ''STATUS'' then kv_resp s
      else if req = EAtom ''STATUS-VERBOSE'' then kv_resp s
      else if is_bss req \<and> s = [] then Inr (EAtom ''nil'')
      else if is_bss req then kv_resp s
      else if req = EAtom ''INTERFACES'' then Inr (EList (map EStr (split_on (CHR 0x0A) s)))
      else if req = EAtom ''ADD_NETWORK'' then
        (case to_integer s 10 of None \<Rightarrow> Inl ArgumentError | Some n \<Rightarrow> Inr (EInt n))
      else if s = ''OK'' then Inr (EAtom ''ok'')
      else if s = ''FAIL'' then Inr (EAtom ''FAIL'')
      else (case s of
              c # r \<Rightarrow>
                (if c = CHR 0x22 then Inr (EStr (rstrip_char (\<lambda>x. x = CHR 0x22) r)) else Inr (EStr s))
            | [] \<Rightarrow> Inr (EStr [])))"

definition resp :: "eterm \<Rightarrow> string \<Rightarrow> exn + eterm" where
  "resp req s = tresp req (strip s)"

section \<open>Addresses and strings\<close>

definition mac_address :: "string \<Rightarrow> bool" where
  "mac_address s \<longleftrightarrow> length s = 17 \<and> mac_prefix 6 s"

lemma graphemes_append:
  "d \<noteq> CHR 0x0A \<Longrightarrow> graphemes (s @ d # t) = graphemes s + graphemes (d # t)"
  by (induction s rule: graphemes.induct) (auto split: if_splits)

lemma graphemes_Cons: "c \<noteq> CHR 0x0D \<Longrightarrow> graphemes (c # s) = Suc (graphemes s)"
  by (cases s) auto

lemma graphemes_0: "graphemes s = 0 \<Longrightarrow> s = []"
  by (induction s rule: graphemes.induct) (auto split: if_splits)

lemma hex_digit_plain: "hex_digit c \<Longrightarrow> c \<noteq> CHR 0x0D \<and> c \<noteq> CHR 0x0A"
  by (auto simp: hex_digit_def digit_value_def)

lemma mac_prefix_Suc:
  "mac_prefix (Suc n) s \<longleftrightarrow>
     (\<exists>a b r. s = a # b # r \<and> hex_digit a \<and> hex_digit b \<and>
        (n = 0 \<or> (\<exists>t. r = CHR '':'' # t \<and> mac_prefix n t)))"
proof (cases s)
  case (Cons a s1)
  then show ?thesis by (cases s1) (auto split: list.splits)
qed simp

text \<open>A matched part has a fixed number of characters, each of them a grapheme.\<close>

lemma mac_prefix_graphemes:
  "mac_prefix (Suc n) s \<Longrightarrow> 3 * n + 2 \<le> length s \<and> graphemes s = 3 * n + 2 + graphemes (drop (3 * n + 2) s)"
proof (induction n arbitrary: s)
  case 0
  then obtain a b r where "s = a # b # r" "hex_digit a" "hex_digit b"
    by (auto simp: mac_prefix_Suc simp del: mac_prefix.simps)
  then show ?case using hex_digit_plain by (simp add: graphemes_Cons)
next
  case (Suc n)
  then obtain a b r where s: "s = a # b # CHR '':'' # r" "hex_digit a" "hex_digit b" "mac_prefix (Suc n) r"
    unfolding mac_prefix_Suc [of "Suc n"] by blast
  have n: "3 * Suc n + 2 = Suc (Suc (Suc (3 * n + 2)))" by simp
  show ?case unfolding n s(1) drop_Suc_Cons
    using Suc.IH [OF s(4)] s(2,3) hex_digit_plain by (simp add: graphemes_Cons)
qed

lemma mac_prefix_plain: "mac_prefix (Suc n) (c # s) \<Longrightarrow> hex_digit c"
  by (cases s) auto

lemma mac_match_split: "mac_match s \<Longrightarrow> \<exists>a b. s = a @ b \<and> mac_prefix 6 b \<and> b \<noteq> []"
proof (induction s)
  case (Cons c s)
  then show ?case by (metis append_Cons append_Nil list.discI mac_match.simps(2))
qed simp

lemma mac_test: "graphemes s = 17 \<and> mac_match s \<longleftrightarrow> mac_address s"
proof
  assume l: "graphemes s = 17 \<and> mac_match s"
  then obtain a b where ab: "s = a @ b" "mac_prefix 6 b" "b \<noteq> []" using mac_match_split by blast
  have six: "(6::nat) = Suc 5" by simp
  obtain c r where c: "b = c # r" using ab(3) by (cases b) auto
  have "hex_digit c" using ab(2) mac_prefix_plain [of 5 c r] unfolding six c by blast
  then have "graphemes s = graphemes a + graphemes b"
    using graphemes_append [of c a r] hex_digit_plain ab(1) c by simp
  moreover have "17 \<le> length b \<and> graphemes b = 17 + graphemes (drop 17 b)"
    using mac_prefix_graphemes [of 5 b] ab(2) by simp
  ultimately have "graphemes a = 0" "graphemes (drop 17 b) = 0" "17 \<le> length b" using l by simp_all
  then have "a = []" "drop 17 b = []" "17 \<le> length b" using graphemes_0 by blast+
  then show "mac_address s" using ab by (simp add: mac_address_def)
next
  assume m: "mac_address s"
  then have "graphemes s = 17" using mac_prefix_graphemes [of 5 s] by (simp add: mac_address_def)
  moreover have "mac_match s" using m by (cases s) (auto simp: mac_address_def)
  ultimately show "graphemes s = 17 \<and> mac_match s" by simp
qed

text \<open>
  A string argument of a command is written as it is when it is a hardware address (six pairs of
  hexadecimal digits with colons, and nothing else, although the pattern in the code is not anchored)
  and between double quotes otherwise, whatever else it contains; numbers and atoms are never quoted.
\<close>

theorem encode_arguments:
  assumes "c \<noteq> ''nil''" and "k \<noteq> ''nil''"
  shows "encode (ETuple [EAtom c, EStr v]) =
      Inr (c @ '' '' @ (if mac_address v then v else CHR 0x22 # v @ [CHR 0x22])) \<and>
    encode (ETuple [EAtom c, EInt n, EAtom k, EStr v]) =
      Inr (c @ '' '' @ dec_int n @ '' '' @ k @ '' '' @ (if mac_address v then v else CHR 0x22 # v @ [CHR 0x22]))"
  using assms mac_test [of v] by (simp add: encode_arg_def)

theorem encode_arguments_witness:
  "encode (ETuple [EAtom ''SET_NETWORK'', EInt 1, EAtom ''ssid'', EStr ''a b'']) =
     Inr (''SET_NETWORK 1 ssid '' @ CHR 0x22 # ''a b'' @ [CHR 0x22]) \<and>
   encode (ETuple [EAtom ''PREAUTH'', EStr ''00:09:5b:95:e0:4e'']) = Inr ''PREAUTH 00:09:5b:95:e0:4e''"
proof -
  have n: "''SET_NETWORK'' \<noteq> ''nil''" "''ssid'' \<noteq> ''nil''" "''PREAUTH'' \<noteq> ''nil''" by simp_all
  have "\<not> mac_address ''a b''" "dec_int 1 = ''1''" by code_simp+
  moreover have "mac_address ''00:09:5b:95:e0:4e''" by code_simp
  ultimately show ?thesis
    using encode_arguments [OF n(1,2), of "''a b''" 1] encode_arguments [OF n(3,2), of "''00:09:5b:95:e0:4e''"]
    by simp
qed

section \<open>Key-value responses\<close>

text \<open>A response as the daemon writes it: a line for each pair.\<close>

definition kv_line :: "string \<times> string \<Rightarrow> string" where
  "kv_line p = fst p @ CHR ''='' # snd p"

definition kv_text :: "(string \<times> string) list \<Rightarrow> string" where
  "kv_text kvs = concat (map (\<lambda>p. kv_line p @ [CHR 0x0A]) kvs)"

text \<open>Different responses differ in their pairs: the lines can be told apart.\<close>

interpretation kv_lines: message_code "\<lambda>p. kv_line p @ [CHR 0x0A]"
    "\<lambda>p. CHR 0x0A \<notin> set (fst p @ snd p) \<and> CHR ''='' \<notin> set (fst p)"
proof
  fix p q :: "string \<times> string" and s t
  have first: "x = y \<and> u = v" if "x @ c # u = y @ c # v" "c \<notin> set x" "c \<notin> set y"
    for x y u v and c :: char
    using that by (induction x arbitrary: y) (case_tac y; auto)+
  assume "(kv_line p @ [CHR 0x0A]) @ s = (kv_line q @ [CHR 0x0A]) @ t"
    and p: "CHR 0x0A \<notin> set (fst p @ snd p) \<and> CHR ''='' \<notin> set (fst p)"
      "CHR 0x0A \<notin> set (fst q @ snd q) \<and> CHR ''='' \<notin> set (fst q)"
  then have "fst p @ CHR ''='' # snd p @ CHR 0x0A # s = fst q @ CHR ''='' # snd q @ CHR 0x0A # t"
    by (simp add: kv_line_def)
  with first p have "fst p = fst q" "snd p @ CHR 0x0A # s = snd q @ CHR 0x0A # t" by blast+
  with first [of "snd p" "CHR 0x0A" s "snd q" t] p show "p = q \<and> s = t" by (simp add: prod_eq_iff)
qed (simp add: kv_line_def)

lemma kv_text_inj:
  assumes "kv_text kvs = kv_text kvs'"
    and "\<forall>p \<in> set kvs \<union> set kvs'. CHR 0x0A \<notin> set (fst p @ snd p) \<and> CHR ''='' \<notin> set (fst p)"
  shows "kvs = kvs'"
  by (rule kv_lines.stream_inj) (use assms in \<open>auto simp: kv_text_def list_all_iff\<close>)

lemma split_on_none: "c \<notin> set s \<Longrightarrow> split_on c s = [s]"
  by (induction s) auto

lemma split_on_append: "c \<notin> set s \<Longrightarrow> split_on c (s @ c # t) = s # split_on c t"
  by (induction s) auto

lemma split_on_nonempty: "split_on c s \<noteq> []"
  by (induction s) (auto split: list.splits)

lemma split_on_length: "length (split_on c s) = Suc (length (filter (\<lambda>x. x = c) s))"
  by (induction s) (auto split: list.splits simp: split_on_nonempty)

lemma split_trim_lines:
  "\<forall>l \<in> set ls. l \<noteq> [] \<and> c \<notin> set l \<Longrightarrow>
   split_trim c (concat (map (\<lambda>l. l @ [c]) ls) @ t) = ls @ split_trim c t"
  by (induction ls) (auto simp: split_trim_def split_on_append)

lemma rstrip_stop: "\<not> f x \<Longrightarrow> rstrip_char f (a @ x # b) = a @ x # rstrip_char f b"
  by (simp add: rstrip_char_def dropWhile_append)

lemma rstrip_drop: "f x \<Longrightarrow> rstrip_char f (a @ [x]) = rstrip_char f a"
  by (simp add: rstrip_char_def)

lemma rstrip_idem [simp]: "rstrip_char f (rstrip_char f s) = rstrip_char f s"
  by (simp add: rstrip_char_def dropWhile_idem [of f "rev s"])

lemma rstrip_subset: "set (rstrip_char f s) \<subseteq> set s"
  by (auto simp: rstrip_char_def dest: set_dropWhileD)

lemma whitespace_simps [simp]:
  "whitespace CHR 0x0A" "\<not> whitespace CHR ''=''" "\<not> whitespace CHR 0x22"
  by (simp_all add: whitespace_def)

text \<open>What is left of the text when the white space at both ends is gone.\<close>

lemma kv_text_lines:
  assumes kvs: "kvs = xs @ [(k, v)]"
    and first: "fst (hd kvs) \<noteq> [] \<and> \<not> whitespace (hd (fst (hd kvs)))"
    and plain: "\<forall>p \<in> set kvs. CHR 0x0A \<notin> set (fst p @ snd p)"
  shows "split_trim (CHR 0x0A) (strip (kv_text kvs)) = map kv_line (xs @ [(k, rstrip v)])"
proof -
  let ?ls = "map kv_line xs"
  let ?body = "concat (map (\<lambda>l. l @ [CHR 0x0A]) ?ls)"
  have "dropWhile whitespace (kv_text kvs) = kv_text kvs"
    using first kvs by (cases "fst (hd kvs)"; cases xs) (auto simp: kv_text_def kv_line_def)
  moreover have "kv_text kvs = (?body @ k) @ CHR ''='' # v @ [CHR 0x0A]"
    by (simp add: kvs kv_text_def kv_line_def o_def)
  moreover have "rstrip ((?body @ k) @ CHR ''='' # v @ [CHR 0x0A]) = ?body @ k @ CHR ''='' # rstrip v"
    using rstrip_stop [of whitespace "CHR ''=''" "?body @ k" "v @ [CHR 0x0A]"]
      rstrip_drop [of whitespace "CHR 0x0A" v] by simp
  ultimately have strip: "strip (kv_text kvs) = ?body @ kv_line (k, rstrip v)"
    by (simp add: strip_def kv_line_def)
  have "CHR 0x0A \<notin> set (kv_line (k, rstrip v))"
    using plain kvs rstrip_subset [of whitespace v] by (auto simp: kv_line_def)
  then have "split_trim (CHR 0x0A) (kv_line (k, rstrip v)) = [kv_line (k, rstrip v)]"
    by (simp add: split_trim_def split_on_none) (simp add: kv_line_def)
  moreover have "\<forall>l \<in> set ?ls. l \<noteq> [] \<and> CHR 0x0A \<notin> set l" using plain kvs by (auto simp: kv_line_def)
  ultimately show ?thesis unfolding strip using split_trim_lines [of ?ls "CHR 0x0A"] by simp
qed

lemma kv_line_split:
  "CHR ''='' \<notin> set (fst p) \<Longrightarrow>
   split_on (CHR ''='') (kv_line p) = fst p # split_on (CHR ''='') (snd p)"
  by (simp add: kv_line_def split_on_append)


lemma kv_fold_equals:
  assumes "p \<in> set kvs" and "CHR ''='' \<in> set (snd p)" and "\<forall>p \<in> set kvs. CHR ''='' \<notin> set (fst p)"
  shows "kv_fold acc (map kv_line kvs) = Inl MatchError"
  using assms
proof (induction kvs arbitrary: acc)
  case (Cons q kvs)
  have q: "split_on (CHR ''='') (kv_line q) = fst q # split_on (CHR ''='') (snd q)"
    using Cons.prems(3) by (simp add: kv_line_split)
  show ?case
  proof (cases "CHR ''='' \<in> set (snd q)")
    case True
    then have "0 < length (filter (\<lambda>x. x = CHR ''='') (snd q))" by (auto simp: filter_empty_conv)
    then have "2 \<le> length (split_on (CHR ''='') (snd q))" by (simp add: split_on_length Suc_le_eq)
    then obtain a b r where "split_on (CHR ''='') (snd q) = a # b # r"
      by (cases "split_on (CHR ''='') (snd q)"; cases "tl (split_on (CHR ''='') (snd q))") auto
    then show ?thesis using q by simp
  next
    case False
    then have "p \<in> set kvs" using Cons.prems by auto
    then show ?thesis using Cons q False by (simp add: split_on_none)
  qed
qed simp

text \<open>A value that only looks like a hexadecimal number loses its first two characters.\<close>

lemma hex_prefix_lost:
  "to_integer v 16 = None \<Longrightarrow> kv_value (''0x'' @ v) = EStr v"
  by (simp add: kv_value_def)

definition kv_request :: "eterm \<Rightarrow> bool" where
  "kv_request req \<longleftrightarrow> req \<in> {EAtom ''MIB'', EAtom ''STATUS'', EAtom ''STATUS-VERBOSE''} \<or> is_bss req"

lemma is_bss_tuple: "is_bss req \<Longrightarrow> \<exists>ts. req = ETuple ts"
  by (cases req) (auto simp: is_bss_def)

lemma resp_kv:
  assumes "kv_request req" and "strip s \<noteq> []"
  shows "resp req s = kv_resp (strip s)"
proof (cases "is_bss req")
  case True
  then obtain ts where "req = ETuple ts" using is_bss_tuple by blast
  then show ?thesis using True assms(2) by (simp add: resp_def tresp_def)
next
  case False
  then consider "req = EAtom ''MIB''" | "req = EAtom ''STATUS''" | "req = EAtom ''STATUS-VERBOSE''"
    using assms(1) by (auto simp: kv_request_def)
  then show ?thesis by cases (simp_all add: resp_def tresp_def)
qed

lemma resp_kv_text:
  assumes "kv_request req" and "kvs = xs @ [(k, v)]"
    and "fst (hd kvs) \<noteq> [] \<and> \<not> whitespace (hd (fst (hd kvs)))"
    and "\<forall>p \<in> set kvs. CHR 0x0A \<notin> set (fst p @ snd p)"
  shows "resp req (kv_text kvs) =
    try_then (kv_fold [] (map kv_line (xs @ [(k, rstrip v)]))) (\<lambda>m. Inr (EMap m))"
proof -
  note t = kv_text_lines [OF assms(2-4)]
  have "strip (kv_text kvs) \<noteq> []" using t by (auto simp: split_trim_def)
  then show ?thesis using t resp_kv [OF assms(1)] by (simp add: kv_resp_def)
qed



text \<open>
  One equals sign in a value, a network's name for example, makes the decoder raise
  \<^verbatim>\<open>MatchError\<close> whatever else is in the response.
\<close>

theorem status_equals_sign_raises:
  assumes "kv_request req" and "p \<in> set kvs" and "CHR ''='' \<in> set (snd p)"
    and "fst (hd kvs) \<noteq> [] \<and> \<not> whitespace (hd (fst (hd kvs)))"
    and "\<forall>p \<in> set kvs. CHR 0x0A \<notin> set (fst p @ snd p) \<and> CHR ''='' \<notin> set (fst p)"
  shows "resp req (kv_text kvs) = Inl MatchError"
proof -
  obtain xs k v where kvs: "kvs = xs @ [(k, v)]"
    using assms(2) by (metis append_butlast_last_id surj_pair empty_iff empty_set)
  have "CHR ''='' \<in> set (rstrip v)" if eq: "CHR ''='' \<in> set v"
  proof -
    obtain a b where "v = a @ CHR ''='' # b" using split_list [OF eq] by blast
    then show ?thesis using rstrip_stop [of whitespace "CHR ''=''" a b] by simp
  qed
  then have "\<exists>p' \<in> set (xs @ [(k, rstrip v)]). CHR ''='' \<in> set (snd p')"
    using assms(2,3) kvs by (cases "p = (k, v)") auto
  then obtain p' where p': "p' \<in> set (xs @ [(k, rstrip v)])" "CHR ''='' \<in> set (snd p')" by blast
  have "\<forall>p \<in> set (xs @ [(k, rstrip v)]). CHR ''='' \<notin> set (fst p)" using assms(5) kvs by auto
  from kv_fold_equals [OF p' this] show ?thesis
    using resp_kv_text [OF assms(1) kvs assms(4)] assms(5) by simp
qed

theorem status_equals_sign_raises_witness:
  "resp (EAtom ''STATUS'') (kv_text [(''ssid'', ''a=b''), (''id'', ''0'')]) = Inl MatchError"
  by (rule status_equals_sign_raises [of _ "(''ssid'', ''a=b'')"])
    (auto simp: kv_request_def whitespace_def)

text \<open>
  A quoted string the daemon sends back, the value of a network's variable for example, is
  decoded to what was between the quotes, less all quotes at its end; so a string that
  \<^verbatim>\<open>encode_arg\<close> quoted comes back unchanged exactly when it does not end in a quote.
\<close>

theorem quoted_string_round_trip:
  assumes "encode_arg (EStr s) = Inr (CHR 0x22 # s @ [CHR 0x22])"
  shows "(\<exists>t. resp (ETuple [EAtom ''GET_NETWORK'', n, v]) (CHR 0x22 # s @ [CHR 0x22]) = Inr (EStr t) \<and>
      (t = s \<longleftrightarrow> s = [] \<or> last s \<noteq> CHR 0x22))"
proof -
  let ?q = "CHR 0x22" and ?f = "\<lambda>x. x = CHR 0x22"
  have "strip (?q # s @ [?q]) = ?q # s @ [?q]"
    using rstrip_stop [of whitespace ?q "?q # s" "[]"] by (simp add: strip_def rstrip_char_def)
  moreover have "?q # s @ [?q] \<noteq> ''OK''" "?q # s @ [?q] \<noteq> ''FAIL''" by simp_all
  ultimately have "resp (ETuple [EAtom ''GET_NETWORK'', n, v]) (?q # s @ [?q]) = Inr (EStr (rstrip_char ?f s))"
    by (simp add: resp_def tresp_def is_bss_def rstrip_char_def)
  moreover have "rstrip_char ?f s = s \<longleftrightarrow> s = [] \<or> last s \<noteq> ?q"
  proof (cases s rule: rev_exhaust)
    case (snoc t x)
    have "length (rstrip_char ?f t) \<le> length t"
      using length_dropWhile_le [of ?f "rev t"] by (simp add: rstrip_char_def)
    then have "rstrip_char ?f t \<noteq> t @ [x]" by auto
    then show ?thesis using snoc by (auto simp: rstrip_char_def)
  qed (simp add: rstrip_char_def)
  ultimately show ?thesis by blast
qed

theorem quoted_string_round_trip_witness:
  "\<exists>t. resp (ETuple [EAtom ''GET_NETWORK'', EInt 0, EAtom ''ssid'']) (CHR 0x22 # ''MySSID'' @ [CHR 0x22]) = Inr (EStr t) \<and>
     t = ''MySSID''"
proof -
  have "\<not> mac_address ''MySSID''" by code_simp
  then have "encode_arg (EStr ''MySSID'') = Inr (CHR 0x22 # ''MySSID'' @ [CHR 0x22])"
    using mac_test [of "''MySSID''"] by (simp add: encode_arg_def)
  from quoted_string_round_trip [OF this, of "EInt 0" "EAtom ''ssid''"] show ?thesis by auto
qed

end
