(* ===== verification/Events.thy ===== *)
theory Events
  imports Codec
begin

text \<open>
  The prefixes of the daemon's messages and the masks of its BSS command, from
  \<^verbatim>\<open>src/src/wpa_ctrl/wpa_ctrl.h\<close>, and how the Elixir decoder reads messages that begin so. An entry of
  a table is the name of a macro and its text.
\<close>

unbundle bit_operations_syntax

section \<open>Prefixes\<close>

text \<open>Requests for and answers with credentials.\<close>

definition ctrl_prefixes :: "(string \<times> string) list" where
  "ctrl_prefixes =
     [(''WPA_CTRL_REQ'', ''CTRL-REQ-''),
      (''WPA_CTRL_RSP'', ''CTRL-RSP-'')]"

text \<open>Events of the supplicant.\<close>

definition wpa_event_prefixes :: "(string \<times> string) list" where
  "wpa_event_prefixes =
     [(''WPA_EVENT_CONNECTED'', ''CTRL-EVENT-CONNECTED ''),
      (''WPA_EVENT_DISCONNECTED'', ''CTRL-EVENT-DISCONNECTED ''),
      (''WPA_EVENT_ASSOC_REJECT'', ''CTRL-EVENT-ASSOC-REJECT ''),
      (''WPA_EVENT_TERMINATING'', ''CTRL-EVENT-TERMINATING ''),
      (''WPA_EVENT_PASSWORD_CHANGED'', ''CTRL-EVENT-PASSWORD-CHANGED ''),
      (''WPA_EVENT_EAP_NOTIFICATION'', ''CTRL-EVENT-EAP-NOTIFICATION ''),
      (''WPA_EVENT_EAP_STARTED'', ''CTRL-EVENT-EAP-STARTED ''),
      (''WPA_EVENT_EAP_PROPOSED_METHOD'', ''CTRL-EVENT-EAP-PROPOSED-METHOD ''),
      (''WPA_EVENT_EAP_METHOD'', ''CTRL-EVENT-EAP-METHOD ''),
      (''WPA_EVENT_EAP_PEER_CERT'', ''CTRL-EVENT-EAP-PEER-CERT ''),
      (''WPA_EVENT_EAP_TLS_CERT_ERROR'', ''CTRL-EVENT-EAP-TLS-CERT-ERROR ''),
      (''WPA_EVENT_EAP_STATUS'', ''CTRL-EVENT-EAP-STATUS ''),
      (''WPA_EVENT_EAP_SUCCESS'', ''CTRL-EVENT-EAP-SUCCESS ''),
      (''WPA_EVENT_EAP_FAILURE'', ''CTRL-EVENT-EAP-FAILURE ''),
      (''WPA_EVENT_TEMP_DISABLED'', ''CTRL-EVENT-SSID-TEMP-DISABLED ''),
      (''WPA_EVENT_REENABLED'', ''CTRL-EVENT-SSID-REENABLED ''),
      (''WPA_EVENT_SCAN_STARTED'', ''CTRL-EVENT-SCAN-STARTED ''),
      (''WPA_EVENT_SCAN_RESULTS'', ''CTRL-EVENT-SCAN-RESULTS ''),
      (''WPA_EVENT_STATE_CHANGE'', ''CTRL-EVENT-STATE-CHANGE ''),
      (''WPA_EVENT_BSS_ADDED'', ''CTRL-EVENT-BSS-ADDED ''),
      (''WPA_EVENT_BSS_REMOVED'', ''CTRL-EVENT-BSS-REMOVED ''),
      (''IBSS_RSN_COMPLETED'', ''IBSS-RSN-COMPLETED ''),
      (''WPA_EVENT_FREQ_CONFLICT'', ''CTRL-EVENT-FREQ-CONFLICT ''),
      (''WPA_EVENT_AVOID_FREQ'', ''CTRL-EVENT-AVOID-FREQ '')]"

text \<open>Events of Wi-Fi Protected Setup.\<close>

definition wps_event_prefixes :: "(string \<times> string) list" where
  "wps_event_prefixes =
     [(''WPS_EVENT_OVERLAP'', ''WPS-OVERLAP-DETECTED ''),
      (''WPS_EVENT_AP_AVAILABLE_PBC'', ''WPS-AP-AVAILABLE-PBC ''),
      (''WPS_EVENT_AP_AVAILABLE_AUTH'', ''WPS-AP-AVAILABLE-AUTH ''),
      (''WPS_EVENT_AP_AVAILABLE_PIN'', ''WPS-AP-AVAILABLE-PIN ''),
      (''WPS_EVENT_AP_AVAILABLE'', ''WPS-AP-AVAILABLE ''),
      (''WPS_EVENT_CRED_RECEIVED'', ''WPS-CRED-RECEIVED ''),
      (''WPS_EVENT_M2D'', ''WPS-M2D ''),
      (''WPS_EVENT_FAIL'', ''WPS-FAIL ''),
      (''WPS_EVENT_SUCCESS'', ''WPS-SUCCESS ''),
      (''WPS_EVENT_TIMEOUT'', ''WPS-TIMEOUT ''),
      (''WPS_EVENT_ACTIVE'', ''WPS-PBC-ACTIVE ''),
      (''WPS_EVENT_DISABLE'', ''WPS-PBC-DISABLE ''),
      (''WPS_EVENT_ENROLLEE_SEEN'', ''WPS-ENROLLEE-SEEN ''),
      (''WPS_EVENT_OPEN_NETWORK'', ''WPS-OPEN-NETWORK ''),
      (''WPS_EVENT_ER_AP_ADD'', ''WPS-ER-AP-ADD ''),
      (''WPS_EVENT_ER_AP_REMOVE'', ''WPS-ER-AP-REMOVE ''),
      (''WPS_EVENT_ER_ENROLLEE_ADD'', ''WPS-ER-ENROLLEE-ADD ''),
      (''WPS_EVENT_ER_ENROLLEE_REMOVE'', ''WPS-ER-ENROLLEE-REMOVE ''),
      (''WPS_EVENT_ER_AP_SETTINGS'', ''WPS-ER-AP-SETTINGS ''),
      (''WPS_EVENT_ER_SET_SEL_REG'', ''WPS-ER-AP-SET-SEL-REG '')]"

text \<open>Events of peer-to-peer operation, interworking and queries.\<close>

definition p2p_event_prefixes :: "(string \<times> string) list" where
  "p2p_event_prefixes =
     [(''P2P_EVENT_DEVICE_FOUND'', ''P2P-DEVICE-FOUND ''),
      (''P2P_EVENT_DEVICE_LOST'', ''P2P-DEVICE-LOST ''),
      (''P2P_EVENT_GO_NEG_REQUEST'', ''P2P-GO-NEG-REQUEST ''),
      (''P2P_EVENT_GO_NEG_SUCCESS'', ''P2P-GO-NEG-SUCCESS ''),
      (''P2P_EVENT_GO_NEG_FAILURE'', ''P2P-GO-NEG-FAILURE ''),
      (''P2P_EVENT_GROUP_FORMATION_SUCCESS'', ''P2P-GROUP-FORMATION-SUCCESS ''),
      (''P2P_EVENT_GROUP_FORMATION_FAILURE'', ''P2P-GROUP-FORMATION-FAILURE ''),
      (''P2P_EVENT_GROUP_STARTED'', ''P2P-GROUP-STARTED ''),
      (''P2P_EVENT_GROUP_REMOVED'', ''P2P-GROUP-REMOVED ''),
      (''P2P_EVENT_CROSS_CONNECT_ENABLE'', ''P2P-CROSS-CONNECT-ENABLE ''),
      (''P2P_EVENT_CROSS_CONNECT_DISABLE'', ''P2P-CROSS-CONNECT-DISABLE ''),
      (''P2P_EVENT_PROV_DISC_SHOW_PIN'', ''P2P-PROV-DISC-SHOW-PIN ''),
      (''P2P_EVENT_PROV_DISC_ENTER_PIN'', ''P2P-PROV-DISC-ENTER-PIN ''),
      (''P2P_EVENT_PROV_DISC_PBC_REQ'', ''P2P-PROV-DISC-PBC-REQ ''),
      (''P2P_EVENT_PROV_DISC_PBC_RESP'', ''P2P-PROV-DISC-PBC-RESP ''),
      (''P2P_EVENT_PROV_DISC_FAILURE'', ''P2P-PROV-DISC-FAILURE''),
      (''P2P_EVENT_SERV_DISC_REQ'', ''P2P-SERV-DISC-REQ ''),
      (''P2P_EVENT_SERV_DISC_RESP'', ''P2P-SERV-DISC-RESP ''),
      (''P2P_EVENT_INVITATION_RECEIVED'', ''P2P-INVITATION-RECEIVED ''),
      (''P2P_EVENT_INVITATION_RESULT'', ''P2P-INVITATION-RESULT ''),
      (''P2P_EVENT_FIND_STOPPED'', ''P2P-FIND-STOPPED ''),
      (''P2P_EVENT_PERSISTENT_PSK_FAIL'', ''P2P-PERSISTENT-PSK-FAIL id=''),
      (''P2P_EVENT_PRESENCE_RESPONSE'', ''P2P-PRESENCE-RESPONSE ''),
      (''P2P_EVENT_NFC_BOTH_GO'', ''P2P-NFC-BOTH-GO ''),
      (''P2P_EVENT_NFC_PEER_CLIENT'', ''P2P-NFC-PEER-CLIENT ''),
      (''P2P_EVENT_NFC_WHILE_CLIENT'', ''P2P-NFC-WHILE-CLIENT ''),
      (''ESS_DISASSOC_IMMINENT'', ''ESS-DISASSOC-IMMINENT ''),
      (''P2P_EVENT_REMOVE_AND_REFORM_GROUP'', ''P2P-REMOVE-AND-REFORM-GROUP ''),
      (''INTERWORKING_AP'', ''INTERWORKING-AP ''),
      (''INTERWORKING_NO_MATCH'', ''INTERWORKING-NO-MATCH ''),
      (''INTERWORKING_ALREADY_CONNECTED'', ''INTERWORKING-ALREADY-CONNECTED ''),
      (''GAS_RESPONSE_INFO'', ''GAS-RESPONSE-INFO ''),
      (''GAS_QUERY_START'', ''GAS-QUERY-START ''),
      (''GAS_QUERY_DONE'', ''GAS-QUERY-DONE ''),
      (''EXT_RADIO_WORK_START'', ''EXT-RADIO-WORK-START ''),
      (''EXT_RADIO_WORK_TIMEOUT'', ''EXT-RADIO-WORK-TIMEOUT '')]"

text \<open>Events of the access point.\<close>

definition hostapd_event_prefixes :: "(string \<times> string) list" where
  "hostapd_event_prefixes =
     [(''WPS_EVENT_PIN_NEEDED'', ''WPS-PIN-NEEDED ''),
      (''WPS_EVENT_NEW_AP_SETTINGS'', ''WPS-NEW-AP-SETTINGS ''),
      (''WPS_EVENT_REG_SUCCESS'', ''WPS-REG-SUCCESS ''),
      (''WPS_EVENT_AP_SETUP_LOCKED'', ''WPS-AP-SETUP-LOCKED ''),
      (''WPS_EVENT_AP_SETUP_UNLOCKED'', ''WPS-AP-SETUP-UNLOCKED ''),
      (''WPS_EVENT_AP_PIN_ENABLED'', ''WPS-AP-PIN-ENABLED ''),
      (''WPS_EVENT_AP_PIN_DISABLED'', ''WPS-AP-PIN-DISABLED ''),
      (''AP_STA_CONNECTED'', ''AP-STA-CONNECTED ''),
      (''AP_STA_DISCONNECTED'', ''AP-STA-DISCONNECTED ''),
      (''AP_REJECTED_MAX_STA'', ''AP-REJECTED-MAX-STA ''),
      (''AP_REJECTED_BLOCKED_STA'', ''AP-REJECTED-BLOCKED-STA ''),
      (''AP_EVENT_ENABLED'', ''AP-ENABLED ''),
      (''AP_EVENT_DISABLED'', ''AP-DISABLED ''),
      (''ACS_EVENT_STARTED'', ''ACS-STARTED ''),
      (''ACS_EVENT_COMPLETED'', ''ACS-COMPLETED ''),
      (''ACS_EVENT_FAILED'', ''ACS-FAILED ''),
      (''DFS_EVENT_RADAR_DETECTED'', ''DFS-RADAR-DETECTED ''),
      (''DFS_EVENT_NEW_CHANNEL'', ''DFS-NEW-CHANNEL ''),
      (''DFS_EVENT_CAC_START'', ''DFS-CAC-START ''),
      (''DFS_EVENT_CAC_COMPLETED'', ''DFS-CAC-COMPLETED ''),
      (''DFS_EVENT_NOP_FINISHED'', ''DFS-NOP-FINISHED ''),
      (''AP_CSA_FINISHED'', ''AP-CSA-FINISHED '')]"


definition prefixes :: "(string \<times> string) list" where
  "prefixes =
     ctrl_prefixes @ wpa_event_prefixes @ wps_event_prefixes @ p2p_event_prefixes @ hostapd_event_prefixes"

definition starts_with :: "string \<Rightarrow> string \<Rightarrow> bool" where
  "starts_with p s \<longleftrightarrow> after_prefix p s \<noteq> None"

text \<open>
  An order of texts by the first place where they differ: texts that begin one another are not
  related, so a list that can be sorted strictly has none of these.
\<close>

fun before :: "string \<Rightarrow> string \<Rightarrow> bool" where
  "before (a # s) (b # t) = (if a = b then before s t else (of_char a :: nat) < of_char b)"
| "before _ _ = False"

fun merge_texts :: "string list \<Rightarrow> string list \<Rightarrow> string list" where
  "merge_texts [] ys = ys"
| "merge_texts xs [] = xs"
| "merge_texts (x # xs) (y # ys) =
     (if before x y then x # merge_texts xs (y # ys) else y # merge_texts (x # xs) ys)"

fun merge_pairs :: "string list list \<Rightarrow> string list list" where
  "merge_pairs (xs # ys # zss) = merge_texts xs ys # merge_pairs zss"
| "merge_pairs zss = zss"

definition sorted_texts :: "string list \<Rightarrow> string list" where
  "sorted_texts ps = concat ((merge_pairs ^^ 7) (map (\<lambda>p. [p]) ps))"

lemma set_merge_texts [simp]: "set (merge_texts xs ys) = set xs \<union> set ys"
  by (induction xs ys rule: merge_texts.induct) auto

lemma set_merge_pairs [simp]: "\<Union> (set ` set (merge_pairs zss)) = \<Union> (set ` set zss)"
  by (induction zss rule: merge_pairs.induct) auto

lemma set_sorted_texts: "set (sorted_texts ps) = set ps"
proof -
  have "\<Union> (set ` set ((merge_pairs ^^ n) zss)) = \<Union> (set ` set zss)" for n zss
    by (induction n) simp_all
  then show ?thesis by (simp add: sorted_texts_def)
qed

lemma before_trans: "before p q \<Longrightarrow> before q r \<Longrightarrow> before p r"
proof (induction p q arbitrary: r rule: before.induct)
  case (1 a s b t)
  then show ?case by (cases r) (auto split: if_splits)
qed auto

lemma before_starts: "before p q \<Longrightarrow> \<not> starts_with p q \<and> \<not> starts_with q p"
  by (induction p q rule: before.induct) (auto simp: starts_with_def split: if_splits)

lemma prefixes_sorted: "successively before (sorted_texts (map snd prefixes))"
  by code_simp

lemma prefixes_free:
  assumes "p \<in> set (map snd prefixes)" and "q \<in> set (map snd prefixes)" and "p \<noteq> q"
  shows "\<not> starts_with p q"
proof -
  let ?l = "sorted_texts (map snd prefixes)"
  have "transp before" using before_trans by (auto intro: transpI)
  then have "sorted_wrt before ?l" using prefixes_sorted by (simp add: successively_conv_sorted_wrt)
  moreover obtain i j where "i < length ?l" "j < length ?l" "?l ! i = p" "?l ! j = q"
    using assms(1,2) unfolding set_sorted_texts [symmetric, of "map snd prefixes"] by (metis in_set_conv_nth)
  ultimately have "before p q \<or> before q p"
    using assms(3) by (cases i j rule: linorder_cases) (auto simp: sorted_wrt_nth_less)
  then show ?thesis using before_starts by blast
qed

lemma after_prefix_append: "after_prefix p s = Some r \<longleftrightarrow> s = p @ r"
  by (induction p s rule: after_prefix.induct) auto

lemma starts_with_linear:
  "starts_with p s \<Longrightarrow> starts_with q s \<Longrightarrow> starts_with p q \<or> starts_with q p"
  by (auto simp: starts_with_def after_prefix_append append_eq_append_conv2)

text \<open>
  C31: no text of \<^verbatim>\<open>wpa_ctrl.h\<close> begins another one, so a message begins with at most one of them and a
  client that compares prefixes, in whatever order, recognises it as that one only.
\<close>

theorem prefixes_told_apart:
  assumes "p \<in> set (map snd prefixes)" and "q \<in> set (map snd prefixes)"
    and "starts_with p msg" and "starts_with q msg"
  shows "p = q"
  using starts_with_linear [OF assms(3,4)] prefixes_free assms(1,2) by blast

theorem prefixes_told_apart_witness:
  "starts_with ''WPS-AP-AVAILABLE-PBC '' ''WPS-AP-AVAILABLE-PBC id=3'' \<and>
   \<not> starts_with ''WPS-AP-AVAILABLE '' ''WPS-AP-AVAILABLE-PBC id=3''"
proof -
  have "''WPS-AP-AVAILABLE-PBC '' \<in> set (map snd prefixes)" "''WPS-AP-AVAILABLE '' \<in> set (map snd prefixes)"
    by (simp_all add: prefixes_def wps_event_prefixes_def)
  moreover have "starts_with ''WPS-AP-AVAILABLE-PBC '' ''WPS-AP-AVAILABLE-PBC id=3''"
    by (simp add: starts_with_def)
  ultimately show ?thesis using prefixes_told_apart by fastforce
qed

section \<open>Reading events\<close>

lemma digit_value_digit: "d < 10 \<Longrightarrow> digit_value (digit_char d) = Some d"
  using of_char_digit_char [of d] by (simp add: digit_value_def Let_def)

lemma parse_digits_append:
  "parse_digits b a (s @ t) = (case parse_digits b a s of None \<Rightarrow> None | Some n \<Rightarrow> parse_digits b n t)"
  by (induction s arbitrary: a) (auto split: option.split)

lemma parse_digits_dec: "parse_digits 10 0 (dec_nat n) = Some n"
proof (induction n rule: dec_nat.induct)
  case (1 n)
  then show ?case using digit_value_digit [of n] digit_value_digit [of "n mod 10"]
    by (cases "n < 10") (auto simp: dec_nat.simps [of n] parse_digits_append)
qed

lemma dec_nat_plain: "c \<in> set (dec_nat n) \<Longrightarrow> 48 \<le> (of_char c :: nat) \<and> of_char c < (58 :: nat)"
  using dec_nat_digits of_char_digit_char by fastforce

lemma dec_nat_chars:
  "CHR '' '' \<notin> set (dec_nat n)" "CHR ''-'' \<notin> set (dec_nat n)" "CHR ''+'' \<notin> set (dec_nat n)"
  using dec_nat_plain [of "CHR '' ''" n] dec_nat_plain [of "CHR ''-''" n] dec_nat_plain [of "CHR ''+''" n] by auto

lemma to_integer_dec: "to_integer (dec_nat n) 10 = Some (int n)"
proof (cases "dec_nat n")
  case Nil
  then show ?thesis using dec_nat_nonempty by blast
next
  case (Cons c r)
  then have "c \<noteq> CHR ''-''" "c \<noteq> CHR ''+''" using dec_nat_chars(2,3) [of n] by auto
  then show ?thesis using Cons parse_digits_dec [of n] by (simp add: to_integer_def parse_nat_def)
qed

text \<open>
  The numbered events come back as they were written: the two that announce an entry of the scan
  table give its number and address, and a request for a credential gives the field, the number of
  the network and the whole text, dashes in it included.
\<close>

theorem numbered_events_round_trip:
  assumes "bssid \<noteq> [] \<and> CHR '' '' \<notin> set bssid" and "field \<noteq> [] \<and> CHR ''-'' \<notin> set field" and "txt \<noteq> []"
  shows "notif (''CTRL-EVENT-BSS-ADDED '' @ dec_nat n @ '' '' @ bssid) =
      Inr (ETuple [EAtom ''CTRL-EVENT-BSS-ADDED'', EInt (int n), EStr bssid]) \<and>
    notif (''CTRL-EVENT-BSS-REMOVED '' @ dec_nat n @ '' '' @ bssid) =
      Inr (ETuple [EAtom ''CTRL-EVENT-BSS-REMOVED'', EInt (int n), EStr bssid]) \<and>
    notif (''CTRL-REQ-'' @ field @ ''-'' @ dec_nat n @ ''-'' @ txt) =
      Inr (ETuple [EAtom (''CTRL-REQ-'' @ field), EInt (int n), EStr txt])"
proof -
  have "split_trim (CHR '' '') (CHR '' '' # dec_nat n @ '' '' @ bssid) = [dec_nat n, bssid]"
    using dec_nat_chars(1) [of n] dec_nat_nonempty assms(1)
    by (simp add: split_trim_def split_on_append split_on_none)
  then have bss: "bss_notif a (CHR '' '' # dec_nat n @ '' '' @ bssid) = Inr (ETuple [EAtom a, EInt (int n), EStr bssid])" for a
    by (simp add: bss_notif_def to_integer_dec)
  have drop: "dropWhile (\<lambda>x. x = CHR ''-'') (w @ CHR ''-'' # r) = w @ CHR ''-'' # r"
    "takeWhile (\<lambda>x. x \<noteq> CHR ''-'') (w @ CHR ''-'' # r) = w"
    "dropWhile (\<lambda>x. x \<noteq> CHR ''-'') (w @ CHR ''-'' # r) = CHR ''-'' # r"
    if w: "w \<noteq> []" "CHR ''-'' \<notin> set w" for w r
  proof -
    show "dropWhile (\<lambda>x. x = CHR ''-'') (w @ CHR ''-'' # r) = w @ CHR ''-'' # r" using w by (cases w) auto
    have "\<forall>x \<in> set w. x \<noteq> CHR ''-''" using w(2) by auto
    then show "takeWhile (\<lambda>x. x \<noteq> CHR ''-'') (w @ CHR ''-'' # r) = w"
      "dropWhile (\<lambda>x. x \<noteq> CHR ''-'') (w @ CHR ''-'' # r) = CHR ''-'' # r"
      by (simp_all add: takeWhile_append dropWhile_append)
  qed
  have "split_parts 3 (CHR ''-'') (field @ CHR ''-'' # dec_nat n @ CHR ''-'' # txt) = [field, dec_nat n, txt]"
    using assms(2,3) dec_nat_chars(2) [of n] dec_nat_nonempty [of n]
    by (simp add: numeral_3_eq_3 drop Let_def)
  then have "ctrl_req_notif (field @ CHR ''-'' # dec_nat n @ CHR ''-'' # txt) =
      Inr (ETuple [EAtom (''CTRL-REQ-'' @ field), EInt (int n), EStr txt])"
    by (simp add: ctrl_req_notif_def to_integer_dec)
  with bss show ?thesis by (simp add: notif_def notif_clauses_def)
qed

theorem numbered_events_round_trip_witness:
  "notif (''CTRL-REQ-'' @ ''PIN'' @ ''-'' @ dec_nat 1 @ ''-'' @ ''PIN of a-b'') =
     Inr (ETuple [EAtom ''CTRL-REQ-PIN'', EInt 1, EStr ''PIN of a-b''])"
  using numbered_events_round_trip [of "''02:00''" "''PIN''" "''PIN of a-b''" 1] by simp

text \<open>
  Every other event of the supplicant becomes an atom with all of its text, so that events with
  different arguments are different atoms.
\<close>

lemma event_atoms:
  assumes "snd e = ''CTRL-EVENT-'' @ t" and "e \<in> set wpa_event_prefixes"
    and "fst e \<notin> {''WPA_EVENT_CONNECTED'', ''WPA_EVENT_DISCONNECTED'', ''WPA_EVENT_BSS_ADDED'', ''WPA_EVENT_BSS_REMOVED''}"
  shows "notif (snd e @ args) = Inr (EAtom (rstrip (snd e @ args)))"
  using assms by (auto simp: wpa_event_prefixes_def notif_def notif_clauses_def)

section \<open>Masks of the BSS command\<close>

text \<open>Each entry is a macro's name and the number of its bit.\<close>

definition bss_masks :: "(string \<times> nat) list" where
  "bss_masks =
     [(''WPA_BSS_MASK_ID'', 0), (''WPA_BSS_MASK_BSSID'', 1), (''WPA_BSS_MASK_FREQ'', 2),
      (''WPA_BSS_MASK_BEACON_INT'', 3), (''WPA_BSS_MASK_CAPABILITIES'', 4), (''WPA_BSS_MASK_QUAL'', 5),
      (''WPA_BSS_MASK_NOISE'', 6), (''WPA_BSS_MASK_LEVEL'', 7), (''WPA_BSS_MASK_TSF'', 8),
      (''WPA_BSS_MASK_AGE'', 9), (''WPA_BSS_MASK_IE'', 10), (''WPA_BSS_MASK_FLAGS'', 11),
      (''WPA_BSS_MASK_SSID'', 12), (''WPA_BSS_MASK_WPS_SCAN'', 13), (''WPA_BSS_MASK_P2P_SCAN'', 14),
      (''WPA_BSS_MASK_INTERNETW'', 15), (''WPA_BSS_MASK_WIFI_DISPLAY'', 16), (''WPA_BSS_MASK_DELIM'', 17)]"

definition WPA_BSS_MASK_ALL :: u32 where
  "WPA_BSS_MASK_ALL = 0xFFFDFFFF"

lemma mask_all: "bit WPA_BSS_MASK_ALL n \<longleftrightarrow> n < 32 \<and> n \<noteq> 17"
proof -
  have m: "WPA_BSS_MASK_ALL = NOT (BIT 17)" by (simp add: WPA_BSS_MASK_ALL_def BIT_def)
  show ?thesis unfolding m bit_not_iff bit_BIT by auto
qed

text \<open>
  The mask for everything asks for every field of a scan entry, those not yet given a name too, except
  the delimiter.
\<close>

lemma mask_all_fields:
  assumes "(name, b) \<in> set bss_masks"
  shows "unat (WPA_BSS_MASK_ALL) div 2 ^ b mod 2 = (if name = ''WPA_BSS_MASK_DELIM'' then 0 else 1)"
  using assms by (auto simp: bss_masks_def WPA_BSS_MASK_ALL_def)

end
