(* ===== verification/Client.thy ===== *)
theory Client
  imports Codec
begin

text \<open>
  The Elixir process that owns the port program, \<^verbatim>\<open>src/lib/wpa_supplicant.ex\<close>: the callbacks of the
  GenServer on its state, with what they send, notify and reply as logs, and the functions a client
  calls on top of \<^verbatim>\<open>request\<close>. Callers are of any type; an exception raised in a callback ends the
  process.
\<close>

section \<open>The server\<close>

text \<open>
  \<^verbatim>\<open>requests\<close> are the callers that wait, the oldest first. \<open>commands\<close> are the payloads sent to the
  port, \<open>notified\<close> the notifications given to the event manager, \<open>replied\<close> the replies given to callers.
\<close>

record 'c server =
  requests :: "('c \<times> eterm) list"
  commands :: "string list"
  notified :: "eterm list"
  replied :: "('c \<times> eterm) list"

datatype stop = Raised exn | Unexpected_exit

datatype 'c message = Call 'c eterm | Data string | Exit_status int

definition init :: "'c server" where
  "init = \<lparr>requests = [], commands = [], notified = [], replied = []\<rparr>"

definition handle_request :: "'c \<Rightarrow> eterm \<Rightarrow> 'c server \<Rightarrow> stop + 'c server" where
  "handle_request client command s =
     (case encode command of
        Inl e \<Rightarrow> Inl (Raised e)
      | Inr payload \<Rightarrow>
          Inr (s\<lparr>commands := commands s @ [payload], requests := requests s @ [(client, command)]\<rparr>))"

text \<open>The pattern of the first clause: a one-character priority between angle brackets.\<close>

fun notification :: "string \<Rightarrow> string option" where
  "notification (a # p # b # n) = (if a = CHR ''<'' \<and> b = CHR ''>'' then Some n else None)"
| "notification _ = None"

definition handle_wpa :: "string \<Rightarrow> 'c server \<Rightarrow> stop + 'c server" where
  "handle_wpa message s =
     (case notification message of
        Some n \<Rightarrow>
          (case notif n of
             Inl e \<Rightarrow> Inl (Raised e)
           | Inr d \<Rightarrow> Inr (s\<lparr>notified := notified s @ [d]\<rparr>))
      | None \<Rightarrow>
          (case requests s of
             [] \<Rightarrow> Inl (Raised MatchError)
           | (client, command) # next_ones \<Rightarrow>
               (case resp command message of
                  Inl e \<Rightarrow> Inl (Raised e)
                | Inr d \<Rightarrow> Inr (s\<lparr>requests := next_ones, replied := replied s @ [(client, d)]\<rparr>))))"

fun handle :: "'c message \<Rightarrow> 'c server \<Rightarrow> stop + 'c server" where
  "handle (Call c command) s = handle_request c command s"
| "handle (Data m) s = handle_wpa m s"
| "handle (Exit_status n) s = Inl Unexpected_exit"

fun serve :: "'c message list \<Rightarrow> 'c server \<Rightarrow> stop + 'c server" where
  "serve [] s = Inr s"
| "serve (m # ms) s = (case handle m s of Inl e \<Rightarrow> Inl e | Inr s1 \<Rightarrow> serve ms s1)"

section \<open>Functions of a client\<close>

text \<open>
  \<open>answers\<close> are what successive calls of \<^verbatim>\<open>request\<close> return and \<open>asked\<close> the commands they were made with;
  a call that is never answered exits the caller.
\<close>

record caller =
  answers :: "eterm list"
  asked :: "eterm list"

datatype failure = Mismatch | No_clause | Call_exit

definition request :: "eterm \<Rightarrow> caller \<Rightarrow> (failure + eterm) \<times> caller" where
  "request command k =
     (case answers k of
        [] \<Rightarrow> (Inl Call_exit, k\<lparr>asked := asked k @ [command]\<rparr>)
      | a # as \<Rightarrow> (Inr a, k\<lparr>answers := as, asked := asked k @ [command]\<rparr>))"

definition and_then ::
  "(failure + 'a) \<times> caller \<Rightarrow> ('a \<Rightarrow> caller \<Rightarrow> (failure + 'b) \<times> caller) \<Rightarrow> (failure + 'b) \<times> caller" where
  "and_then r f = (case r of (Inl e, k) \<Rightarrow> (Inl e, k) | (Inr a, k) \<Rightarrow> f a k)"

text \<open>\<^verbatim>\<open>:ok = request(...)\<close>\<close>

definition request_ok :: "eterm \<Rightarrow> caller \<Rightarrow> (failure + unit) \<times> caller" where
  "request_ok command k =
     and_then (request command k)
       (\<lambda>a k1. if a = EAtom ''ok'' then (Inr (), k1) else (Inl Mismatch, k1))"

fun set_options :: "eterm \<Rightarrow> (eterm \<times> eterm) list \<Rightarrow> caller \<Rightarrow> (failure + unit) \<times> caller" where
  "set_options netid [] k = (Inr (), k)"
| "set_options netid ((key, v) # os) k =
     and_then (request_ok (ETuple [EAtom ''SET_NETWORK'', netid, key, v]) k)
       (\<lambda>_ k1. set_options netid os k1)"

definition set_network :: "(eterm \<times> eterm) list \<Rightarrow> caller \<Rightarrow> (failure + unit) \<times> caller" where
  "set_network opts k =
     and_then (request (ETuple [EAtom ''REMOVE_NETWORK'', EAtom ''all'']) k) (\<lambda>_ k1.
     and_then (request (EAtom ''ADD_NETWORK'') k1) (\<lambda>netid k2.
     and_then (set_options netid opts k2) (\<lambda>_ k3.
     request_ok (ETuple [EAtom ''SELECT_NETWORK'', netid]) k3)))"

text \<open>\<^verbatim>\<open>nil\<close> and \<^verbatim>\<open>false\<close> are the values an \<^verbatim>\<open>if\<close> takes for false.\<close>

definition truthy :: "eterm \<Rightarrow> bool" where
  "truthy v \<longleftrightarrow> v \<noteq> EAtom ''nil'' \<and> v \<noteq> EAtom ''false''"

function all_bss :: "int \<Rightarrow> eterm list \<Rightarrow> caller \<Rightarrow> (failure + eterm list) \<times> caller" where
  "all_bss count acc k =
     (case request (ETuple [EAtom ''BSS'', EInt count]) k of
        (Inl e, k1) \<Rightarrow> (Inl e, k1)
      | (Inr result, k1) \<Rightarrow>
          (if truthy result then all_bss (count + 1) (result # acc) k1 else (Inr acc, k1)))"
  by pat_completeness auto
termination
  by (relation "measure (\<lambda>(count, acc, k). length (answers k))")
    (auto simp: request_def split: list.splits)

declare all_bss.simps [simp del]

text \<open>
  \<^verbatim>\<open>Enum.take_while\<close> on the stream of events: it takes events as long as they are the one given and
  returns at the first that is not; the stream exits when no event comes in time. The result are
  the events that are left.
\<close>

fun take_while_event :: "eterm \<Rightarrow> eterm list \<Rightarrow> failure + eterm list" where
  "take_while_event x [] = Inl Call_exit"
| "take_while_event x (e # es) = (if e = x then take_while_event x es else Inr es)"

definition scan :: "eterm list \<Rightarrow> caller \<Rightarrow> (failure + eterm list) \<times> caller" where
  "scan stream k =
     and_then (request (EAtom ''SCAN'') k) (\<lambda>a k1.
       if a = EAtom ''ok'' \<or> a = EStr ''FAIL-BUSY'' then
         (case take_while_event (EAtom ''CTRL-EVENT-SCAN-RESULTS'') stream of
            Inl e \<Rightarrow> (Inl e, k1)
          | Inr _ \<Rightarrow> all_bss 0 [] k1)
       else (Inl No_clause, k1))"

section \<open>Requests and replies\<close>

fun calls :: "'c message list \<Rightarrow> ('c \<times> eterm) list" where
  "calls [] = []"
| "calls (Call c x # ms) = (c, x) # calls ms"
| "calls (_ # ms) = calls ms"

fun data :: "'c message list \<Rightarrow> string list" where
  "data [] = []"
| "data (Data m # ms) = m # data ms"
| "data (_ # ms) = data ms"

definition is_reply :: "string \<Rightarrow> bool" where
  "is_reply m \<longleftrightarrow> notification m = None"

text \<open>The \<open>n\<close>-th reply is the \<open>n\<close>-th response, decoded for the \<open>n\<close>-th call.\<close>

definition answered :: "('c \<times> eterm) list \<Rightarrow> string list \<Rightarrow> ('c \<times> eterm) list \<Rightarrow> bool" where
  "answered cs ms rs \<longleftrightarrow>
     list_all2 (\<lambda>(call, m) (c, d). c = fst call \<and> resp (snd call) m = Inr d) (zip cs ms) rs"

lemma zip_snoc:
  assumes "length ms < length cs"
  shows "zip cs (ms @ [m]) = zip cs ms @ [(cs ! length ms, m)]"
proof -
  have "zip (take (length ms) cs) ms = zip cs ms" using zip_append2 [of cs ms "[]"] by simp
  moreover have "drop (length ms) cs = cs ! length ms # drop (Suc (length ms)) cs"
    by (rule Cons_nth_drop_Suc [OF assms, symmetric])
  ultimately show ?thesis using zip_append2 [of cs ms "[m]"] by simp
qed

lemma answered_snoc:
  assumes "answered cs ms rs" and "length ms < length cs" and "resp (snd (cs ! length ms)) m = Inr d"
  shows "answered cs (ms @ [m]) (rs @ [(fst (cs ! length ms), d)])"
  using assms by (simp add: answered_def zip_snoc list_all2_appendI)

lemma answered_more: "length ms \<le> length cs \<Longrightarrow> answered (cs @ cs') ms rs = answered cs ms rs"
  by (simp add: answered_def zip_append1)

text \<open>
  The invariant of the server: \<open>cs\<close> are the calls made and \<open>ds\<close> the messages received so far.
\<close>

definition serves :: "('c \<times> eterm) list \<Rightarrow> string list \<Rightarrow> 'c server \<Rightarrow> bool" where
  "serves cs ds s \<longleftrightarrow>
     length (filter is_reply ds) \<le> length cs \<and>
     requests s = drop (length (filter is_reply ds)) cs \<and>
     answered cs (filter is_reply ds) (replied s) \<and>
     map Inr (commands s) = map (\<lambda>c. encode (snd c)) cs \<and>
     list_all2 (\<lambda>m d. notif (the (notification m)) = Inr d)
       (filter (\<lambda>m. \<not> is_reply m) ds) (notified s)"

lemma serves_init: "serves [] [] init"
  by (simp add: serves_def init_def answered_def)

lemma handle_wpa_serves:
  assumes "serves cs ds s" and "handle_wpa m s = Inr s'"
  shows "serves cs (ds @ [m]) s'"
proof (cases "notification m")
  case None
  let ?n = "length (filter is_reply ds)"
  obtain client command rest d where r: "requests s = (client, command) # rest"
    "resp command m = Inr d" "s' = s\<lparr>requests := rest, replied := replied s @ [(client, d)]\<rparr>"
    using assms(2) None by (auto simp: handle_wpa_def split: list.splits sum.splits)
  have "drop ?n cs = (client, command) # rest" using assms(1) r(1) by (simp add: serves_def)
  then have n: "?n < length cs" "cs ! ?n = (client, command)" "drop (Suc ?n) cs = rest"
    by (metis drop_eq_Nil list.discI not_le, metis nth_via_drop, metis drop_Suc list.sel(3) tl_drop)
  have "answered cs (filter is_reply ds) (replied s)" using assms(1) by (simp add: serves_def)
  from answered_snoc [OF this n(1), of m d] n(2) r(2)
  have "answered cs (filter is_reply ds @ [m]) (replied s @ [(client, d)])" by simp
  then show ?thesis using assms(1) r(3) n None by (simp add: serves_def is_reply_def)
next
  case (Some n)
  then obtain d where d: "notif n = Inr d" "s' = s\<lparr>notified := notified s @ [d]\<rparr>"
    using assms(2) by (auto simp: handle_wpa_def split: sum.splits)
  have "list_all2 (\<lambda>m d. notif (the (notification m)) = Inr d)
      (filter (\<lambda>m. \<not> is_reply m) ds @ [m]) (notified s @ [d])"
    by (rule list_all2_appendI) (use assms(1) Some d(1) in \<open>simp_all add: serves_def\<close>)
  then show ?thesis using assms(1) Some d(2) by (simp add: serves_def is_reply_def)
qed

lemma handle_request_serves:
  assumes "serves cs ds s" and "handle_request c x s = Inr s'"
  shows "serves (cs @ [(c, x)]) ds s'"
  using assms by (auto simp: handle_request_def serves_def answered_more split: sum.splits)

lemma serve_serves:
  "serves cs ds s \<Longrightarrow> serve ms s = Inr s' \<Longrightarrow> serves (cs @ calls ms) (ds @ data ms) s'"
proof (induction ms arbitrary: cs ds s)
  case (Cons m ms)
  then obtain s1 where s1: "handle m s = Inr s1" "serve ms s1 = Inr s'" by (auto split: sum.splits)
  show ?case
  proof (cases m)
    case (Call c x)
    then show ?thesis using Cons.IH [OF handle_request_serves [OF Cons.prems(1)] s1(2)] s1(1) by simp
  next
    case (Data d)
    then show ?thesis using Cons.IH [OF handle_wpa_serves [OF Cons.prems(1)] s1(2)] s1(1) by simp
  qed (use s1 in simp)
qed simp

text \<open>
  The server answers its callers in order. After any mixture of calls and messages that the server
  survives, the callers that got a reply are the first ones, each got the decoded text of the message
  in the same place among those that are no notifications, decoded for its own command; the others wait
  in order; each call sent one encoded command to the port; and every notification was passed on,
  decoded, in order.
\<close>

theorem replies_in_order:
  assumes "serve ms init = Inr s"
  shows "list_all2 (\<lambda>(call, m) (c, d). c = fst call \<and> resp (snd call) m = Inr d)
      (zip (calls ms) (filter is_reply (data ms))) (replied s) \<and>
    length (filter is_reply (data ms)) \<le> length (calls ms) \<and>
    requests s = drop (length (filter is_reply (data ms))) (calls ms) \<and>
    map Inr (commands s) = map (\<lambda>c. encode (snd c)) (calls ms) \<and>
    list_all2 (\<lambda>m d. notif (the (notification m)) = Inr d)
      (filter (\<lambda>m. \<not> is_reply m) (data ms)) (notified s)"
  using serve_serves [OF serves_init assms] by (simp add: serves_def answered_def)

theorem replies_in_order_witness:
  "\<exists>s. serve [Call (1::nat) (EAtom ''PING''), Data ''<2>WPS-FAIL'', Call 2 (EAtom ''SCAN''), Data ''PONG'', Data ''OK''] init = Inr s \<and>
     replied s = [(1, EAtom ''PONG''), (2, EAtom ''ok'')]"
proof -
  let ?ms = "[Call (1::nat) (EAtom ''PING''), Data ''<2>WPS-FAIL'', Call 2 (EAtom ''SCAN''), Data ''PONG'', Data ''OK'']"
  have "\<exists>s. serve ?ms init = Inr s"
  proof -
    have "isl (serve ?ms init) = False" by code_simp
    then show ?thesis by (cases "serve ?ms init") auto
  qed
  then obtain s where s: "serve ?ms init = Inr s" by blast
  have r: "resp (EAtom ''PING'') ''PONG'' = Inr (EAtom ''PONG'')" "resp (EAtom ''SCAN'') ''OK'' = Inr (EAtom ''ok'')"
    by code_simp+
  have f: "filter is_reply (data ?ms) = [''PONG'', ''OK'']" by code_simp
  have c: "calls ?ms = [(1, EAtom ''PING''), (2, EAtom ''SCAN'')]" by simp
  have "list_all2 (\<lambda>(call, m) (c, d). c = fst call \<and> resp (snd call) m = Inr d)
      [((1, EAtom ''PING''), ''PONG''), ((2, EAtom ''SCAN''), ''OK'')] (replied s)"
    using replies_in_order [OF s] unfolding f c by simp
  then have "replied s = [(1, EAtom ''PONG''), (2, EAtom ''ok'')]"
    using r by (auto simp: list_all2_Cons1)
  with s show ?thesis by blast
qed

section \<open>What stops the server\<close>

lemma notification_angle: "notification m = Some n \<longleftrightarrow> (\<exists>p. m = CHR ''<'' # p # CHR ''>'' # n)"
  by (cases m rule: notification.cases) (auto split: if_splits)

text \<open>
  C34: the server ends itself on a response it cannot decode, whoever asked, and every caller still
  waiting is left without a reply: the failure of \<^verbatim>\<open>ADD_NETWORK\<close>, a status with an equals sign in a
  value, and any message that is no notification in the form expected while nobody waits.
\<close>

theorem responses_that_stop:
  assumes "kv_request req" and "p \<in> set kvs" and "CHR ''='' \<in> set (snd p)"
    and "fst (hd kvs) \<noteq> [] \<and> \<not> whitespace (hd (fst (hd kvs))) \<and> hd (fst (hd kvs)) \<noteq> CHR ''<''"
    and "\<forall>p \<in> set kvs. CHR 0x0A \<notin> set (fst p @ snd p) \<and> CHR ''='' \<notin> set (fst p)"
  shows "handle_wpa (kv_text kvs) (s\<lparr>requests := (c, req) # rs\<rparr>) = Inl (Raised MatchError) \<and>
    handle_wpa (''FAIL'' @ [CHR 0x0A]) (s\<lparr>requests := (c, EAtom ''ADD_NETWORK'') # rs\<rparr>) =
      Inl (Raised ArgumentError) \<and>
    (is_reply m \<longrightarrow> handle_wpa m (s\<lparr>requests := []\<rparr>) = Inl (Raised MatchError))"
proof (intro conjI impI)
  obtain k v kvs' where kvs: "kvs = (k, v) # kvs'" using assms(2) by (cases kvs) auto
  then obtain x k' where "k = x # k'" using assms(4) by (cases k) auto
  then have "notification (kv_text kvs) = None"
    using assms(4) kvs notification_angle [of "kv_text kvs"]
    by (cases "notification (kv_text kvs)") (auto simp: kv_text_def kv_line_def)
  then show "handle_wpa (kv_text kvs) (s\<lparr>requests := (c, req) # rs\<rparr>) = Inl (Raised MatchError)"
    using status_equals_sign_raises [OF assms(1-3) _ assms(5)] assms(4) by (simp add: handle_wpa_def)
next
  have "resp (EAtom ''ADD_NETWORK'') (''FAIL'' @ [CHR 0x0A]) = Inl ArgumentError"
    "notification (''FAIL'' @ [CHR 0x0A]) = None" by code_simp+
  then show "handle_wpa (''FAIL'' @ [CHR 0x0A]) (s\<lparr>requests := (c, EAtom ''ADD_NETWORK'') # rs\<rparr>) =
      Inl (Raised ArgumentError)" by (simp add: handle_wpa_def)
qed (simp add: handle_wpa_def is_reply_def)

theorem responses_that_stop_witness:
  "handle_wpa (kv_text [(''ssid'', ''a=b'')]) (init\<lparr>requests := [(0::nat, EAtom ''STATUS'')]\<rparr>) =
     Inl (Raised MatchError) \<and>
   handle_wpa ''<10>UP'' (init\<lparr>requests := []\<rparr> :: nat server) = Inl (Raised MatchError)"
proof -
  have h: "kv_request (EAtom ''STATUS'')" "(''ssid'', ''a=b'') \<in> set [(''ssid'', ''a=b'')]"
    "CHR ''='' \<in> set (snd (''ssid'', ''a=b''))"
    "fst (hd [(''ssid'', ''a=b'')]) \<noteq> [] \<and> \<not> whitespace (hd (fst (hd [(''ssid'', ''a=b'')]))) \<and>
       hd (fst (hd [(''ssid'', ''a=b'')])) \<noteq> CHR ''<''"
    "\<forall>p \<in> set [(''ssid'', ''a=b'')]. CHR 0x0A \<notin> set (fst p @ snd p) \<and> CHR ''='' \<notin> set (fst p)"
    by (simp_all add: kv_request_def whitespace_def)
  have "is_reply ''<10>UP''" by (simp add: is_reply_def)
  with responses_that_stop [OF h, where s = init and c = "0::nat" and rs = "[]" and m = "''<10>UP''"] show ?thesis by simp
qed

section \<open>What the client functions do\<close>

lemma and_then_simps [simp]:
  "and_then (Inl e, k) f = (Inl e, k)"
  "and_then (Inr a, k) f = f a k"
  by (simp_all add: and_then_def)

lemma request_Cons [simp]:
  "answers k = a # as \<Longrightarrow> request x k = (Inr a, k\<lparr>answers := as, asked := asked k @ [x]\<rparr>)"
  by (simp add: request_def)

definition set_command :: "eterm \<Rightarrow> eterm \<times> eterm \<Rightarrow> eterm" where
  "set_command netid p = ETuple [EAtom ''SET_NETWORK'', netid, fst p, snd p]"

lemma set_options_ok:
  "answers k = replicate (length opts) (EAtom ''ok'') @ as \<Longrightarrow>
   set_options netid opts k =
     (Inr (), k\<lparr>answers := as, asked := asked k @ map (set_command netid) opts\<rparr>)"
proof (induction opts arbitrary: k)
  case (Cons p opts)
  then show ?case by (cases p) (simp add: request_ok_def set_command_def)
qed simp

lemma set_options_refused:
  "answers k = replicate (length os1) (EAtom ''ok'') @ a # as \<Longrightarrow> a \<noteq> EAtom ''ok'' \<Longrightarrow>
   set_options netid (os1 @ p # os2) k =
     (Inl Mismatch, k\<lparr>answers := as, asked := asked k @ map (set_command netid) (os1 @ [p])\<rparr>)"
proof (induction os1 arbitrary: k)
  case Nil
  then show ?case by (cases p) (simp add: request_ok_def set_command_def)
next
  case (Cons q os1)
  then show ?case by (cases q) (simp add: request_ok_def set_command_def)
qed

text \<open>
  \<^verbatim>\<open>set_network\<close> removes every network, adds one, sets its options one by one in the order given and
  selects it, and returns when each of these is acknowledged; at the first option that is refused it
  raises and the network, half configured and the only one left, is never selected. The answer to the
  removal does not matter.
\<close>

theorem set_network_requests:
  assumes "a \<noteq> EAtom ''ok''"
  shows "set_network opts (k\<lparr>answers := r # netid # replicate (Suc (length opts)) (EAtom ''ok'') @ as, asked := []\<rparr>) =
      (Inr (), k\<lparr>answers := as, asked :=
         [ETuple [EAtom ''REMOVE_NETWORK'', EAtom ''all''], EAtom ''ADD_NETWORK''] @
         map (set_command netid) opts @ [ETuple [EAtom ''SELECT_NETWORK'', netid]]\<rparr>) \<and>
    set_network (os1 @ p # os2)
        (k\<lparr>answers := r # netid # replicate (length os1) (EAtom ''ok'') @ a # as, asked := []\<rparr>) =
      (Inl Mismatch, k\<lparr>answers := as, asked :=
         [ETuple [EAtom ''REMOVE_NETWORK'', EAtom ''all''], EAtom ''ADD_NETWORK''] @
         map (set_command netid) (os1 @ [p])\<rparr>)"
proof
  have "replicate (Suc (length opts)) (EAtom ''ok'') @ as = replicate (length opts) (EAtom ''ok'') @ EAtom ''ok'' # as"
    by (simp add: replicate_app_Cons_same)
  then show "set_network opts (k\<lparr>answers := r # netid # replicate (Suc (length opts)) (EAtom ''ok'') @ as, asked := []\<rparr>) =
      (Inr (), k\<lparr>answers := as, asked :=
         [ETuple [EAtom ''REMOVE_NETWORK'', EAtom ''all''], EAtom ''ADD_NETWORK''] @
         map (set_command netid) opts @ [ETuple [EAtom ''SELECT_NETWORK'', netid]]\<rparr>)"
    by (simp add: set_network_def set_options_ok request_ok_def del: replicate.simps)
qed (simp add: set_network_def set_options_refused [OF _ assms])

theorem set_network_requests_witness:
  "\<exists>k. set_network [(EAtom ''ssid'', EStr ''a''), (EAtom ''mode'', EInt 9), (EAtom ''psk'', EStr ''b'')]
      \<lparr>answers = [EAtom ''ok'', EInt 0, EAtom ''ok'', EAtom ''FAIL''], asked = []\<rparr> = (Inl Mismatch, k) \<and>
     length (asked k) = 4"
proof -
  have "EAtom ''FAIL'' \<noteq> EAtom ''ok''" by simp
  from set_network_requests [OF this, where k = "\<lparr>answers = [], asked = []\<rparr>" and r = "EAtom ''ok''"
      and netid = "EInt 0" and as = "[]" and ?os1.0 = "[(EAtom ''ssid'', EStr ''a'')]"
      and p = "(EAtom ''mode'', EInt 9)" and ?os2.0 = "[(EAtom ''psk'', EStr ''b'')]" and opts = "[]"]
  show ?thesis by simp
qed

definition bss_command :: "int \<Rightarrow> eterm" where
  "bss_command n = ETuple [EAtom ''BSS'', EInt n]"

lemma all_bss_lists:
  "answers k = vs @ EAtom ''nil'' # as \<Longrightarrow> \<forall>v \<in> set vs. truthy v \<Longrightarrow>
   all_bss n acc k =
     (Inr (rev vs @ acc),
      k\<lparr>answers := as, asked := asked k @ map (\<lambda>i. bss_command (n + int i)) [0..<Suc (length vs)]\<rparr>)"
proof (induction vs arbitrary: n acc k)
  case Nil
  then show ?case by (simp add: all_bss.simps [of n acc k] truthy_def bss_command_def)
next
  case (Cons v vs)
  have "map (\<lambda>i. bss_command (n + int i)) [0..<Suc (length (v # vs))] =
      bss_command n # map (\<lambda>i. bss_command (n + 1 + int i)) [0..<Suc (length vs)]"
    by (subst upt_conv_Cons) (simp_all add: map_Suc_upt [symmetric] o_def add.assoc del: upt_Suc)
  moreover have "all_bss n acc k =
      all_bss (n + 1) (v # acc) (k\<lparr>answers := vs @ EAtom ''nil'' # as, asked := asked k @ [bss_command n]\<rparr>)"
    using Cons.prems by (simp add: all_bss.simps [of n acc k] bss_command_def)
  ultimately show ?case using Cons by (simp del: upt_Suc)
qed

text \<open>
  C35: \<^verbatim>\<open>scan\<close> does not wait for the scan to end. Once the request is accepted it goes on at the first
  event that is anything else than the announcement of scan results, and lists the networks known by
  then, the last first, asking for them by number until there is none; while the only events are
  announcements of results it waits until the stream gives up and exits.
\<close>

theorem scan_does_not_wait:
  assumes "e \<noteq> EAtom ''CTRL-EVENT-SCAN-RESULTS''" and "\<forall>v \<in> set vs. truthy v"
  shows "scan (replicate n (EAtom ''CTRL-EVENT-SCAN-RESULTS'') @ e # es)
        (k\<lparr>answers := EAtom ''ok'' # vs @ EAtom ''nil'' # as, asked := []\<rparr>) =
      (Inr (rev vs), k\<lparr>answers := as, asked :=
         EAtom ''SCAN'' # map (\<lambda>i. ETuple [EAtom ''BSS'', EInt (int i)]) [0..<Suc (length vs)]\<rparr>) \<and>
    fst (scan (replicate n (EAtom ''CTRL-EVENT-SCAN-RESULTS''))
        (k\<lparr>answers := EAtom ''ok'' # vs @ EAtom ''nil'' # as, asked := []\<rparr>)) = Inl Call_exit"
proof -
  have "take_while_event x (replicate n x @ e # es) = Inr es" if "e \<noteq> x" for x
    using that by (induction n) auto
  moreover have "take_while_event x (replicate n x) = Inl Call_exit" for x by (induction n) auto
  ultimately show ?thesis using assms by (simp add: scan_def all_bss_lists [OF _ assms(2)] bss_command_def)
qed

theorem scan_does_not_wait_witness:
  "fst (scan [EAtom ''CTRL-EVENT-SCAN-STARTED'', EAtom ''CTRL-EVENT-SCAN-RESULTS'']
     \<lparr>answers = [EAtom ''ok'', EMap [], EAtom ''nil''], asked = []\<rparr>) = Inr [EMap []]"
proof -
  have "EAtom ''CTRL-EVENT-SCAN-STARTED'' \<noteq> EAtom ''CTRL-EVENT-SCAN-RESULTS''" "\<forall>v \<in> set [EMap []]. truthy v"
    by (simp_all add: truthy_def)
  from scan_does_not_wait [OF this, where n = 0 and es = "[EAtom ''CTRL-EVENT-SCAN-RESULTS'']" and as = "[]"
      and k = "\<lparr>answers = [], asked = []\<rparr>"] show ?thesis by simp
qed

end
