(* ===== verification/Chunks.thy ===== *)
theory Chunks
  imports Relay
begin

text \<open>
  How the pipe cuts the commands does not matter (\<^verbatim>\<open>process_erl\<close> of \<^verbatim>\<open>src/src/wpa_ex.c\<close>): reading a
  piece of the stream in one call or in any number of smaller ones ends in the same way, with the
  same traffic on the socket and on the standard output, and keeps the same bytes.
\<close>

section \<open>What a handler works on\<close>

text \<open>
  The part of the state a request depends on; two ports that agree in it behave alike, wherever the
  commands lie in \<^verbatim>\<open>erl_buffer\<close> and whatever is still to be read.
\<close>

definition core :: "port \<Rightarrow> bytes \<times> sock \<times> out" where
  "core p = (wpa_buffer p, psock p, stdout p)"

lemma core_simps [simp]:
  "core (relocate b i p) = core p"
  "core (p\<lparr>stdin_answers := r\<rparr>) = core p"
  by (simp_all add: core_def relocate_def)

lemma request_core:
  assumes "core p = core q"
  shows "apsnd core (do_wpa_request cmd k p) = apsnd core (do_wpa_request cmd k q)"
proof -
  have "wpa_buffer p = wpa_buffer q" "psock p = psock q" "stdout p = stdout q"
    using assms by (simp_all add: core_def)
  then show ?thesis
    by (auto simp: do_wpa_request_def core_def Let_def split: prod.splits outcome.splits)
qed

lemma deliver_core:
  "core p = core q \<Longrightarrow> apsnd core (deliver request cs p) = apsnd core (deliver request cs q)"
proof (induction cs arbitrary: p q)
  case (Cons c cs)
  obtain out p1 q1 where r: "request c p = (out, p1)" "request c q = (out, q1)" "core p1 = core q1"
    using request_core [OF Cons.prems, of c "length c"]
    by (cases "request c p"; cases "request c q") auto
  then show ?case using Cons.IH [of p1 q1] by (cases out) simp_all
qed simp

lemma finish_core: "apsnd core (finish t p) = apsnd core (finish t q) \<longleftrightarrow> core p = core q"
  by (cases t) auto

section \<open>The stream as a whole\<close>

text \<open>What has to be done with the bytes \<open>u\<close> of the stream, and what is kept of them.\<close>

definition on_stream :: "bytes \<Rightarrow> port \<Rightarrow> unit outcome \<times> port" where
  "on_stream u p = (case packets u of (cs, t) \<Rightarrow> bind_out (deliver request cs p) (\<lambda>_. finish t))"

definition kept :: "bytes \<Rightarrow> bytes" where
  "kept u = remaining (snd (packets u))"

lemma on_stream_core: "core p = core q \<Longrightarrow> apsnd core (on_stream u p) = apsnd core (on_stream u q)"
proof -
  assume c: "core p = core q"
  obtain cs t where u: "packets u = (cs, t)" by (cases "packets u")
  obtain out p1 q1 where "deliver request cs p = (out, p1)" "deliver request cs q = (out, q1)"
    "core p1 = core q1"
    using deliver_core [OF c, of cs] by (cases "deliver request cs p"; cases "deliver request cs q") auto
  then show ?thesis using u by (cases out) (simp_all add: on_stream_def finish_core)
qed

lemma on_stream_append:
  "on_stream (u @ v) p =
     (case packets u of
        (cs, Partial r) \<Rightarrow> bind_out (deliver request cs p) (\<lambda>_. on_stream (r @ v))
      | (cs, TooLong r) \<Rightarrow> on_stream u p)"
proof -
  obtain cs t where u: "packets u = (cs, t)" by (cases "packets u")
  have bind3: "bind_out (bind_out x f) g = bind_out x (\<lambda>a s. bind_out (f a s) g)" for x :: "unit outcome \<times> port"
    and f :: "unit \<Rightarrow> port \<Rightarrow> unit outcome \<times> port" and g :: "unit \<Rightarrow> port \<Rightarrow> unit outcome \<times> port"
    by (cases x; cases "fst x") auto
  show ?thesis
  proof (cases t)
    case (Partial r)
    obtain cs' t' where r: "packets (r @ v) = (cs', t')" by (cases "packets (r @ v)")
    have "packets (u @ v) = (cs @ cs', t')" using packets_append [of u v] u Partial r by simp
    then show ?thesis using Partial u r
      by (simp add: on_stream_def [abs_def] deliver_append bind3)
  next
    case (TooLong r)
    have "finish (TooLong (r @ v)) = finish (TooLong r)" by (simp add: fun_eq_iff)
    moreover have "packets (u @ v) = (cs, TooLong (r @ v))" using packets_append [of u v] u TooLong by simp
    ultimately show ?thesis using TooLong u by (simp add: on_stream_def)
  qed
qed

text \<open>One call of \<^verbatim>\<open>process_erl\<close> whose read has room for all the bytes that wait.\<close>

lemma process_erl_stream:
  assumes ok: "port_ok p" and bs: "bs \<noteq> []" and room: "erl_buffer_ix p + length bs \<le> BUFFER_SIZE"
    and pe: "process_erl (p\<lparr>stdin_answers := ReadData bs # r\<rparr>) = (out, p')"
  shows "apsnd core (out, p') = apsnd core (on_stream (unread p @ bs) p)"
    and "out = Ret () \<Longrightarrow> port_ok p' \<and> stdin_answers p' = r \<and> unread p' = kept (unread p @ bs) \<and>
      erl_buffer_ix p' = length (kept (unread p @ bs))"
proof -
  let ?p = "p\<lparr>stdin_answers := ReadData bs # r\<rparr>" and ?q = "p\<lparr>stdin_answers := r\<rparr>"
  have ok': "port_ok ?p" using ok by (simp add: port_ok_def unread_def)
  have tk: "take (BUFFER_SIZE - erl_buffer_ix p) bs = bs" using room by simp
  obtain cs t where pk: "packets (unread p @ bs) = (cs, t)" by (cases "packets (unread p @ bs)")
  have room': "length bs \<le> BUFFER_SIZE - erl_buffer_ix p" "erl_buffer_ix p < BUFFER_SIZE"
    "take (BUFFER_SIZE - erl_buffer_ix p) bs = bs" using room ok by (auto simp: port_ok_def)
  have wr: "mem_write (erl_buffer_ix p) bs (erl_buffer p) =
      Some (take (erl_buffer_ix p) (erl_buffer p) @ bs @ drop (erl_buffer_ix p + length bs) (erl_buffer p))"
    using room ok by (simp add: mem_write_def port_ok_def)
  have de: "process_erl ?p = dispatch_loop (after_read bs ?q)"
    using room' bs wr by (simp add: process_erl_def Let_def after_read_def relocate_def)
  obtain b0 i0 where ar: "after_read bs ?q = relocate b0 i0 ?q" unfolding after_read_def by blast
  have u: "unread (after_read bs ?q) = unread p @ bs" "erl_buffer_ix (after_read bs ?q) \<le> BUFFER_SIZE"
    "length (erl_buffer (after_read bs ?q)) = BUFFER_SIZE"
    using process_erl_reads(2-4) [OF ok', of bs r] tk by (simp_all add: after_read_def relocate_def unread_def)
  then have "erl_buffer_ix (after_read bs ?q) \<le> length (erl_buffer (after_read bs ?q))" by simp
  from dispatch_loop_refines [OF this, of cs t] u pk obtain b i where b: "length b = BUFFER_SIZE"
    "dispatch_loop (after_read bs ?q) =
      apsnd (relocate b i) (bind_out (deliver request cs (after_read bs ?q)) (\<lambda>_. finish t))"
    and rem: "fst (deliver request cs (after_read bs ?q)) = Ret () \<longrightarrow>
      take i b = remaining t \<and> i = length (remaining t)" by auto
  have eq: "(out, p') = apsnd (relocate b i) (on_stream (unread p @ bs) ?q)"
    and fst_eq: "fst (deliver request cs (after_read bs ?q)) = fst (deliver request cs ?q)"
    using pe de b(2) pk unfolding ar on_stream_def
    by (simp_all add: deliver_relocate finish_relocate)
  have [simp]: "core \<circ> relocate b i = core" by (simp add: fun_eq_iff)
  have "apsnd core (out, p') = apsnd core (on_stream (unread p @ bs) ?q)"
    unfolding eq by (cases "on_stream (unread p @ bs) ?q") simp
  then show "apsnd core (out, p') = apsnd core (on_stream (unread p @ bs) p)"
    using on_stream_core [of ?q p "unread p @ bs"] by simp
  show "port_ok p' \<and> stdin_answers p' = r \<and> unread p' = kept (unread p @ bs) \<and>
      erl_buffer_ix p' = length (kept (unread p @ bs))" if ret: "out = Ret ()"
  proof -
    obtain q1 where d: "deliver request cs ?q = (Ret (), q1)" and p': "p' = relocate b i q1"
      using eq ret pk by (cases "deliver request cs ?q"; cases "fst (deliver request cs ?q)"; cases t)
        (auto simp: on_stream_def)
    have "length (wpa_buffer ?q) = BUFFER_SIZE" using ok by (simp add: port_ok_def)
    from requests_relay [OF d this] have "stdin_answers q1 = r" by simp
    moreover have "port_ok p'" using process_erl_step [OF ok', of p'] pe ret by simp
    moreover have "take i b = remaining t" "i = length (remaining t)" using rem fst_eq d by auto
    ultimately show ?thesis using p' pk by (auto simp: relocate_def unread_def kept_def)
  qed
qed

section \<open>Reading in pieces\<close>

fun reads :: "nat \<Rightarrow> port \<Rightarrow> unit outcome \<times> port" where
  "reads 0 p = (Ret (), p)"
| "reads (Suc n) p = bind_out (process_erl p) (\<lambda>_. reads n)"

lemma kept_le: "length (kept u) \<le> length u"
proof (induction u rule: packets.induct)
  case (3 hi lo r)
  then show ?case
    by (auto simp: kept_def packets.simps(3) [of hi lo] Let_def apfst_def map_prod_def split: prod.splits)
qed (simp_all add: kept_def)

lemma kept_append:
  "packets u = (cs, Partial r) \<Longrightarrow> kept (u @ v) = kept (r @ v) \<and> kept u = r"
  by (simp add: kept_def packets_append [of u v])

lemma reads_stream:
  assumes "port_ok p" and "bss \<noteq> []" and "[] \<notin> set bss"
    and "erl_buffer_ix p + length (concat bss) \<le> BUFFER_SIZE"
    and "stdin_answers p = map ReadData bss @ r" and "reads (length bss) p = (out, p')"
  shows "apsnd core (out, p') = apsnd core (on_stream (unread p @ concat bss) p) \<and>
    (out = Ret () \<longrightarrow> stdin_answers p' = r \<and> unread p' = kept (unread p @ concat bss))"
  using assms
proof (induction bss arbitrary: p)
  case (Cons bs bss)
  let ?r = "map ReadData bss @ r" and ?u = "unread p @ bs"
  obtain o1 p1 where pe: "process_erl p = (o1, p1)" by (cases "process_erl p")
  have "p\<lparr>stdin_answers := ReadData bs # ?r\<rparr> = p" using Cons.prems(5) by simp
  then have pe': "process_erl (p\<lparr>stdin_answers := ReadData bs # ?r\<rparr>) = (o1, p1)" using pe by simp
  have bs: "bs \<noteq> []" "erl_buffer_ix p + length bs \<le> BUFFER_SIZE" using Cons.prems(3,4) by auto
  from process_erl_stream [OF Cons.prems(1) bs pe']
  have c: "apsnd core (o1, p1) = apsnd core (on_stream ?u p)"
    and ret: "o1 = Ret () \<Longrightarrow> port_ok p1 \<and> stdin_answers p1 = ?r \<and> unread p1 = kept ?u \<and>
      erl_buffer_ix p1 = length (kept ?u)" by auto
  obtain cs t where u: "packets ?u = (cs, t)" by (cases "packets ?u")
  obtain o2 p2 where d: "deliver request cs p = (o2, p2)" by (cases "deliver request cs p")
  have cat: "unread p @ concat (bs # bss) = ?u @ concat bss" by simp
  have long: "on_stream (?u @ concat bss) p =
      (case t of Partial r \<Rightarrow> bind_out (o2, p2) (\<lambda>_. on_stream (r @ concat bss)) | TooLong r \<Rightarrow> on_stream ?u p)"
    using on_stream_append [of ?u "concat bss" p] u d by (simp del: append_assoc split: remainder.splits)
  have one: "on_stream ?u p = bind_out (o2, p2) (\<lambda>_. finish t)" using u d by (simp add: on_stream_def)
  show ?case
  proof (cases "o1 = Ret ()")
    case False
    then have "(out, p') = (o1, p1)" using Cons.prems(6) pe by (cases o1) auto
    moreover have "apsnd core (on_stream (?u @ concat bss) p) = apsnd core (on_stream ?u p)"
      using False c long one by (cases o2; cases t) auto
    ultimately show ?thesis using False c unfolding cat by simp
  next
    case True
    then obtain v where t: "t = Partial v" "o2 = Ret ()" "core p1 = core p2"
      using c one by (cases o2; cases t) auto
    have v: "kept ?u = v" "kept (?u @ concat bss) = kept (v @ concat bss)"
      using kept_append [of ?u cs v "concat bss"] u t(1) by simp_all
    have long': "on_stream (?u @ concat bss) p = on_stream (v @ concat bss) p2" using long t by simp
    have rest: "reads (length bss) p1 = (out, p')" using Cons.prems(6) pe True by simp
    show ?thesis
    proof (cases "bss = []")
      case True
      then have "out = Ret ()" "p' = p1" using rest by simp_all
      moreover have "on_stream (v @ []) p2 = (Ret (), p2)" using long' one t True by simp
      ultimately show ?thesis using ret \<open>o1 = Ret ()\<close> v t(3) True long' unfolding cat by simp
    next
      case False
      have "length v + length (concat bss) \<le> BUFFER_SIZE"
        using kept_le [of ?u] v(1) Cons.prems(1,4) by (simp add: unread_def port_ok_def)
      then have "apsnd core (out, p') = apsnd core (on_stream (unread p1 @ concat bss) p1) \<and>
          (out = Ret () \<longrightarrow> stdin_answers p' = r \<and> unread p' = kept (unread p1 @ concat bss))"
        using Cons.IH [OF _ False _ _ _ rest] ret [OF True] v(1) Cons.prems(3) by simp
      then show ?thesis using on_stream_core [OF t(3), of "v @ concat bss"] long' v ret [OF True]
        unfolding cat by simp
    qed
  qed
qed simp

lemma reads_split:
  assumes "port_ok p" and "bss \<noteq> []" and "[] \<notin> set bss"
    and "length (unread p) + length (concat bss) \<le> 2048"
  shows "\<exists>out p1 p2. process_erl (p\<lparr>stdin_answers := ReadData (concat bss) # r\<rparr>) = (out, p1) \<and>
    reads (length bss) (p\<lparr>stdin_answers := map ReadData bss @ r\<rparr>) = (out, p2) \<and>
    psock p1 = psock p2 \<and> stdout p1 = stdout p2 \<and> wpa_buffer p1 = wpa_buffer p2 \<and>
    (out = Ret () \<longrightarrow> unread p1 = unread p2 \<and> stdin_answers p1 = r \<and> stdin_answers p2 = r)"
proof -
  let ?p = "p\<lparr>stdin_answers := ReadData (concat bss) # r\<rparr>" and ?q = "p\<lparr>stdin_answers := map ReadData bss @ r\<rparr>"
  have ok: "port_ok ?q" using assms(1) by (simp add: port_ok_def unread_def)
  have ix: "erl_buffer_ix p + length (concat bss) \<le> BUFFER_SIZE"
    using assms(1,4) by (simp add: port_ok_def unread_def BUFFER_SIZE_def)
  have ne: "concat bss \<noteq> []" using assms(2,3) by (cases bss) auto
  obtain o1 p1 where 1: "process_erl ?p = (o1, p1)" by (cases "process_erl ?p")
  obtain o2 p2 where 2: "reads (length bss) ?q = (o2, p2)" by (cases "reads (length bss) ?q")
  have ix': "erl_buffer_ix ?q + length (concat bss) \<le> BUFFER_SIZE" using ix by simp
  have "stdin_answers ?q = map ReadData bss @ r" by simp
  note b = reads_stream [OF ok assms(2,3) ix' this 2]
  have "unread ?q = unread p" by (simp add: unread_def)
  then have "apsnd core (o1, p1) = apsnd core (o2, p2)"
    using process_erl_stream(1) [OF assms(1) ne ix 1] b on_stream_core [of ?q p] by simp
  then show ?thesis
    using 1 2 b process_erl_stream(2) [OF assms(1) ne ix 1] \<open>unread ?q = unread p\<close>
    by (intro exI [of _ o1] exI [of _ p1] exI [of _ p2]) (auto simp: core_def)
qed

text \<open>
  C5: a piece of the input that fits in the buffer has the same effect whether one read brings it or any
  number of reads: the handler ends in the same way (also when it exits, waits for the daemon or is given
  a length that is too long), and the daemon's socket, the standard output and the reply buffer are the
  same, byte for byte; when it returns, the same bytes are kept for the next read.
\<close>

theorem reads_split_equivalently:
  assumes "port_ok p" and "bss \<noteq> []" and "[] \<notin> set bss"
    and "length (unread p) + length (concat bss) \<le> 2048"
  shows "\<exists>out p1 p2. process_erl (p\<lparr>stdin_answers := ReadData (concat bss) # r\<rparr>) = (out, p1) \<and>
    reads (length bss) (p\<lparr>stdin_answers := map ReadData bss @ r\<rparr>) = (out, p2) \<and>
    psock p1 = psock p2 \<and> stdout p1 = stdout p2 \<and> wpa_buffer p1 = wpa_buffer p2 \<and>
    (out = Ret () \<longrightarrow> unread p1 = unread p2 \<and> stdin_answers p1 = r \<and> stdin_answers p2 = r)"
  by (rule reads_split [OF assms])

theorem reads_split_equivalently_witness:
  "\<exists>p'. reads 2 (idle_port\<lparr>stdin_answers := map ReadData [take 3 (frame ''SCAN''), drop 3 (frame ''SCAN'')]\<rparr>) =
      (Ret (), p') \<and> sent (psock p') = [''SCAN''] \<and> unread p' = []"
proof -
  let ?bss = "[take 3 (frame ''SCAN''), drop 3 (frame ''SCAN'')]"
  have ne: "?bss \<noteq> []" "[] \<notin> set ?bss" "length (unread idle_port) + length (concat ?bss) \<le> 2048"
    by (simp_all add: idle_port_def unread_def frame_def htons_bytes_def Let_def)
  have c: "concat ?bss = frame ''SCAN''" by simp
  let ?p = "idle_port\<lparr>stdin_answers := [ReadData (frame ''SCAN'')]\<rparr>"
  have ok: "port_ok ?p" using idle_port_ok by (simp add: port_ok_def unread_def)
  have "packets (unread ?p @ take (2048 - erl_buffer_ix ?p) (frame ''SCAN'')) = ([''SCAN''], Partial [])"
    using packets_frame [of "''SCAN''" "[]"] by (simp add: idle_port_def unread_def BUFFER_SIZE_def)
  from process_erl_serving [OF ok _ _ this, of "[]" "[([''<1>UP''], ''OK'')]" "[]"]
    idle_port_daemon idle_port_pipe obtain p1 where
    "process_erl ?p = (Ret (), p1)" "sent (psock p1) = [''SCAN'']" "unread p1 = []"
    by (auto simp: idle_port_def numeral_2_eq_2 frame_def)
  with reads_split_equivalently [OF idle_port_ok ne, of "[]"] show ?thesis
    unfolding c by (auto simp: numeral_2_eq_2)
qed

end
