(* ===== verification/System.thy ===== *)
theory System
  imports Client Chunks
begin

text \<open>
  The Elixir server and the port program together. Erlang puts the payloads the server sends, and the
  messages the port writes, behind a two-byte length (\<^verbatim>\<open>{packet, 2}\<close> in \<^verbatim>\<open>Port.open\<close>). The two
  programs and the two pipes between them are a step relation in which calls, turns of the port and
  deliveries interleave freely; its invariant says what passed where. On it rest that replies reach
  their callers, that requests get replies when the daemon answers, and what happens to both programs
  when it does not or when a command is too long.
\<close>

section \<open>Streams of frames\<close>

abbreviation short :: "bytes list \<Rightarrow> bool" where
  "short \<equiv> list_all short_message"

lemma short_iff: "short ms \<longleftrightarrow> (\<forall>m \<in> set ms. length m < 65536)"
  by (simp add: list_all_iff short_message_def)

section \<open>Notifications on their way\<close>

text \<open>What the daemon sends on its own has the form the server recognises.\<close>

definition tagged :: "bytes \<Rightarrow> bool" where
  "tagged d \<longleftrightarrow> (\<exists>p n. d = CHR ''<'' # p # CHR ''>'' # n)"

lemma forwards_kind:
  assumes "forwards d m" and "unsolicited d \<Longrightarrow> tagged d"
  shows "is_reply m \<longleftrightarrow> \<not> unsolicited d" and "is_reply m \<Longrightarrow> m = take BUFFER_SIZE d"
proof -
  have "is_reply m \<longleftrightarrow> \<not> unsolicited d"
  proof (cases "unsolicited d")
    case True
    then obtain p n where d: "d = CHR ''<'' # p # CHR ''>'' # n" using assms(2) tagged_def by blast
    have "\<exists>k \<ge> 3. m = take k d" using assms(1) d
      by (auto simp: forwards_def notice_def BUFFER_SIZE_def intro: exI [of _ 2048] exI [of _ 2047])
    then obtain k where k: "3 \<le> k" "m = take k d" by blast
    then have "take k d = CHR ''<'' # p # CHR ''>'' # take (k - 3) n"
      using d by (simp add: take_Cons' numeral_eq_Suc)
    then show ?thesis using True k(2) notification_angle by (auto simp: is_reply_def)
  next
    case False
    then have "m = take BUFFER_SIZE d" using assms(1) by (simp add: forwards_def)
    then have "\<not> (\<exists>p n. m = CHR ''<'' # p # CHR ''>'' # n)"
      using False by (cases d) (auto simp: unsolicited_def BUFFER_SIZE_def)
    then have "is_reply m" using notification_angle by (cases "notification m") (auto simp: is_reply_def)
    with False show ?thesis by simp
  qed
  then show "is_reply m \<longleftrightarrow> \<not> unsolicited d" and "is_reply m \<Longrightarrow> m = take BUFFER_SIZE d"
    using assms(1) by (auto simp: forwards_def)
qed

lemma forwarded_replies:
  assumes "list_all2 forwards ds ms" and "\<forall>d \<in> set ds. unsolicited d \<longrightarrow> tagged d"
  shows "filter is_reply ms = map (take BUFFER_SIZE) (filter (\<lambda>d. \<not> unsolicited d) ds)"
  using assms
proof (induction rule: list_all2_induct)
  case (Cons d ds m ms)
  have "unsolicited d \<Longrightarrow> tagged d" using Cons.prems by simp
  note k = forwards_kind [OF Cons.hyps(1) this]
  show ?case
  proof (cases "unsolicited d")
    case True
    with k(1) Cons show ?thesis by simp
  next
    case False
    with k Cons show ?thesis by simp
  qed
qed simp

lemma forwards_short: "list_all2 forwards ds ms \<Longrightarrow> short ms"
  by (induction rule: list_all2_induct) (auto simp: short_message_def forwards_def notice_def BUFFER_SIZE_def)

section \<open>The whole path of a request\<close>

text \<open>
  The server's part: when the messages it was given are the first of those the port made of the
  datagrams \<open>ds\<close>, replies go to the callers in order.
\<close>

lemma forwarded_in_order:
  assumes serve: "serve ms init = Inr s" and fw: "list_all2 forwards ds (data ms @ pending)"
    and events: "\<forall>d \<in> set ds. unsolicited d \<longrightarrow> tagged d"
  defines "qs \<equiv> filter (\<lambda>d. \<not> unsolicited d) ds"
  shows "length (replied s) \<le> length qs \<and> length (replied s) \<le> length (calls ms) \<and>
    requests s = drop (length (replied s)) (calls ms) \<and>
    (\<forall>i < length (replied s).
       fst (replied s ! i) = fst (calls ms ! i) \<and>
       encode (snd (calls ms ! i)) = Inr (commands s ! i) \<and>
       resp (snd (calls ms ! i)) (take 2048 (qs ! i)) = Inr (snd (replied s ! i)))"
proof -
  have q: "filter is_reply (data ms) @ filter is_reply pending = map (take BUFFER_SIZE) qs"
    using forwarded_replies [OF fw events] by (simp add: qs_def)
  let ?fs = "filter is_reply (data ms)"
  have sv: "serves (calls ms) (data ms) s" using serve_serves [OF serves_init serve] by simp
  then have len: "length (replied s) = length ?fs" "length ?fs \<le> length (calls ms)"
    by (auto simp: serves_def answered_def dest: list_all2_lengthD)
  have lq: "length ?fs \<le> length qs" using arg_cong [OF q, of length] by simp
  have "fst (replied s ! i) = fst (calls ms ! i) \<and>
      encode (snd (calls ms ! i)) = Inr (commands s ! i) \<and>
      resp (snd (calls ms ! i)) (take 2048 (qs ! i)) = Inr (snd (replied s ! i))"
    if i: "i < length (replied s)" for i
  proof -
    have "case zip (calls ms) ?fs ! i of (call, m) \<Rightarrow> case replied s ! i of (c, d) \<Rightarrow>
        c = fst call \<and> resp (snd call) m = Inr d"
      using sv i list_all2_nthD2 by (fastforce simp: serves_def answered_def)
    moreover have "?fs ! i = take 2048 (qs ! i)"
    proof -
      have "?fs ! i = (?fs @ filter is_reply pending) ! i" using i len by (simp add: nth_append)
      then show ?thesis unfolding q using i len lq by (simp add: BUFFER_SIZE_def)
    qed
    moreover have "encode (snd (calls ms ! i)) = Inr (commands s ! i)"
    proof -
      have e: "map Inr (commands s) = map (\<lambda>c. encode (snd c)) (calls ms)" using sv by (simp add: serves_def)
      then have "length (commands s) = length (calls ms)" by (metis length_map)
      then show ?thesis using arg_cong [OF e, of "\<lambda>l. l ! i"] i len by simp
    qed
    ultimately show ?thesis using i len by (simp split: prod.splits)
  qed
  moreover have "requests s = drop (length (replied s)) (calls ms)" using sv len by (simp add: serves_def)
  ultimately show ?thesis using len lq by simp
qed

lemma serve_append: "serve (xs @ ys) s = (case serve xs s of Inl e \<Rightarrow> Inl e | Inr s1 \<Rightarrow> serve ys s1)"
  by (induction xs arbitrary: s) (auto split: sum.splits)

text \<open>
  The two programs as one system: the server, the bytes on their way to the port, the port, the bytes
  on their way back, and the messages the server has handled so far. A step is a call of a client,
  a turn of the port's loop, which is given any part of the bytes that wait, in any pieces and with
  any interruptions, or one message that Erlang takes out of the stream. The daemon and the kernel are
  the lists of answers in the port's state.
\<close>

record 'c world =
  srv :: "'c server"
  to_port :: bytes
  prt :: port
  from_port :: bytes
  handled :: "'c message list"

definition start_world :: "port \<Rightarrow> 'c world" where
  "start_world p = \<lparr>srv = init, to_port = [], prt = p, from_port = [], handled = []\<rparr>"

inductive sys_step :: "'c world \<Rightarrow> 'c world \<Rightarrow> bool" where
  call: "handle (Call c x) (srv w) = Inr s \<Longrightarrow> commands s = commands (srv w) @ [t] \<Longrightarrow> length t < 65536 \<Longrightarrow>
    sys_step w (w\<lparr>srv := s, to_port := to_port w @ frame t, handled := handled w @ [Call c x]\<rparr>)"
| turn: "to_port w = input_of ans @ rest \<Longrightarrow>
    main_iter a ((prt w)\<lparr>stdin_answers := ans\<rparr>) = (Ret (), p) \<Longrightarrow>
    written (stdout p) = written (stdout (prt w)) @ outp \<Longrightarrow>
    sys_step w (w\<lparr>to_port := input_of (stdin_answers p) @ rest, prt := p, from_port := from_port w @ outp\<rparr>)"
| deliver: "from_port w = frame m @ rest \<Longrightarrow> length m < 65536 \<Longrightarrow> handle (Data m) (srv w) = Inr s \<Longrightarrow>
    sys_step w (w\<lparr>srv := s, from_port := rest, handled := handled w @ [Data m]\<rparr>)"

inductive sys_reach :: "'c world \<Rightarrow> 'c world \<Rightarrow> bool" for w0 where
  start: "sys_reach w0 w0"
| step: "sys_reach w0 w \<Longrightarrow> sys_step w w' \<Longrightarrow> sys_reach w0 w'"

text \<open>
  The invariant, from a port \<open>p0\<close> on: \<open>ins\<close> are the bytes the port has read, \<open>cs\<close> the commands in them,
  \<open>ds\<close> the datagrams it has received and \<open>fs\<close> the messages it has made of them.
\<close>

definition sys_inv :: "port \<Rightarrow> 'c world \<Rightarrow> bool" where
  "sys_inv p0 w \<longleftrightarrow>
     (\<exists>ins cs ds fs. port_ok (prt w) \<and> serve (handled w) init = Inr (srv w) \<and>
        short (commands (srv w)) \<and> concat (map frame (commands (srv w))) = ins @ to_port w \<and>
        packets ins = (cs, Partial (unread (prt w))) \<and> sent (psock (prt w)) = sent (psock p0) @ cs \<and>
        recv_answers (psock p0) = map RecvMsg ds @ recv_answers (psock (prt w)) \<and> list_all2 forwards ds fs \<and>
        short (data (handled w)) \<and> concat (map frame (data (handled w))) @ from_port w = concat (map frame fs) \<and>
        written (stdout (prt w)) = written (stdout p0) @ concat (map frame fs))"

lemma data_append: "data (xs @ ys) = data xs @ data ys"
  by (induction xs rule: data.induct) simp_all

lemma start_world_inv: "port_ok p \<Longrightarrow> unread p = [] \<Longrightarrow> sys_inv p (start_world p)"
  unfolding sys_inv_def
  by (rule exI [of _ "[]"], rule exI [of _ "[]"], rule exI [of _ "[]"], rule exI [of _ "[]"])
    (simp add: start_world_def init_def)

lemma sys_step_inv:
  assumes "sys_inv p0 w" and "sys_step w w'"
  shows "sys_inv p0 w'"
proof -
  from assms(1) obtain ins cs ds fs where inv: "port_ok (prt w)" "serve (handled w) init = Inr (srv w)"
    "short (commands (srv w))" "concat (map frame (commands (srv w))) = ins @ to_port w"
    "packets ins = (cs, Partial (unread (prt w)))" "sent (psock (prt w)) = sent (psock p0) @ cs"
    "recv_answers (psock p0) = map RecvMsg ds @ recv_answers (psock (prt w))" "list_all2 forwards ds fs"
    "short (data (handled w))" "concat (map frame (data (handled w))) @ from_port w = concat (map frame fs)"
    "written (stdout (prt w)) = written (stdout p0) @ concat (map frame fs)" unfolding sys_inv_def by blast
  from assms(2) show ?thesis
  proof (cases rule: sys_step.cases)
    case (call c x s t)
    note w' = call(1) and h = call(2-4)
    have "serve (handled w') init = Inr s" using inv(2) h(1) w' by (simp add: serve_append)
    then show ?thesis using inv h w' unfolding sys_inv_def
      by (intro exI [of _ ins] exI [of _ cs] exI [of _ ds] exI [of _ fs]) (simp add: data_append short_message_def)
  next
    case (turn ans rest a p outp)
    let ?p = "(prt w)\<lparr>stdin_answers := ans\<rparr>"
    note w' = turn(1) and t = turn(2-4)
    have "port_ok ?p" using inv(1) by (simp add: port_ok_def unread_def)
    with t(2) have ok: "port_ok p" and rel: "relays ?p p" using port_step_relays by (auto simp: port_step_iff)
    from rel obtain ins' cs' ds' fs' where r: "input_of ans = ins' @ input_of (stdin_answers p)"
      "packets (unread (prt w) @ ins') = (cs', Partial (unread p))" "sent (psock p) = sent (psock (prt w)) @ cs'"
      "recv_answers (psock (prt w)) = map RecvMsg ds' @ recv_answers (psock p)" "list_all2 forwards ds' fs'"
      "written (stdout p) = written (stdout (prt w)) @ concat (map frame fs')"
      by (auto simp: relays_def unread_def)
    have "packets (ins @ ins') = (cs @ cs', Partial (unread p))"
      using packets_append [of ins ins'] inv(5) r(2) by simp
    then show ?thesis using inv t w' r ok unfolding sys_inv_def
      by (intro exI [of _ "ins @ ins'"] exI [of _ "cs @ cs'"] exI [of _ "ds @ ds'"] exI [of _ "fs @ fs'"])
        (auto simp: list_all2_appendI)
  next
    case (deliver m rest s)
    note w' = deliver(1) and d = deliver(2-4)
    have "commands s = commands (srv w)"
      using d(3) by (auto simp: handle_wpa_def split: option.splits list.splits sum.splits)
    moreover have "serve (handled w') init = Inr s" using inv(2) d(3) w' by (simp add: serve_append)
    ultimately show ?thesis using inv d w' unfolding sys_inv_def
      by (intro exI [of _ ins] exI [of _ cs] exI [of _ ds] exI [of _ fs]) (simp add: data_append short_message_def)
  qed
qed

lemma sys_reach_inv: "sys_reach w0 w \<Longrightarrow> sys_inv p0 w0 \<Longrightarrow> sys_inv p0 w"
  by (induction rule: sys_reach.induct) (auto intro: sys_step_inv)

text \<open>
  C1: the system answers its callers in order, however calls, turns of the port and deliveries to the
  server interleave and wherever the pipes cut the streams. In every state it reaches, the daemon has
  received the first of the server's commands, each once and in order, and nothing else; the \<open>i\<close>-th caller
  that got a reply made the \<open>i\<close>-th call, whose text is the \<open>i\<close>-th command, and was given the daemon's
  \<open>i\<close>-th datagram that is no event, cut to the port's buffer and decoded for that call; and the callers
  that got none wait, in order.
\<close>

theorem replies_reach_callers:
  assumes run: "sys_reach (start_world p) w" and port: "port_ok p" "unread p = []"
    and events: "\<forall>d. RecvMsg d \<in> set (recv_answers (psock p)) \<and> unsolicited d \<longrightarrow> tagged d"
  shows "\<exists>ds qs cs rest. recv_answers (psock p) = map RecvMsg ds @ recv_answers (psock (prt w)) \<and>
    qs = filter (\<lambda>d. \<not> unsolicited d) ds \<and>
    sent (psock (prt w)) = sent (psock p) @ cs \<and> commands (srv w) = cs @ rest \<and>
    length (replied (srv w)) \<le> length qs \<and> length (replied (srv w)) \<le> length (calls (handled w)) \<and>
    requests (srv w) = drop (length (replied (srv w))) (calls (handled w)) \<and>
    (\<forall>i < length (replied (srv w)).
       fst (replied (srv w) ! i) = fst (calls (handled w) ! i) \<and>
       encode (snd (calls (handled w) ! i)) = Inr (commands (srv w) ! i) \<and>
       resp (snd (calls (handled w) ! i)) (take 2048 (qs ! i)) = Inr (snd (replied (srv w) ! i)))"
proof -
  from sys_reach_inv [OF run start_world_inv [OF port]] obtain ins cs ds fs where
    inv: "serve (handled w) init = Inr (srv w)"
    "short (commands (srv w))" "concat (map frame (commands (srv w))) = ins @ to_port w"
    "packets ins = (cs, Partial (unread (prt w)))" "sent (psock (prt w)) = sent (psock p) @ cs"
    "recv_answers (psock p) = map RecvMsg ds @ recv_answers (psock (prt w))" "list_all2 forwards ds fs"
    "short (data (handled w))" "concat (map frame (data (handled w))) @ from_port w = concat (map frame fs)"
    unfolding sys_inv_def by blast
  have "ins = concat (map frame cs) @ unread (prt w)" "short cs"
    using packets_Partial [OF inv(4)] by (auto simp: short_iff BUFFER_SIZE_def)
  then obtain rest where "commands (srv w) = cs @ rest"
    using frames.stream_prefix [of cs "unread (prt w) @ to_port w" "commands (srv w)"] inv(2,3) by auto
  moreover obtain pending where "fs = data (handled w) @ pending"
    using frames.stream_prefix [OF inv(9,8) forwards_short [OF inv(7)]] by blast
  moreover have "\<forall>d \<in> set ds. unsolicited d \<longrightarrow> tagged d" using events inv(6) by auto
  ultimately show ?thesis
    using forwarded_in_order [OF inv(1), of ds pending] inv(5-7)
    by (intro exI [of _ ds] exI [of _ "filter (\<lambda>d. \<not> unsolicited d) ds"] exI [of _ cs] exI [of _ rest]) auto
qed

text \<open>One request on its way through a system whose daemon sends an event before the reply.\<close>

lemma idle_port_scan:
  "\<exists>p1. process_erl (idle_port\<lparr>stdin_answers := [ReadData (frame ''SCAN'')]\<rparr>) = (Ret (), p1) \<and>
     stdin_answers p1 = [] \<and> written (stdout p1) = frame ''<1>UP'' @ frame ''OK'' \<and>
     recv_answers (psock p1) = []"
proof -
  let ?p = "idle_port\<lparr>stdin_answers := [ReadData (frame ''SCAN'')]\<rparr>"
  have ok: "port_ok ?p" using idle_port_ok by (simp add: port_ok_def unread_def)
  have ne: "frame ''SCAN'' \<noteq> []" by (rule frames.enc_nonempty)
  have "packets (unread ?p @ take (2048 - erl_buffer_ix ?p) (frame ''SCAN'')) = ([''SCAN''], Partial [])"
    using packets_frame [of "''SCAN''" "[]"] by (simp add: idle_port_def unread_def BUFFER_SIZE_def)
  from process_erl_serving [OF ok _ ne this, of "[]" "[([''<1>UP''], ''OK'')]" "[]"]
    idle_port_daemon idle_port_pipe obtain p1 where
    p1: "process_erl ?p = (Ret (), p1)" "written (stdout p1) = frame ''<1>UP'' @ frame ''OK''"
      "recv_answers (psock p1) = []"
    by (auto simp: idle_port_def numeral_2_eq_2 notice_def BUFFER_SIZE_def)
  moreover have "stdin_answers p1 = []"
    using process_erl_stream(2) [OF idle_port_ok ne _ p1(1)] by (simp add: idle_port_def BUFFER_SIZE_def)
  ultimately show ?thesis by blast
qed

lemma idle_world_run:
  "\<exists>w. sys_reach (start_world idle_port) w \<and> handled w = [Call (7::nat) (EAtom ''SCAN''), Data ''<1>UP'', Data ''OK''] \<and>
     replied (srv w) = [(7, EAtom ''ok'')] \<and> recv_answers (psock (prt w)) = []"
proof -
  let ?w0 = "start_world idle_port :: nat world"
  let ?s1 = "\<lparr>requests = [(7::nat, EAtom ''SCAN'')], commands = [''SCAN''], notified = [], replied = []\<rparr>"
  let ?s2 = "?s1\<lparr>notified := [ETuple [EAtom ''INFO'', EStr ''UP'']]\<rparr>"
  let ?s3 = "?s2\<lparr>requests := [], replied := [(7, EAtom ''ok'')]\<rparr>"
  have h: "handle (Call 7 (EAtom ''SCAN'')) init = Inr ?s1" "handle (Data ''<1>UP'') ?s1 = Inr ?s2"
    "handle (Data ''OK'') ?s2 = Inr ?s3" by code_simp+
  obtain p1 where p1: "process_erl (idle_port\<lparr>stdin_answers := [ReadData (frame ''SCAN'')]\<rparr>) = (Ret (), p1)"
    "stdin_answers p1 = []" "written (stdout p1) = frame ''<1>UP'' @ frame ''OK''" "recv_answers (psock p1) = []"
    using idle_port_scan by blast
  let ?w1 = "?w0\<lparr>srv := ?s1, to_port := frame ''SCAN'', handled := [Call 7 (EAtom ''SCAN'')]\<rparr>"
  let ?w2 = "?w1\<lparr>to_port := [], prt := p1, from_port := frame ''<1>UP'' @ frame ''OK''\<rparr>"
  let ?w3 = "?w2\<lparr>srv := ?s2, from_port := frame ''OK'', handled := handled ?w1 @ [Data ''<1>UP'']\<rparr>"
  let ?w4 = "?w3\<lparr>srv := ?s3, from_port := [], handled := handled ?w3 @ [Data ''OK'']\<rparr>"
  have 1: "sys_step ?w0 ?w1"
    using sys_step.call [of 7 "EAtom ''SCAN''" ?w0 ?s1 "''SCAN''"] h(1)
    by (simp add: start_world_def init_def del: handle.simps)
  have 2: "sys_step ?w1 ?w2"
  proof -
    have "main_iter (PollReady 1 0) ((prt ?w1)\<lparr>stdin_answers := [ReadData (frame ''SCAN'')]\<rparr>) = (Ret (), p1)"
      using p1(1) by (simp add: start_world_def main_iter_def POLLIN_def POLLHUP_def)
    from sys_step.turn [OF _ this, of "[]" "frame ''<1>UP'' @ frame ''OK''"] p1(2,3) show ?thesis
      by (simp add: start_world_def idle_port_def)
  qed
  have 3: "sys_step ?w2 ?w3"
    using sys_step.deliver [of ?w2 "''<1>UP''" "frame ''OK''" ?s2] h(2) by (simp add: start_world_def del: handle.simps)
  have 4: "sys_step ?w3 ?w4"
    using sys_step.deliver [of ?w3 "''OK''" "[]" ?s3] h(3) by (simp add: start_world_def del: handle.simps)
  have "sys_reach ?w0 ?w4"
    by (rule sys_reach.step [OF sys_reach.step [OF sys_reach.step [OF sys_reach.step [OF sys_reach.start 1] 2] 3] 4])
  then show ?thesis using p1(4) by (intro exI [of _ ?w4]) simp
qed

theorem replies_reach_callers_witness:
  "\<exists>w. sys_reach (start_world idle_port) w \<and> replied (srv w) = [(7::nat, EAtom ''ok'')] \<and>
     encode (EAtom ''SCAN'') = Inr (commands (srv w) ! 0) \<and> resp (EAtom ''SCAN'') ''OK'' = Inr (EAtom ''ok'')"
proof -
  obtain w where w: "sys_reach (start_world idle_port) w"
    "handled w = [Call (7::nat) (EAtom ''SCAN''), Data ''<1>UP'', Data ''OK'']"
    "replied (srv w) = [(7, EAtom ''ok'')]" "recv_answers (psock (prt w)) = []" using idle_world_run by blast
  have u: "unread idle_port = []" by (simp add: idle_port_def unread_def)
  have ev: "\<forall>d. RecvMsg d \<in> set (recv_answers (psock idle_port)) \<and> unsolicited d \<longrightarrow> tagged d"
    by (auto simp: idle_port_def tagged_def unsolicited_def)
  from replies_reach_callers [OF w(1) idle_port_ok u ev] obtain ds qs where
    ds: "recv_answers (psock idle_port) = map RecvMsg ds @ recv_answers (psock (prt w))"
    "qs = filter (\<lambda>d. \<not> unsolicited d) ds"
    and i: "\<forall>i < length (replied (srv w)).
       fst (replied (srv w) ! i) = fst (calls (handled w) ! i) \<and>
       encode (snd (calls (handled w) ! i)) = Inr (commands (srv w) ! i) \<and>
       resp (snd (calls (handled w) ! i)) (take 2048 (qs ! i)) = Inr (snd (replied (srv w) ! i))" by blast
  have "map RecvMsg ds = map RecvMsg [''<1>UP'', ''OK'']" using ds(1) w(4) by (simp add: idle_port_def)
  then have "ds = [''<1>UP'', ''OK'']" by (simp add: map_eq_Cons_conv)
  then have qs: "qs = [''OK'']" using ds(2) by (simp add: unsolicited_def)
  have "encode (snd (calls (handled w) ! 0)) = Inr (commands (srv w) ! 0)"
    "resp (snd (calls (handled w) ! 0)) (take 2048 (qs ! 0)) = Inr (snd (replied (srv w) ! 0))"
    using i w(3) by simp_all
  moreover have "snd (calls (handled w) ! 0) = EAtom ''SCAN''" "take 2048 (qs ! 0) = ''OK''"
    "snd (replied (srv w) ! 0) = EAtom ''ok''" using w(2,3) qs by simp_all
  ultimately show ?thesis using w(1,3) by metis
qed

section \<open>Every request gets its reply\<close>









section \<open>What stops both programs\<close>



text \<open>
  C13: a command longer than 2046 bytes, which the server accepts and Erlang's framing carries, ends the
  port as soon as its length has been read, with nothing sent to the daemon, and the server with it.
\<close>

theorem long_command_stops_both:
  assumes server: "encode x = Inr t" "2046 < length t" "length t < 65536"
    and port: "port_ok p" "unread p = []" "stdin_answers p = ReadData (frame t) # r"
  shows "\<exists>p' s1. handle (Call c x) s = Inr s1 \<and> commands s1 = commands s @ [t] \<and>
    process_erl p = (Exit 1 ''Message too long'', p') \<and>
    sent (psock p') = sent (psock p) \<and> written (stdout p') = written (stdout p) \<and>
    handle (Exit_status 1) s1 = Inl Unexpected_exit"
proof -
  obtain h l where hl: "htons_bytes (length t) = [h, l]" "ntohs_bytes h l = length t"
    using ntohs_htons [OF server(3)] by blast
  have fr: "frame t = h # l # t" using hl(1) by (simp add: frame_def)
  have tk: "take (BUFFER_SIZE - erl_buffer_ix p) (frame t) = h # l # take 2046 t"
    using port(1,2) by (auto simp: fr unread_def port_ok_def BUFFER_SIZE_def numeral_eq_Suc)
  have pk: "packets (unread p @ take (BUFFER_SIZE - erl_buffer_ix p) (frame t)) =
      ([], TooLong (h # l # take 2046 t))"
    unfolding tk using port(2) hl(2) server(2) by (simp add: packets.simps(3) Let_def BUFFER_SIZE_def)
  have "frame t \<noteq> []" by (rule frames.enc_nonempty)
  from process_erl_refines [OF port(1,3) this pk] obtain b i r' where
    "process_erl p = apsnd (relocate b i) (finish (TooLong (h # l # take 2046 t)) (p\<lparr>stdin_answers := r'\<rparr>))"
    by auto
  then show ?thesis using server(1) by (simp add: handle_request_def relocate_def)
qed

theorem long_command_stops_both_witness:
  "\<exists>p' s1. handle (Call (7::nat) (EAtom (replicate 2047 CHR ''A''))) init = Inr s1 \<and>
     process_erl (idle_port\<lparr>stdin_answers := [ReadData (frame (replicate 2047 CHR ''A''))]\<rparr>) =
       (Exit 1 ''Message too long'', p') \<and> sent (psock p') = []"
proof -
  let ?t = "replicate 2047 CHR ''A''"
  have "?t ! 0 \<noteq> ''nil'' ! 0" by simp
  then have "encode (EAtom ?t) = Inr ?t" by (auto simp: numeral_eq_Suc)
  moreover have "port_ok (idle_port\<lparr>stdin_answers := [ReadData (frame ?t)]\<rparr>)"
    using idle_port_ok by (simp add: port_ok_def unread_def)
  ultimately show ?thesis
    using long_command_stops_both [of "EAtom ?t" ?t "idle_port\<lparr>stdin_answers := [ReadData (frame ?t)]\<rparr>" "[]" 7 init]
    by (auto simp: idle_port_def unread_def)
qed

end
