(* ===== verification/Mac_Text.thy ===== *)
theory Mac_Text
  imports Bytes Codec
begin

text \<open>
  Hardware addresses as text: the formats \<^verbatim>\<open>MACSTR\<close> and \<^verbatim>\<open>COMPACT_MACSTR\<close> of
  \<^verbatim>\<open>src/src/wpa_ctrl/common.h\<close> with the arguments \<^verbatim>\<open>MAC2STR\<close> gives them, and how the Elixir
  encoder takes the result.
\<close>

section \<open>Printing\<close>

text \<open>\<^verbatim>\<open>%02x\<close> of a byte.\<close>

definition hex_char :: "nat \<Rightarrow> char" where
  "hex_char d = char_of (if d < 10 then 48 + d else 87 + d)"

definition hex2 :: "u8 \<Rightarrow> string" where
  "hex2 b = [hex_char (unat b div 16), hex_char (unat b mod 16)]"

text \<open>An array shorter than an address is read out of bounds.\<close>

definition MAC2STR :: "u8 list \<Rightarrow> u8 list option" where
  "MAC2STR a = mem_read 0 6 a"

definition MACSTR :: "u8 list \<Rightarrow> string" where
  "MACSTR as =
     hex2 (as ! 0) @ '':'' @ hex2 (as ! 1) @ '':'' @ hex2 (as ! 2) @ '':'' @
     hex2 (as ! 3) @ '':'' @ hex2 (as ! 4) @ '':'' @ hex2 (as ! 5)"

definition COMPACT_MACSTR :: "u8 list \<Rightarrow> string" where
  "COMPACT_MACSTR as =
     hex2 (as ! 0) @ hex2 (as ! 1) @ hex2 (as ! 2) @ hex2 (as ! 3) @ hex2 (as ! 4) @ hex2 (as ! 5)"

text \<open>A string literal, which ends in a NUL.\<close>

definition broadcast_ether_addr :: "u8 list" where
  "broadcast_ether_addr = [0xff, 0xff, 0xff, 0xff, 0xff, 0xff, 0]"

section \<open>Reading back\<close>

lemma hex_char_value: "d < 16 \<Longrightarrow> digit_value (hex_char d) = Some d"
  by (auto simp: hex_char_def digit_value_def Let_def)

lemma hex_char_hex: "d < 16 \<Longrightarrow> hex_digit (hex_char d)"
  by (simp add: hex_digit_def hex_char_value)

lemma u8_nibbles: "unat (b :: u8) div 16 < 16" "unat b mod 16 < 16"
proof -
  have "unat b < 256" using unsigned_less [of b] by simp
  then show "unat b div 16 < 16" "unat b mod 16 < 16" by simp_all
qed

text \<open>The text is read back with the decoder's digits, two of them a byte.\<close>

fun read_hex :: "string \<Rightarrow> u8 list" where
  "read_hex (a # b # s) =
     (if a = CHR '':'' then read_hex (b # s)
      else of_nat (16 * the (digit_value a) + the (digit_value b)) # read_hex s)"
| "read_hex _ = []"

lemma read_hex_byte: "read_hex (hex2 b @ s) = b # read_hex s"
proof -
  have "hex_char (unat b div 16) \<noteq> CHR '':''"
  proof
    assume "hex_char (unat b div 16) = CHR '':''"
    then have "digit_value CHR '':'' = Some (unat b div 16)" using hex_char_value [OF u8_nibbles(1)] by metis
    then show False by (simp add: digit_value_def)
  qed
  then show ?thesis
    using hex_char_value [OF u8_nibbles(1)] hex_char_value [OF u8_nibbles(2)] by (simp add: hex2_def)
qed

lemma read_hex_colon: "read_hex (CHR '':'' # hex2 b @ s) = read_hex (hex2 b @ s)"
  by (simp add: hex2_def)

lemma read_hex_last: "read_hex (hex2 b) = [b]" "read_hex (CHR '':'' # hex2 b) = [b]"
  using read_hex_byte [of b "[]"] read_hex_colon [of b "[]"] by simp_all

text \<open>
  The text of an address has seventeen characters, tells all its bytes, and is an address for the Elixir
  encoder, which sends it without quotes; the compact text tells the bytes as well but is sent
  as a string, between quotes.
\<close>

theorem mac_text_round_trip:
  assumes "MAC2STR a = Some as"
  shows "read_hex (MACSTR as) = take 6 a \<and> read_hex (COMPACT_MACSTR as) = take 6 a \<and>
    length (MACSTR as) = 17 \<and> mac_address (MACSTR as) \<and>
    encode_arg (EStr (MACSTR as)) = Inr (MACSTR as) \<and>
    encode_arg (EStr (COMPACT_MACSTR as)) = Inr (CHR 0x22 # COMPACT_MACSTR as @ [CHR 0x22])"
proof -
  have six: "length as = 6" and as: "as = take 6 a"
    using assms by (auto simp: MAC2STR_def mem_read_def split: if_splits)
  from six obtain u v w x y z where l: "as = [u, v, w, x, y, z]"
    by (auto simp: numeral_eq_Suc length_Suc_conv)
  have h: "hex_digit (hex_char (unat b div 16))" "hex_digit (hex_char (unat b mod 16))" for b :: u8
    using hex_char_hex u8_nibbles by blast+
  have "mac_prefix (Suc (Suc (Suc (Suc (Suc (Suc 0)))))) (MACSTR as)" and len: "length (MACSTR as) = 17"
    unfolding l by (simp_all add: MACSTR_def hex2_def h)
  moreover have "(6::nat) = Suc (Suc (Suc (Suc (Suc (Suc 0)))))" by simp
  ultimately have m: "mac_address (MACSTR as)" unfolding mac_address_def by (simp only:)
  have "length (COMPACT_MACSTR as) = 12" by (simp add: COMPACT_MACSTR_def hex2_def)
  then have "\<not> mac_address (COMPACT_MACSTR as)" by (simp add: mac_address_def)
  then have "encode_arg (EStr (COMPACT_MACSTR as)) = Inr (CHR 0x22 # COMPACT_MACSTR as @ [CHR 0x22])"
    using mac_test [of "COMPACT_MACSTR as"] by (auto simp: encode_arg_def)
  moreover have "encode_arg (EStr (MACSTR as)) = Inr (MACSTR as)"
    using m mac_test [of "MACSTR as"] by (auto simp: encode_arg_def)
  moreover have "read_hex (MACSTR as) = as" "read_hex (COMPACT_MACSTR as) = as"
    by (simp_all add: l MACSTR_def COMPACT_MACSTR_def read_hex_byte read_hex_colon read_hex_last
        del: read_hex.simps)
  ultimately show ?thesis using m len as by simp
qed

theorem mac_text_round_trip_witness:
  "is_broadcast_ether_addr broadcast_ether_addr = Some True \<and>
   (\<exists>as. MAC2STR broadcast_ether_addr = Some as \<and> MACSTR as = ''ff:ff:ff:ff:ff:ff'' \<and>
      encode_arg (EStr (MACSTR as)) = Inr ''ff:ff:ff:ff:ff:ff'')"
proof -
  let ?as = "[0xff, 0xff, 0xff, 0xff, 0xff, 0xff]"
  have m: "MAC2STR broadcast_ether_addr = Some ?as"
    by (simp add: MAC2STR_def mem_read_def broadcast_ether_addr_def)
  have "hex_char 15 = CHR ''f''" by code_simp
  then have t: "MACSTR ?as = ''ff:ff:ff:ff:ff:ff''" by (simp add: MACSTR_def hex2_def)
  have "is_broadcast_ether_addr broadcast_ether_addr = Some True"
    by (simp add: is_broadcast_ether_addr_def broadcast_ether_addr_def)
  with m t mac_text_round_trip [OF m] show ?thesis by metis
qed

end
