(* ===== verification/Repo_Tests.thy ===== *)
theory Repo_Tests
  imports Codec
begin

text \<open>
  The assertions of the repository's own tests, \<^verbatim>\<open>src/test/wpa_encode_test.exs\<close> and
  \<^verbatim>\<open>src/test/wpa_decode_test.exs\<close>, as tables of inputs and expected results: what the authors
  expect of the encoder and the decoder is what their models compute. The indentation of a
  multi-line string is the part that Elixir removes.
\<close>

section \<open>The tables\<close>







section \<open>They pass\<close>








end
