(* ===== verification/Cpp.thy ===== *)
theory Cpp
  imports Prelude "HOL-Library.AList"
begin

text \<open>
  The preprocessor, as far as the sources use it: which macros are defined, what a name stands for
  after expansion, and what a translation unit then declares and defines. A directive is a function
  on the state of the preprocessor, and a header a list of directives in the order it has them, so
  that the other theories can be read beside the files. What a header of the system does to the
  macros is an argument.
\<close>

section \<open>State\<close>

text \<open>
  Macros with their bodies, the last definition first; of a function-like macro that passes its
  arguments on, the body is the name it calls, and empty if it is the argument itself. Then the
  names of the functions that are declared, defined with external linkage and defined static, the
  types with what they stand for, the members of the structure that is defined, the headers of the
  system that were read, and the text of an \<^verbatim>\<open>#error\<close>.
\<close>

type_synonym macro_table = "(string \<times> string) list"

record pp =
  macros :: macro_table
  protos :: "string list"
  defs :: "string list"
  statics :: "string list"
  typedefs :: "(string \<times> string) list"
  members :: "string list"
  headers :: "string list"
  failed :: "string option"

type_synonym directive = "pp \<Rightarrow> pp"

text \<open>The state before the first line, with the macros given on the command line.\<close>

definition start :: "macro_table \<Rightarrow> pp" where
  "start ms = \<lparr>macros = ms, protos = [], defs = [], statics = [], typedefs = [], members = [],
     headers = [], failed = None\<rparr>"

definition lookup :: "string \<Rightarrow> pp \<Rightarrow> string option" where
  "lookup x s = map_of (macros s) x"

definition is_defined :: "string \<Rightarrow> pp \<Rightarrow> bool" where
  "is_defined x s \<longleftrightarrow> lookup x s \<noteq> None"

section \<open>Expansion\<close>

text \<open>
  What a name becomes: its body is scanned again, in which the name itself is not expanded any
  more.
\<close>

function expand :: "macro_table \<Rightarrow> string \<Rightarrow> string" where
  "expand ms x =
     (case map_of ms x of None \<Rightarrow> x | Some v \<Rightarrow> expand (AList.delete x ms) v)"
  by pat_completeness auto
termination
proof (relation "measure (\<lambda>(ms, x). length ms)")
  fix ms :: macro_table and x v
  assume "map_of ms x = Some v"
  then have "(x, v) \<in> set ms" by (rule map_of_SomeD)
  then have "length (filter (\<lambda>p. x \<noteq> fst p) ms) < length ms" by (rule length_filter_less) simp
  then show "((AList.delete x ms, v), ms, x) \<in> measure (\<lambda>(ms, x). length ms)"
    by (simp add: AList.delete_eq case_prod_unfold)
qed simp

declare expand.simps [simp del]

text \<open>
  The value of a name in \<^verbatim>\<open>#if\<close>: what is no number after expansion counts as zero. Only decimal
  numbers occur.
\<close>

definition value_of :: "string \<Rightarrow> pp \<Rightarrow> nat" where
  "value_of x s =
     (let t = expand (macros s) x
      in if list_all (\<lambda>c. c \<in> set ''0123456789'') t then undec t else 0)"

section \<open>Directives\<close>

definition run :: "directive list \<Rightarrow> directive" where
  "run ds s = fold (\<lambda>d t. d t) ds s"

definition hash_define :: "string \<Rightarrow> string \<Rightarrow> directive" where
  "hash_define x v s = s\<lparr>macros := (x, v) # macros s\<rparr>"

definition hash_undef :: "string \<Rightarrow> directive" where
  "hash_undef x s = s\<lparr>macros := AList.delete x (macros s)\<rparr>"

definition hash_if :: "(pp \<Rightarrow> bool) \<Rightarrow> directive list \<Rightarrow> directive list \<Rightarrow> directive" where
  "hash_if c a b s = (if c s then run a s else run b s)"

definition hash_ifdef :: "string \<Rightarrow> directive list \<Rightarrow> directive list \<Rightarrow> directive" where
  "hash_ifdef x = hash_if (is_defined x)"

definition hash_ifndef :: "string \<Rightarrow> directive list \<Rightarrow> directive" where
  "hash_ifndef x a = hash_if (\<lambda>s. \<not> is_defined x s) a []"

definition hash_error :: "string \<Rightarrow> directive" where
  "hash_error t s = s\<lparr>failed := Some t\<rparr>"

text \<open>An \<^verbatim>\<open>#include\<close> of a header of the system.\<close>

definition hash_system :: "(string \<Rightarrow> macro_table \<Rightarrow> macro_table) \<Rightarrow> string \<Rightarrow> directive" where
  "hash_system sys f s = s\<lparr>macros := sys f (macros s), headers := headers s @ [f]\<rparr>"

definition c_proto :: "string \<Rightarrow> directive" where
  "c_proto f s = s\<lparr>protos := protos s @ [f]\<rparr>"

definition c_fun :: "string \<Rightarrow> directive" where
  "c_fun f s = s\<lparr>defs := defs s @ [f]\<rparr>"

definition c_static :: "string \<Rightarrow> directive" where
  "c_static f s = s\<lparr>statics := statics s @ [f]\<rparr>"

definition c_typedef :: "string \<Rightarrow> string \<Rightarrow> directive" where
  "c_typedef old new s = s\<lparr>typedefs := typedefs s @ [(new, old)]\<rparr>"

definition c_member :: "string \<Rightarrow> directive" where
  "c_member x s = s\<lparr>members := members s @ [x]\<rparr>"

section \<open>What a directive leaves alone\<close>

text \<open>
  The frame of a directive: a projection of the state it never changes. The rules follow the
  directives, so that a whole header is one call of the simplifier, however many conditionals it
  has.
\<close>

definition keeps :: "(pp \<Rightarrow> 'a) \<Rightarrow> directive \<Rightarrow> bool" where
  "keeps F d \<longleftrightarrow> (\<forall>s. F (d s) = F s)"

named_theorems frame_simps \<open>which projections a directive keeps\<close>

lemma run_simps: "run [] s = s" "run (d # ds) s = run ds (d s)"
  by (simp_all add: run_def)

lemma run_append: "run (ds @ es) s = run es (run ds s)"
  by (simp add: run_def)

lemma keepsD: "keeps F d \<Longrightarrow> F (d s) = F s"
  by (simp add: keeps_def)

lemma keeps_run [frame_simps]: "list_all (keeps F) ds \<Longrightarrow> keeps F (run ds)"
proof (induction ds)
  case (Cons d ds)
  then show ?case by (simp add: keeps_def run_simps)
qed (simp add: keeps_def run_simps)

lemma keeps_if:
  "list_all (keeps F) a \<Longrightarrow> list_all (keeps F) b \<Longrightarrow> keeps F (hash_if c a b)"
  using keeps_run [of F a] keeps_run [of F b] by (simp add: keeps_def hash_if_def)

lemma keeps_conditional [frame_simps]:
  "list_all (keeps F) a \<Longrightarrow> list_all (keeps F) b \<Longrightarrow> keeps F (hash_if c a b)"
  "list_all (keeps F) a \<Longrightarrow> list_all (keeps F) b \<Longrightarrow> keeps F (hash_ifdef x a b)"
  "list_all (keeps F) a \<Longrightarrow> keeps F (hash_ifndef x a)"
  by (simp_all add: keeps_if hash_ifdef_def hash_ifndef_def)

lemma keeps_macros [frame_simps]:
  "x \<noteq> y \<Longrightarrow> keeps (lookup x) (hash_define y v)"
  "x \<noteq> y \<Longrightarrow> keeps (lookup x) (hash_undef y)"
  "keeps (lookup x) (hash_error t)"
  "keeps (lookup x) (c_proto f)"
  "keeps (lookup x) (c_fun f)"
  "keeps (lookup x) (c_static f)"
  "keeps (lookup x) (c_typedef a b)"
  "keeps (lookup x) (c_member f)"
  by (simp_all add: keeps_def lookup_def hash_define_def hash_undef_def hash_error_def c_proto_def
      c_fun_def c_static_def c_typedef_def c_member_def delete_conv')

lemma keeps_defs [frame_simps]:
  "keeps defs (hash_define y v)" "keeps defs (hash_undef y)" "keeps defs (hash_error t)"
  "keeps defs (hash_system sys f)" "keeps defs (c_proto f)" "keeps defs (c_static f)"
  "keeps defs (c_typedef a b)" "keeps defs (c_member f)"
  by (simp_all add: keeps_def hash_define_def hash_undef_def hash_error_def hash_system_def
      c_proto_def c_static_def c_typedef_def c_member_def)

lemma keeps_members [frame_simps]:
  "keeps members (hash_define y v)" "keeps members (hash_undef y)" "keeps members (hash_error t)"
  "keeps members (hash_system sys f)" "keeps members (c_proto f)" "keeps members (c_static f)"
  "keeps members (c_typedef a b)" "keeps members (c_fun f)"
  by (simp_all add: keeps_def hash_define_def hash_undef_def hash_error_def hash_system_def
      c_proto_def c_static_def c_typedef_def c_fun_def)

lemma keeps_failed [frame_simps]:
  "keeps failed (hash_define y v)" "keeps failed (hash_undef y)" "keeps failed (hash_system sys f)"
  "keeps failed (c_proto f)" "keeps failed (c_static f)" "keeps failed (c_typedef a b)"
  "keeps failed (c_fun f)" "keeps failed (c_member f)"
  by (simp_all add: keeps_def hash_define_def hash_undef_def hash_system_def c_proto_def
      c_static_def c_typedef_def c_fun_def c_member_def)

lemma keeps_typedefs [frame_simps]:
  "keeps typedefs (hash_define y v)" "keeps typedefs (hash_undef y)" "keeps typedefs (hash_error t)"
  "keeps typedefs (hash_system sys f)" "keeps typedefs (c_proto f)" "keeps typedefs (c_static f)"
  "keeps typedefs (c_fun f)" "keeps typedefs (c_member f)"
  by (simp_all add: keeps_def hash_define_def hash_undef_def hash_error_def hash_system_def
      c_proto_def c_static_def c_fun_def c_member_def)

text \<open>The headers of the system that leave a name alone.\<close>

definition sys_keeps :: "(string \<Rightarrow> macro_table \<Rightarrow> macro_table) \<Rightarrow> string \<Rightarrow> bool" where
  "sys_keeps sys x \<longleftrightarrow> (\<forall>f ms. map_of (sys f ms) x = map_of ms x)"

lemma keeps_system [frame_simps]: "sys_keeps sys x \<Longrightarrow> keeps (lookup x) (hash_system sys f)"
  by (simp add: keeps_def sys_keeps_def lookup_def hash_system_def)

section \<open>Running directives\<close>

lemma run_frame: "list_all (keeps F) ds \<Longrightarrow> F (run ds s) = F s"
  using keeps_run [of F ds] by (rule keepsD)

lemma run_frame_tail:
  "list_all (keeps F) ds \<Longrightarrow> F (run (d # ds) s) = F (d s)"
  "list_all (keeps F) ds \<Longrightarrow> F (run (d # e # ds) s) = F (e (d s))"
  by (simp_all add: run_simps run_frame)

text \<open>What each directive does to the projections it changes.\<close>

lemma lookup_define: "lookup x (hash_define y v s) = (if x = y then Some v else lookup x s)"
  by (simp add: lookup_def hash_define_def)

lemma lookup_system: "sys_keeps sys x \<Longrightarrow> lookup x (hash_system sys f s) = lookup x s"
  by (simp add: lookup_def sys_keeps_def hash_system_def)

lemma lookup_undef: "lookup x (hash_undef y s) = (if x = y then None else lookup x s)"
  by (simp add: lookup_def hash_undef_def delete_conv')

lemma conditional_cases:
  "hash_if c a b s = (if c s then run a s else run b s)"
  "hash_ifdef x a b s = (if is_defined x s then run a s else run b s)"
  "hash_ifndef x a s = (if is_defined x s then s else run a s)"
  by (simp_all add: hash_if_def hash_ifdef_def hash_ifndef_def run_simps)

lemma define_unless [simp]:
  "x \<noteq> y \<Longrightarrow> lookup x (hash_ifndef y [hash_define y v] s) = lookup x s"
  "lookup y (hash_ifndef y [hash_define y v] s) = Some (case lookup y s of None \<Rightarrow> v | Some w \<Rightarrow> w)"
  "defs (hash_ifndef y [hash_define y v] s) = defs s"
  by (auto simp: conditional_cases run_simps lookup_define is_defined_def hash_define_def lookup_def
      split: option.splits)

lemma step_simps:
  "lookup x (c_fun f s) = lookup x s" "lookup x (c_static f s) = lookup x s"
  "lookup x (c_proto f s) = lookup x s" "lookup x (c_typedef a b s) = lookup x s"
  "lookup x (c_member f s) = lookup x s" "lookup x (hash_error t s) = lookup x s"
  "defs (c_fun f s) = defs s @ [f]" "defs (c_static f s) = defs s" "defs (c_member f s) = defs s"
  "defs (hash_define y v s) = defs s" "defs (hash_system sys h s) = defs s" "defs (hash_undef y s) = defs s"
  "members (c_fun f s) = members s" "members (c_member f s) = members s @ [f]"
  "members (c_static f s) = members s"
  "failed (hash_define y v s) = failed s" "failed (hash_error t s) = Some t"
  "failed (c_static f s) = failed s"
  "typedefs (c_typedef a b s) = typedefs s @ [(b, a)]" "typedefs (hash_define y v s) = typedefs s"
  "typedefs (hash_system sys h s) = typedefs s"
  by (simp_all add: lookup_def hash_define_def hash_undef_def hash_error_def hash_system_def
      c_proto_def c_fun_def c_static_def c_typedef_def c_member_def)

text \<open>A conditional is passed over if none of its branches touches the name.\<close>

lemma conditional_frames:
  "list_all (keeps (lookup x)) a \<Longrightarrow> list_all (keeps (lookup x)) b \<Longrightarrow> lookup x (hash_ifdef y a b s) = lookup x s"
  "list_all (keeps (lookup x)) a \<Longrightarrow> lookup x (hash_ifndef y a s) = lookup x s"
  by (simp_all add: conditional_cases run_frame)

lemma conditional_known:
  "is_defined y s \<Longrightarrow> hash_ifdef y a b s = run a s"
  "\<not> is_defined y s \<Longrightarrow> hash_ifdef y a b s = run b s"
  "\<not> is_defined y s \<Longrightarrow> hash_ifndef y a s = run a s"
  "is_defined y s \<Longrightarrow> hash_ifndef y a s = s"
  by (simp_all add: conditional_cases)

text \<open>
  The one directive of a block that changes a projection can be run alone. Wrappers are defined so:
  the block defines the name if nothing did before, to something that may depend on another name.
\<close>

lemma run_at:
  assumes "i < length ds" and "list_all (keeps F) (drop (Suc i) ds)"
  shows "F (run ds s) = F ((ds ! i) (run (take i ds) s))"
proof -
  have "run ds s = run (take i ds @ ds ! i # drop (Suc i) ds) s"
    using id_take_nth_drop [OF assms(1)] by simp
  then show ?thesis using assms(2) by (simp add: run_append run_frame_tail)
qed

lemma wrapper_default:
  assumes "i < length ds" and "ds ! i = hash_ifndef f [hash_define f c]"
    and "list_all (keeps (lookup f)) (take i ds @ drop (Suc i) ds)"
  shows "lookup f (run ds s) = Some (case lookup f s of None \<Rightarrow> c | Some v \<Rightarrow> v)"
  using assms run_frame [of "lookup f" "take i ds" s] by (simp add: run_at [of i] split: option.splits)

lemma wrapper_choice:
  assumes "i < length ds" and "ds ! i = hash_ifndef f [hash_ifdef m [hash_define f c] [hash_define f d]]"
    and "list_all (keeps (lookup f)) (take i ds @ drop (Suc i) ds)"
    and "list_all (keeps (lookup m)) (take i ds)"
  shows "lookup f (run ds s) =
    Some (case lookup f s of None \<Rightarrow> if is_defined m s then c else d | Some v \<Rightarrow> v)"
  using assms run_frame [of "lookup f" "take i ds" s] run_frame [of "lookup m" "take i ds" s]
  by (auto simp: run_at [of i] conditional_cases run_simps is_defined_def lookup_define
      split: option.splits)

text \<open>The last definition of a name in a block counts.\<close>

lemma run_defines:
  "ds = pre @ hash_define x v # post \<Longrightarrow> list_all (keeps (lookup x)) post \<Longrightarrow>
   lookup x (run ds s) = Some v"
  by (simp add: run_append run_frame_tail lookup_define)

text \<open>A header behind a guard that is already defined is not read again.\<close>

lemma guarded: "is_defined x s \<Longrightarrow> hash_ifndef x a s = s"
  by (simp add: conditional_cases)

text \<open>Expansion in one step and at its end.\<close>

lemma expand_None: "map_of ms x = None \<Longrightarrow> expand ms x = x"
  by (simp add: expand.simps)

lemma expand_Some: "map_of ms x = Some v \<Longrightarrow> expand ms x = expand (AList.delete x ms) v"
  by (simp add: expand.simps)

lemma expand_once:
  assumes "map_of ms x = Some v" and "map_of ms v = None"
  shows "expand ms x = v"
proof -
  have "map_of (AList.delete x ms) v = None"
    using assms(2) by (simp add: delete_conv')
  then show ?thesis using assms(1) by (simp add: expand_Some expand_None)
qed

lemma expand_twice:
  assumes "map_of ms x = Some v" and "map_of ms v = Some w" and "map_of ms w = None" and "x \<noteq> v"
  shows "expand ms x = w"
proof -
  have "map_of (AList.delete x ms) v = Some w" "map_of (AList.delete x ms) w = None"
    using assms(2-4) by (simp_all add: delete_conv')
  then show ?thesis using expand_once assms(1) by (simp add: expand_Some)
qed

lemma expand_self: "map_of ms x = Some x \<Longrightarrow> expand ms x = x"
  by (simp add: expand_Some expand_None delete_conv')

text \<open>Expansion only depends on what the names stand for, not on how the table is kept.\<close>

lemma expand_cong: "map_of ms = map_of ms' \<Longrightarrow> expand ms x = expand ms' x"
proof (induction ms x arbitrary: ms' rule: expand.induct)
  case (1 ms x)
  show ?case
  proof (cases "map_of ms x")
    case None
    then show ?thesis using 1(2) by (simp add: expand_None)
  next
    case (Some v)
    have "map_of (AList.delete x ms) = map_of (AList.delete x ms')"
      using 1(2) by (auto simp: fun_eq_iff delete_conv')
    from 1(1) [OF Some this] show ?thesis using Some 1(2) by (simp add: expand_Some)
  qed
qed

end
