(* ===== verification/Headers.thy ===== *)
theory Headers
  imports Cpp Events
begin

text \<open>
  The headers under \<^verbatim>\<open>src/src/wpa_ctrl\<close> as the preprocessor reads them, conditional by
  conditional. A body of a macro that is code of its own is written \<open>code\<close>; what the code computes
  is in the theories about it. The argument \<open>sys\<close> is what the headers of the system do to the table
  of macros.
\<close>

abbreviation code :: string where "code \<equiv> ''(code)''"

abbreviation nothing :: string where "nothing \<equiv> ''do { } while (0)''"

type_synonym system = "string \<Rightarrow> macro_table \<Rightarrow> macro_table"

section \<open>\<^verbatim>\<open>build_config.h\<close> and \<^verbatim>\<open>includes.h\<close>\<close>

definition win32_defaults :: "directive list" where
  "win32_defaults =
     [hash_define ''CONFIG_NATIVE_WINDOWS'' '''',
      hash_define ''CONFIG_ANSI_C_EXTRA'' '''',
      hash_define ''CONFIG_WINPCAP'' '''',
      hash_define ''IEEE8021X_EAPOL'' '''',
      hash_define ''PKCS12_FUNCS'' '''',
      hash_define ''PCSC_FUNCS'' '''',
      hash_define ''CONFIG_CTRL_IFACE'' '''',
      hash_define ''CONFIG_CTRL_IFACE_NAMED_PIPE'' '''',
      hash_define ''CONFIG_DRIVER_NDIS'' '''',
      hash_define ''CONFIG_NDIS_EVENTS_INTEGRATED'' '''',
      hash_define ''CONFIG_DEBUG_FILE'' '''',
      hash_define ''EAP_MD5'' '''',
      hash_define ''EAP_TLS'' '''',
      hash_define ''EAP_MSCHAPv2'' '''',
      hash_define ''EAP_PEAP'' '''',
      hash_define ''EAP_TTLS'' '''',
      hash_define ''EAP_GTC'' '''',
      hash_define ''EAP_OTP'' '''',
      hash_define ''EAP_LEAP'' '''',
      hash_define ''EAP_TNC'' '''',
      hash_define ''_CRT_SECURE_NO_DEPRECATE'' '''',
      hash_ifdef ''USE_INTERNAL_CRYPTO''
        [hash_define ''CONFIG_TLS_INTERNAL_CLIENT'' '''',
         hash_define ''CONFIG_INTERNAL_LIBTOMMATH'' '''',
         hash_define ''CONFIG_CRYPTO_INTERNAL'' ''''] []]"

definition build_config_h :: directive where
  "build_config_h =
     hash_ifndef ''BUILD_CONFIG_H''
       [hash_define ''BUILD_CONFIG_H'' '''',
        hash_ifdef ''CONFIG_WIN32_DEFAULTS'' win32_defaults []]"

definition includes_h :: "system \<Rightarrow> directive" where
  "includes_h sys =
     hash_ifndef ''INCLUDES_H''
       [hash_define ''INCLUDES_H'' '''',
        build_config_h,
        hash_system sys ''stdlib.h'',
        hash_system sys ''stdio.h'',
        hash_system sys ''stdarg.h'',
        hash_system sys ''string.h'',
        hash_ifndef ''_WIN32_WCE''
          [hash_ifndef ''CONFIG_TI_COMPILER''
             [hash_system sys ''signal.h'',
              hash_system sys ''sys/types.h''],
           hash_system sys ''errno.h''],
        hash_system sys ''ctype.h'',
        hash_ifndef ''CONFIG_TI_COMPILER''
          [hash_ifndef ''_MSC_VER'' [hash_system sys ''unistd.h'']],
        hash_ifndef ''CONFIG_NATIVE_WINDOWS''
          [hash_ifndef ''CONFIG_TI_COMPILER''
             [hash_system sys ''sys/socket.h'',
              hash_system sys ''netinet/in.h'',
              hash_system sys ''arpa/inet.h'',
              hash_ifndef ''__vxworks''
                [hash_system sys ''sys/uio.h'',
                 hash_system sys ''sys/time.h'']]]]"

section \<open>\<^verbatim>\<open>os.h\<close>\<close>

text \<open>The wrappers for functions of the C library that a system may supply itself.\<close>

definition os_wrapper_protos :: "directive list" where
  "os_wrapper_protos =
     map c_proto
       [''os_malloc'', ''os_realloc'', ''os_free'', ''os_memcpy'', ''os_memmove'', ''os_memset'',
        ''os_memcmp'', ''os_strdup'', ''os_strlen'', ''os_strcasecmp'', ''os_strncasecmp'',
        ''os_strchr'', ''os_strrchr'', ''os_strcmp'', ''os_strncmp'', ''os_strstr'', ''os_snprintf'']"

text \<open>The default: every wrapper that has no definition yet is the function of the C library.\<close>

definition os_c_lib_defines :: "directive list" where
  "os_c_lib_defines =
     [hash_ifdef ''WPA_TRACE''
        [c_proto ''os_malloc'', c_proto ''os_realloc'', c_proto ''os_free'', c_proto ''os_strdup'']
        [hash_ifndef ''os_malloc'' [hash_define ''os_malloc'' ''malloc''],
         hash_ifndef ''os_realloc'' [hash_define ''os_realloc'' ''realloc''],
         hash_ifndef ''os_free'' [hash_define ''os_free'' ''free''],
         hash_ifndef ''os_strdup''
           [hash_ifdef ''_MSC_VER''
              [hash_define ''os_strdup'' ''_strdup'']
              [hash_define ''os_strdup'' ''strdup'']]],
      hash_ifndef ''os_memcpy'' [hash_define ''os_memcpy'' ''memcpy''],
      hash_ifndef ''os_memmove'' [hash_define ''os_memmove'' ''memmove''],
      hash_ifndef ''os_memset'' [hash_define ''os_memset'' ''memset''],
      hash_ifndef ''os_memcmp'' [hash_define ''os_memcmp'' ''memcmp''],
      hash_ifndef ''os_strlen'' [hash_define ''os_strlen'' ''strlen''],
      hash_ifndef ''os_strcasecmp''
        [hash_ifdef ''_MSC_VER''
           [hash_define ''os_strcasecmp'' ''_stricmp'']
           [hash_define ''os_strcasecmp'' ''strcasecmp'']],
      hash_ifndef ''os_strncasecmp''
        [hash_ifdef ''_MSC_VER''
           [hash_define ''os_strncasecmp'' ''_strnicmp'']
           [hash_define ''os_strncasecmp'' ''strncasecmp'']],
      hash_ifndef ''os_strchr'' [hash_define ''os_strchr'' ''strchr''],
      hash_ifndef ''os_strcmp'' [hash_define ''os_strcmp'' ''strcmp''],
      hash_ifndef ''os_strncmp'' [hash_define ''os_strncmp'' ''strncmp''],
      hash_ifndef ''os_strrchr'' [hash_define ''os_strrchr'' ''strrchr''],
      hash_ifndef ''os_strstr'' [hash_define ''os_strstr'' ''strstr''],
      hash_ifndef ''os_snprintf''
        [hash_ifdef ''_MSC_VER''
           [hash_define ''os_snprintf'' ''_snprintf'']
           [hash_define ''os_snprintf'' ''snprintf'']]]"

text \<open>Names of the C library that must not be used.\<close>

definition os_reject_c_lib :: "directive list" where
  "os_reject_c_lib =
     [hash_define ''malloc'' ''OS_DO_NOT_USE_malloc'',
      hash_define ''realloc'' ''OS_DO_NOT_USE_realloc'',
      hash_define ''free'' ''OS_DO_NOT_USE_free'',
      hash_define ''memcpy'' ''OS_DO_NOT_USE_memcpy'',
      hash_define ''memmove'' ''OS_DO_NOT_USE_memmove'',
      hash_define ''memset'' ''OS_DO_NOT_USE_memset'',
      hash_define ''memcmp'' ''OS_DO_NOT_USE_memcmp'',
      hash_undef ''strdup'',
      hash_define ''strdup'' ''OS_DO_NOT_USE_strdup'',
      hash_define ''strlen'' ''OS_DO_NOT_USE_strlen'',
      hash_define ''strcasecmp'' ''OS_DO_NOT_USE_strcasecmp'',
      hash_define ''strncasecmp'' ''OS_DO_NOT_USE_strncasecmp'',
      hash_undef ''strchr'',
      hash_define ''strchr'' ''OS_DO_NOT_USE_strchr'',
      hash_undef ''strcmp'',
      hash_define ''strcmp'' ''OS_DO_NOT_USE_strcmp'',
      hash_undef ''strncmp'',
      hash_define ''strncmp'' ''OS_DO_NOT_USE_strncmp'',
      hash_undef ''strncpy'',
      hash_define ''strncpy'' ''OS_DO_NOT_USE_strncpy'',
      hash_define ''strrchr'' ''OS_DO_NOT_USE_strrchr'',
      hash_define ''strstr'' ''OS_DO_NOT_USE_strstr'',
      hash_undef ''snprintf'',
      hash_define ''snprintf'' ''OS_DO_NOT_USE_snprintf'',
      hash_define ''strcpy'' ''OS_DO_NOT_USE_strcpy'']"

definition os_h :: directive where
  "os_h =
     hash_ifndef ''OS_H''
       [hash_define ''OS_H'' '''',
        c_typedef ''long'' ''os_time_t'',
        c_proto ''os_sleep'',
        c_proto ''os_get_time'',
        c_proto ''os_get_reltime'',
        c_static ''os_time_before'',
        c_static ''os_time_sub'',
        c_static ''os_reltime_before'',
        c_static ''os_reltime_sub'',
        c_static ''os_reltime_age'',
        c_static ''os_reltime_expired'',
        c_static ''os_reltime_initialized'',
        c_proto ''os_mktime'',
        c_proto ''os_gmtime'',
        c_proto ''os_daemonize'',
        c_proto ''os_daemonize_terminate'',
        c_proto ''os_get_random'',
        c_proto ''os_random'',
        c_proto ''os_rel2abs_path'',
        c_proto ''os_program_init'',
        c_proto ''os_program_deinit'',
        c_proto ''os_setenv'',
        c_proto ''os_unsetenv'',
        c_proto ''os_readfile'',
        c_proto ''os_zalloc'',
        c_static ''os_calloc'',
        hash_ifdef ''OS_NO_C_LIB_DEFINES'' os_wrapper_protos os_c_lib_defines,
        c_static ''os_realloc_array'',
        c_proto ''os_strlcpy'',
        hash_ifdef ''OS_REJECT_C_LIB_FUNCTIONS'' os_reject_c_lib []]"

end
