(* ===== verification/Common_H.thy ===== *)
theory Common_H
  imports Headers Bytes
begin

text \<open>
  \<^verbatim>\<open>common.h\<close> as the preprocessor reads it: where the byte order comes from, the integer types and
  the byte swapping macros of each platform, and the rest of the header.
\<close>

section \<open>Platforms\<close>

text \<open>Where byte order and swaps come from.\<close>

definition byte_order_sources :: "system \<Rightarrow> directive list" where
  "byte_order_sources sys =
     [hash_if (\<lambda>s. is_defined ''__linux__'' s \<or> is_defined ''__GLIBC__'' s)
        [hash_system sys ''endian.h'',
         hash_system sys ''byteswap.h''] [],
      hash_if (\<lambda>s. is_defined ''__FreeBSD__'' s \<or> is_defined ''__NetBSD__'' s \<or>
          is_defined ''__DragonFly__'' s \<or> is_defined ''__OpenBSD__'' s)
        [hash_system sys ''sys/types.h'',
         hash_system sys ''sys/endian.h'',
         hash_define ''__BYTE_ORDER'' ''_BYTE_ORDER'',
         hash_define ''__LITTLE_ENDIAN'' ''_LITTLE_ENDIAN'',
         hash_define ''__BIG_ENDIAN'' ''_BIG_ENDIAN'',
         hash_ifdef ''__OpenBSD__''
           [hash_define ''bswap_16'' ''swap16'',
            hash_define ''bswap_32'' ''swap32'',
            hash_define ''bswap_64'' ''swap64'']
           [hash_define ''bswap_16'' ''bswap16'',
            hash_define ''bswap_32'' ''bswap32'',
            hash_define ''bswap_64'' ''bswap64'']] [],
      hash_ifdef ''__APPLE__''
        [hash_system sys ''sys/types.h'',
         hash_system sys ''machine/endian.h'',
         hash_define ''__BYTE_ORDER'' ''_BYTE_ORDER'',
         hash_define ''__LITTLE_ENDIAN'' ''_LITTLE_ENDIAN'',
         hash_define ''__BIG_ENDIAN'' ''_BIG_ENDIAN'',
         c_static ''bswap_16'',
         c_static ''bswap_32''] [],
      hash_ifdef ''CONFIG_TI_COMPILER''
        [hash_define ''__BIG_ENDIAN'' ''4321'',
         hash_define ''__LITTLE_ENDIAN'' ''1234'',
         hash_ifdef ''__big_endian__''
           [hash_define ''__BYTE_ORDER'' ''__BIG_ENDIAN'']
           [hash_define ''__BYTE_ORDER'' ''__LITTLE_ENDIAN'']] [],
      hash_ifdef ''CONFIG_NATIVE_WINDOWS''
        [hash_system sys ''winsock.h'',
         c_typedef ''int'' ''socklen_t'',
         hash_ifndef ''MSG_DONTWAIT'' [hash_define ''MSG_DONTWAIT'' ''0'']] [],
      hash_ifdef ''_MSC_VER''
        [hash_define ''inline'' ''__inline'',
         hash_undef ''vsnprintf'',
         hash_define ''vsnprintf'' ''_vsnprintf'',
         hash_undef ''close'',
         hash_define ''close'' ''closesocket''] []]"

text \<open>The integer types.\<close>

definition integer_types :: "system \<Rightarrow> directive list" where
  "integer_types sys =
     [hash_ifdef ''_MSC_VER''
        [c_typedef ''UINT64'' ''u64'',
         c_typedef ''UINT32'' ''u32'',
         c_typedef ''UINT16'' ''u16'',
         c_typedef ''UINT8'' ''u8'',
         c_typedef ''INT64'' ''s64'',
         c_typedef ''INT32'' ''s32'',
         c_typedef ''INT16'' ''s16'',
         c_typedef ''INT8'' ''s8'',
         hash_define ''WPA_TYPES_DEFINED'' ''''] [],
      hash_ifdef ''__vxworks''
        [c_typedef ''unsigned long long'' ''u64'',
         c_typedef ''UINT32'' ''u32'',
         c_typedef ''UINT16'' ''u16'',
         c_typedef ''UINT8'' ''u8'',
         c_typedef ''long long'' ''s64'',
         c_typedef ''INT32'' ''s32'',
         c_typedef ''INT16'' ''s16'',
         c_typedef ''INT8'' ''s8'',
         hash_define ''WPA_TYPES_DEFINED'' ''''] [],
      hash_ifdef ''CONFIG_TI_COMPILER''
        [hash_ifdef ''_LLONG_AVAILABLE''
           [c_typedef ''unsigned long long'' ''u64'']
           [c_typedef ''unsigned long'' ''u64''],
         c_typedef ''unsigned int'' ''u32'',
         c_typedef ''unsigned short'' ''u16'',
         c_typedef ''unsigned char'' ''u8'',
         hash_define ''WPA_TYPES_DEFINED'' ''''] [],
      hash_ifndef ''WPA_TYPES_DEFINED''
        [hash_ifdef ''CONFIG_USE_INTTYPES_H''
           [hash_system sys ''inttypes.h'']
           [hash_system sys ''stdint.h''],
         c_typedef ''uint64_t'' ''u64'',
         c_typedef ''uint32_t'' ''u32'',
         c_typedef ''uint16_t'' ''u16'',
         c_typedef ''uint8_t'' ''u8'',
         c_typedef ''int64_t'' ''s64'',
         c_typedef ''int32_t'' ''s32'',
         c_typedef ''int16_t'' ''s16'',
         c_typedef ''int8_t'' ''s8'',
         hash_define ''WPA_TYPES_DEFINED'' '''']]"

text \<open>
  The byte swapping macros. A body is the function that swaps, or empty for the argument itself.
\<close>

definition little_endian_macros :: "directive list" where
  "little_endian_macros =
     [hash_define ''le_to_host16'' '''',
      hash_define ''host_to_le16'' '''',
      hash_define ''be_to_host16'' ''bswap_16'',
      hash_define ''host_to_be16'' ''bswap_16'',
      hash_define ''le_to_host32'' '''',
      hash_define ''host_to_le32'' '''',
      hash_define ''be_to_host32'' ''bswap_32'',
      hash_define ''host_to_be32'' ''bswap_32'',
      hash_define ''le_to_host64'' '''',
      hash_define ''host_to_le64'' '''',
      hash_define ''be_to_host64'' ''bswap_64'',
      hash_define ''host_to_be64'' ''bswap_64'']"

definition big_endian_macros :: "directive list" where
  "big_endian_macros =
     [hash_define ''le_to_host16'' ''bswap_16'',
      hash_define ''host_to_le16'' ''bswap_16'',
      hash_define ''be_to_host16'' '''',
      hash_define ''host_to_be16'' '''',
      hash_define ''le_to_host32'' ''bswap_32'',
      hash_define ''host_to_le32'' ''bswap_32'',
      hash_define ''be_to_host32'' '''',
      hash_define ''host_to_be32'' '''',
      hash_define ''le_to_host64'' ''bswap_64'',
      hash_define ''host_to_le64'' ''bswap_64'',
      hash_define ''be_to_host64'' '''',
      hash_define ''host_to_be64'' '''',
      hash_ifndef ''WORDS_BIGENDIAN'' [hash_define ''WORDS_BIGENDIAN'' '''']]"

definition windows_macros :: "directive list" where
  "windows_macros =
     [c_static ''wpa_swap_16'',
      c_static ''wpa_swap_32'',
      hash_define ''le_to_host16'' '''',
      hash_define ''host_to_le16'' '''',
      hash_define ''be_to_host16'' ''wpa_swap_16'',
      hash_define ''host_to_be16'' ''wpa_swap_16'',
      hash_define ''le_to_host32'' '''',
      hash_define ''be_to_host32'' ''wpa_swap_32'',
      hash_define ''host_to_be32'' ''wpa_swap_32'',
      hash_define ''WPA_BYTE_SWAP_DEFINED'' '''']"

definition byte_order_fallback :: "directive list" where
  "byte_order_fallback =
     [hash_ifndef ''__BYTE_ORDER''
        [hash_ifndef ''__LITTLE_ENDIAN''
           [hash_ifndef ''__BIG_ENDIAN''
              [hash_define ''__LITTLE_ENDIAN'' ''1234'',
               hash_define ''__BIG_ENDIAN'' ''4321'',
               hash_ifdef ''sparc'' [hash_define ''__BYTE_ORDER'' ''__BIG_ENDIAN''] []]]]]"

definition byte_swap_macros :: "directive list" where
  "byte_swap_macros =
     [hash_if (\<lambda>s. is_defined ''__CYGWIN__'' s \<or> is_defined ''CONFIG_NATIVE_WINDOWS'' s)
        windows_macros [],
      hash_ifndef ''WPA_BYTE_SWAP_DEFINED''
        (byte_order_fallback @
         [hash_if (\<lambda>s. value_of ''__BYTE_ORDER'' s = value_of ''__LITTLE_ENDIAN'' s)
            little_endian_macros
            [hash_if (\<lambda>s. value_of ''__BYTE_ORDER'' s = value_of ''__BIG_ENDIAN'' s)
               big_endian_macros
               [hash_error ''Could not determine CPU byte order'']],
          hash_define ''WPA_BYTE_SWAP_DEFINED'' ''''])]"

section \<open>The rest of \<^verbatim>\<open>common.h\<close>\<close>

definition word_accessors :: "directive list" where
  "word_accessors =
     map c_static
       [''WPA_GET_BE16'', ''WPA_PUT_BE16'', ''WPA_GET_LE16'', ''WPA_PUT_LE16'', ''WPA_GET_BE24'',
        ''WPA_PUT_BE24'', ''WPA_GET_BE32'', ''WPA_PUT_BE32'', ''WPA_GET_LE32'', ''WPA_PUT_LE32'',
        ''WPA_GET_BE64'', ''WPA_PUT_BE64'', ''WPA_GET_LE64'', ''WPA_PUT_LE64'']"

definition protocol_constants :: "directive list" where
  "protocol_constants =
     [hash_ifndef ''ETH_ALEN'' [hash_define ''ETH_ALEN'' ''6''],
      hash_ifndef ''IFNAMSIZ'' [hash_define ''IFNAMSIZ'' ''16''],
      hash_ifndef ''ETH_P_ALL'' [hash_define ''ETH_P_ALL'' ''0x0003''],
      hash_ifndef ''ETH_P_80211_ENCAP'' [hash_define ''ETH_P_80211_ENCAP'' ''0x890d''],
      hash_ifndef ''ETH_P_PAE'' [hash_define ''ETH_P_PAE'' ''0x888E''],
      hash_ifndef ''ETH_P_EAPOL'' [hash_define ''ETH_P_EAPOL'' ''ETH_P_PAE''],
      hash_ifndef ''ETH_P_RSN_PREAUTH'' [hash_define ''ETH_P_RSN_PREAUTH'' ''0x88c7''],
      hash_ifndef ''ETH_P_RRB'' [hash_define ''ETH_P_RRB'' ''0x890D'']]"

definition gnu_attributes :: "directive list" where
  "gnu_attributes =
     [hash_ifdef ''__GNUC__''
        [hash_define ''PRINTF_FORMAT'' ''__attribute__ ((format (printf, (a), (b))))'',
         hash_define ''STRUCT_PACKED'' ''__attribute__ ((packed))'']
        [hash_define ''PRINTF_FORMAT'' '''',
         hash_define ''STRUCT_PACKED'' '''']]"

text \<open>For compilers that know little more than ANSI C.\<close>

definition ansi_c_extra :: "directive list" where
  "ansi_c_extra =
     [hash_ifdef ''CONFIG_ANSI_C_EXTRA''
        [hash_if (\<lambda>s. \<not> is_defined ''_MSC_VER'' s \<or> value_of ''_MSC_VER'' s < 1400)
           [c_proto ''snprintf'',
            c_proto ''vsnprintf''] [],
         c_proto ''getopt'',
         hash_ifndef ''CONFIG_NO_SOCKLEN_T_TYPEDEF''
           [hash_ifndef ''__socklen_t_defined'' [c_typedef ''int'' ''socklen_t'']],
         hash_ifdef ''CONFIG_NO_INLINE''
           [hash_define ''inline'' '''']
           [hash_define ''inline'' ''__inline''],
         hash_ifndef ''__func__'' [hash_define ''__func__'' ''__func__ not defined''],
         hash_ifndef ''bswap_16'' [hash_define ''bswap_16'' code],
         hash_ifndef ''bswap_32'' [hash_define ''bswap_32'' code],
         hash_ifndef ''MSG_DONTWAIT'' [hash_define ''MSG_DONTWAIT'' ''0''],
         hash_ifdef ''_WIN32_WCE'' [c_proto ''perror''] []] []]"

definition printing_macros :: "directive list" where
  "printing_macros =
     [hash_ifndef ''MAC2STR''
        [hash_define ''MAC2STR'' code,
         hash_define ''MACSTR'' ''%02x:%02x:%02x:%02x:%02x:%02x'',
         hash_define ''COMPACT_MACSTR'' ''%02x%02x%02x%02x%02x%02x''],
      hash_ifndef ''BIT'' [hash_define ''BIT'' code]]"

definition checker_types :: "directive list" where
  "checker_types =
     [hash_ifdef ''__CHECKER__''
        [hash_define ''__force'' ''__attribute__((force))'',
         hash_define ''__bitwise'' ''__attribute__((bitwise))'']
        [hash_define ''__force'' '''',
         hash_define ''__bitwise'' ''''],
      c_typedef ''u16'' ''be16'',
      c_typedef ''u16'' ''le16'',
      c_typedef ''u32'' ''be32'',
      c_typedef ''u32'' ''le32'',
      c_typedef ''u64'' ''be64'',
      c_typedef ''u64'' ''le64'']"

definition gnu_3_4 :: "pp \<Rightarrow> bool" where
  "gnu_3_4 s \<longleftrightarrow> value_of ''__GNUC__'' s > 3 \<or>
     (value_of ''__GNUC__'' s = 3 \<and> value_of ''__GNUC_MINOR__'' s \<ge> 4)"

definition result_attributes :: "directive list" where
  "result_attributes =
     [hash_ifndef ''__must_check''
        [hash_if gnu_3_4
           [hash_define ''__must_check'' ''__attribute__((__warn_unused_result__))'']
           [hash_define ''__must_check'' '''']],
      hash_ifndef ''__maybe_unused''
        [hash_if gnu_3_4
           [hash_define ''__maybe_unused'' ''__attribute__((unused))'']
           [hash_define ''__maybe_unused'' '''']]]"

text \<open>Functions whose bodies are not in the repository.\<close>

definition helper_protos :: "directive list" where
  "helper_protos =
     [c_proto ''hwaddr_aton'',
      c_proto ''hwaddr_compact_aton'',
      c_proto ''hwaddr_aton2'',
      c_proto ''hex2byte'',
      c_proto ''hexstr2bin'',
      c_proto ''inc_byte_array'',
      c_proto ''wpa_get_ntp_timestamp'',
      c_proto ''wpa_snprintf_hex'',
      c_proto ''wpa_snprintf_hex_uppercase'',
      hash_ifdef ''CONFIG_NATIVE_WINDOWS''
        [c_proto ''wpa_unicode2ascii_inplace'',
         c_proto ''wpa_strdup_tchar'']
        [hash_define ''wpa_unicode2ascii_inplace'' nothing,
         hash_define ''wpa_strdup_tchar'' ''strdup''],
      c_proto ''printf_encode'',
      c_proto ''printf_decode'',
      c_proto ''wpa_ssid_txt'',
      c_proto ''wpa_config_parse_string'',
      c_proto ''is_hex'',
      c_proto ''find_first_bit'',
      c_proto ''merge_byte_arrays'',
      c_proto ''dup_binstr'']"

definition list_protos :: "directive list" where
  "list_protos =
     [c_proto ''freq_range_list_parse'',
      c_proto ''freq_range_list_includes'',
      c_proto ''freq_range_list_str'',
      c_proto ''int_array_len'',
      c_proto ''int_array_concat'',
      c_proto ''int_array_sort_unique'',
      c_proto ''int_array_add_unique'',
      hash_define ''ARRAY_SIZE'' code]"

definition aliasing_macros :: "system \<Rightarrow> directive list" where
  "aliasing_macros sys =
     [c_proto ''__hide_aliasing_typecast'',
      hash_define ''aliasing_hide_typecast'' ''__hide_aliasing_typecast'',
      hash_ifdef ''CONFIG_VALGRIND''
        [hash_system sys ''valgrind/memcheck.h'',
         hash_define ''WPA_MEM_DEFINED'' ''VALGRIND_MAKE_MEM_DEFINED'']
        [hash_define ''WPA_MEM_DEFINED'' nothing]]"

end
