(* ===== verification/Debug.thy ===== *)
theory Debug
  imports Headers Wpabuf
begin

text \<open>
  \<^verbatim>\<open>src/src/wpa_ctrl/wpa_debug.h\<close> and the conditionals of \<^verbatim>\<open>wpabuf.h\<close>: which of the debugging functions a
  configuration replaces by empty macros or functions, the levels and modules of the logger, and
  the assertion macro.
\<close>

unbundle bit_operations_syntax

section \<open>\<^verbatim>\<open>wpabuf.h\<close>\<close>

definition wpabuf_protos :: "directive list" where
  "wpabuf_protos =
     [c_proto ''wpabuf_resize'',
      c_proto ''wpabuf_alloc'',
      c_proto ''wpabuf_alloc_ext_data'',
      c_proto ''wpabuf_alloc_copy'',
      c_proto ''wpabuf_dup'',
      c_proto ''wpabuf_free'',
      c_proto ''wpabuf_put'',
      c_proto ''wpabuf_concat'',
      c_proto ''wpabuf_zeropad'',
      c_proto ''wpabuf_printf'']"

definition wpabuf_h :: directive where
  "wpabuf_h =
     hash_ifndef ''WPABUF_H''
       ([hash_define ''WPABUF_H'' '''',
         hash_define ''WPABUF_FLAG_EXT_DATA'' code] @
        wpabuf_protos @
        map c_static
          [''wpabuf_size'', ''wpabuf_len'', ''wpabuf_tailroom'', ''wpabuf_head'', ''wpabuf_head_u8'',
           ''wpabuf_mhead'', ''wpabuf_mhead_u8'', ''wpabuf_put_u8'', ''wpabuf_put_le16'',
           ''wpabuf_put_le32'', ''wpabuf_put_be16'', ''wpabuf_put_be24'', ''wpabuf_put_be32'',
           ''wpabuf_put_data'', ''wpabuf_put_buf'', ''wpabuf_set'', ''wpabuf_put_str''])"

section \<open>\<^verbatim>\<open>wpa_debug.h\<close>\<close>

text \<open>A build without debug output.\<close>

definition no_stdout_debug :: "directive list" where
  "no_stdout_debug =
     [hash_define ''wpa_debug_print_timestamp'' nothing,
      hash_define ''wpa_printf'' nothing,
      hash_define ''wpa_hexdump'' nothing,
      hash_define ''wpa_hexdump_buf'' nothing,
      hash_define ''wpa_hexdump_key'' nothing,
      hash_define ''wpa_hexdump_buf_key'' nothing,
      hash_define ''wpa_hexdump_ascii'' nothing,
      hash_define ''wpa_hexdump_ascii_key'' nothing,
      hash_define ''wpa_debug_open_file'' nothing,
      hash_define ''wpa_debug_close_file'' nothing,
      hash_define ''wpa_dbg'' nothing,
      c_static ''wpa_debug_reopen_file'']"

definition stdout_debug :: "directive list" where
  "stdout_debug =
     [c_proto ''wpa_debug_open_file'',
      c_proto ''wpa_debug_reopen_file'',
      c_proto ''wpa_debug_close_file'',
      c_proto ''wpa_debug_print_timestamp'',
      c_proto ''wpa_printf'',
      c_proto ''wpa_hexdump'',
      c_static ''wpa_hexdump_buf'',
      c_proto ''wpa_hexdump_key'',
      c_static ''wpa_hexdump_buf_key'',
      c_proto ''wpa_hexdump_ascii'',
      c_proto ''wpa_hexdump_ascii_key'',
      hash_define ''wpa_dbg'' ''wpa_msg'']"

definition no_wpa_msg :: "directive list" where
  "no_wpa_msg =
     [hash_define ''wpa_msg'' nothing,
      hash_define ''wpa_msg_ctrl'' nothing,
      hash_define ''wpa_msg_global'' nothing,
      hash_define ''wpa_msg_no_global'' nothing,
      hash_define ''wpa_msg_register_cb'' nothing,
      hash_define ''wpa_msg_register_ifname_cb'' nothing]"

definition wpa_msg_protos :: "directive list" where
  "wpa_msg_protos =
     [c_proto ''wpa_msg'',
      c_proto ''wpa_msg_ctrl'',
      c_proto ''wpa_msg_global'',
      c_proto ''wpa_msg_no_global'',
      c_proto ''wpa_msg_register_cb'',
      c_proto ''wpa_msg_register_ifname_cb'']"

definition logger :: "directive list" where
  "logger =
     [hash_ifdef ''CONFIG_NO_HOSTAPD_LOGGER''
        [hash_define ''hostapd_logger'' nothing,
         hash_define ''hostapd_logger_register_cb'' nothing]
        [c_proto ''hostapd_logger'',
         c_proto ''hostapd_logger_register_cb'']]"

definition syslog_and_tracing :: "directive list" where
  "syslog_and_tracing =
     [hash_ifdef ''CONFIG_DEBUG_SYSLOG''
        [c_proto ''wpa_debug_open_syslog'',
         c_proto ''wpa_debug_close_syslog'']
        [c_static ''wpa_debug_open_syslog'',
         c_static ''wpa_debug_close_syslog''],
      hash_ifdef ''CONFIG_DEBUG_LINUX_TRACING''
        [c_proto ''wpa_debug_open_linux_tracing'',
         c_proto ''wpa_debug_close_linux_tracing'']
        [c_static ''wpa_debug_open_linux_tracing'',
         c_static ''wpa_debug_close_linux_tracing'']]"

definition assertion_macro :: "directive list" where
  "assertion_macro =
     [hash_ifdef ''EAPOL_TEST''
        [hash_define ''WPA_ASSERT'' code]
        [hash_define ''WPA_ASSERT'' nothing]]"

definition wpa_debug_h :: directive where
  "wpa_debug_h =
     hash_ifndef ''WPA_DEBUG_H''
       ([hash_define ''WPA_DEBUG_H'' '''',
         wpabuf_h,
         hash_ifdef ''CONFIG_NO_STDOUT_DEBUG'' no_stdout_debug stdout_debug,
         hash_ifdef ''CONFIG_NO_WPA_MSG'' no_wpa_msg wpa_msg_protos] @
        logger @
        [hash_define ''HOSTAPD_MODULE_IEEE80211'' ''0x00000001'',
         hash_define ''HOSTAPD_MODULE_IEEE8021X'' ''0x00000002'',
         hash_define ''HOSTAPD_MODULE_RADIUS'' ''0x00000004'',
         hash_define ''HOSTAPD_MODULE_WPA'' ''0x00000008'',
         hash_define ''HOSTAPD_MODULE_DRIVER'' ''0x00000010'',
         hash_define ''HOSTAPD_MODULE_IAPP'' ''0x00000020'',
         hash_define ''HOSTAPD_MODULE_MLME'' ''0x00000040''] @
        syslog_and_tracing @
        assertion_macro)"

section \<open>What the replacements do\<close>

text \<open>The functions that stand in for files, the system log and the kernel's trace.\<close>

definition wpa_debug_reopen_file :: "'s \<Rightarrow> int \<times> 's" where
  "wpa_debug_reopen_file s = (0, s)"

definition wpa_debug_open_syslog :: "'s \<Rightarrow> 's" where
  "wpa_debug_open_syslog s = s"

definition wpa_debug_close_syslog :: "'s \<Rightarrow> 's" where
  "wpa_debug_close_syslog s = s"

definition wpa_debug_open_linux_tracing :: "'s \<Rightarrow> int \<times> 's" where
  "wpa_debug_open_linux_tracing s = (0, s)"

definition wpa_debug_close_linux_tracing :: "'s \<Rightarrow> 's" where
  "wpa_debug_close_linux_tracing s = s"

datatype hostapd_logger_level =
  HOSTAPD_LEVEL_DEBUG_VERBOSE | HOSTAPD_LEVEL_DEBUG | HOSTAPD_LEVEL_INFO | HOSTAPD_LEVEL_NOTICE
  | HOSTAPD_LEVEL_WARNING

fun logger_level :: "hostapd_logger_level \<Rightarrow> int" where
  "logger_level HOSTAPD_LEVEL_DEBUG_VERBOSE = 0"
| "logger_level HOSTAPD_LEVEL_DEBUG = 1"
| "logger_level HOSTAPD_LEVEL_INFO = 2"
| "logger_level HOSTAPD_LEVEL_NOTICE = 3"
| "logger_level HOSTAPD_LEVEL_WARNING = 4"

definition hostapd_modules :: "u32 list" where
  "hostapd_modules = [0x00000001, 0x00000002, 0x00000004, 0x00000008, 0x00000010, 0x00000020, 0x00000040]"

text \<open>
  The assertion: the condition is evaluated, with its effects, only in a build for the EAPOL test, where a
  false one prints its text and place on the standard output and exits with status 1.
\<close>

definition WPA_ASSERT ::
  "bool \<Rightarrow> string \<Rightarrow> string \<times> string \<times> int \<Rightarrow> ('s \<Rightarrow> bool \<times> 's) \<Rightarrow> 's \<times> string list \<Rightarrow>
   unit outcome \<times> 's \<times> string list" where
  "WPA_ASSERT eapol_test text place a so =
     (case so of (s, stdout) \<Rightarrow>
        (if eapol_test then
           (case a s of (holds, s1) \<Rightarrow>
              (if \<not> holds then
                 (case place of (func, file, line) \<Rightarrow>
                    (Exit 1 '''', s1, stdout @
                       [''WPA_ASSERT FAILED '' @ [CHR 0x27] @ text @ [CHR 0x27] @ '' '' @ func @ '' '' @ file
                        @ '':'' @ dec_int line @ [CHR 0x0A]]))
               else (Ret (), s1, stdout)))
         else (Ret (), s, stdout)))"

section \<open>Properties\<close>

text \<open>The levels of the logger are different numbers, and its modules are different single bits.\<close>

theorem logger_numbers:
  "(logger_level a = logger_level b \<longleftrightarrow> a = b) \<and>
   (\<forall>m \<in> set hostapd_modules. \<exists>k < 7. m = BIT k) \<and> distinct hostapd_modules"
proof (intro conjI)
  show "logger_level a = logger_level b \<longleftrightarrow> a = b" by (cases a; cases b) auto
  have bits: "hostapd_modules = map BIT [0..<7]" by (simp add: hostapd_modules_def BIT_def upt_rec)
  show "\<forall>m \<in> set hostapd_modules. \<exists>k < 7. m = BIT k"
    unfolding bits by (auto simp del: upt_Suc)
  show "distinct hostapd_modules" by (simp add: hostapd_modules_def)
qed

text \<open>
  An assertion that holds has no effect of its own in either build. When it does not hold, the build for
  the test exits with status 1, and any other goes on; and that other build also leaves out the effects of
  the condition.
\<close>

theorem assertion_in_either_build:
  assumes "a s = (holds, s1)"
  shows "fst (WPA_ASSERT test text place a (s, out)) =
      (if test \<and> \<not> holds then Exit 1 '''' else Ret ())"
    and "fst (snd (WPA_ASSERT test text place a (s, out))) = (if test then s1 else s)"
    and "snd (snd (WPA_ASSERT test text place a (s, out))) = out \<longleftrightarrow> \<not> test \<or> holds"
  using assms by (auto simp: WPA_ASSERT_def split: prod.splits)

text \<open>
  In a build without debug output every call of a printing function is removed, whatever else is defined;
  \<^verbatim>\<open>wpa_dbg\<close> otherwise stands for \<^verbatim>\<open>wpa_msg\<close>.
\<close>

abbreviation printing_functions :: "string list" where
  "printing_functions \<equiv>
     [''wpa_debug_print_timestamp'', ''wpa_printf'', ''wpa_hexdump'', ''wpa_hexdump_buf'', ''wpa_hexdump_key'',
      ''wpa_hexdump_buf_key'', ''wpa_hexdump_ascii'', ''wpa_hexdump_ascii_key'', ''wpa_debug_open_file'',
      ''wpa_debug_close_file'', ''wpa_dbg'']"

lemma no_stdout_lookup:
  "f \<in> set printing_functions \<Longrightarrow> lookup f (run no_stdout_debug s) = Some nothing"
  by (auto simp: no_stdout_debug_def run_simps lookup_define step_simps)

theorem debug_calls_vanish:
  assumes guard: "\<not> is_defined ''WPA_DEBUG_H'' s" and f: "f \<in> set printing_functions"
    and no: "is_defined ''CONFIG_NO_STDOUT_DEBUG'' s"
  shows "lookup f (wpa_debug_h s) = Some nothing"
proof -
  let ?t = "wpabuf_h (hash_define ''WPA_DEBUG_H'' '''' s)"
  obtain es where es: "wpa_debug_h = hash_ifndef ''WPA_DEBUG_H''
      ([hash_define ''WPA_DEBUG_H'' '''', wpabuf_h,
        hash_ifdef ''CONFIG_NO_STDOUT_DEBUG'' no_stdout_debug stdout_debug] @ es)"
    and keep: "list_all (keeps (lookup f)) es"
  proof
    let ?es = "[hash_ifdef ''CONFIG_NO_WPA_MSG'' no_wpa_msg wpa_msg_protos] @ logger @
        [hash_define ''HOSTAPD_MODULE_IEEE80211'' ''0x00000001'',
         hash_define ''HOSTAPD_MODULE_IEEE8021X'' ''0x00000002'',
         hash_define ''HOSTAPD_MODULE_RADIUS'' ''0x00000004'',
         hash_define ''HOSTAPD_MODULE_WPA'' ''0x00000008'',
         hash_define ''HOSTAPD_MODULE_DRIVER'' ''0x00000010'',
         hash_define ''HOSTAPD_MODULE_IAPP'' ''0x00000020'',
         hash_define ''HOSTAPD_MODULE_MLME'' ''0x00000040''] @ syslog_and_tracing @ assertion_macro"
    show "wpa_debug_h = hash_ifndef ''WPA_DEBUG_H''
      ([hash_define ''WPA_DEBUG_H'' '''', wpabuf_h,
        hash_ifdef ''CONFIG_NO_STDOUT_DEBUG'' no_stdout_debug stdout_debug] @ ?es)"
      by (simp add: wpa_debug_h_def)
    show "list_all (keeps (lookup f)) ?es"
      using f by (auto simp: no_wpa_msg_def wpa_msg_protos_def logger_def syslog_and_tracing_def
          assertion_macro_def frame_simps)
  qed
  have "keeps (lookup ''CONFIG_NO_STDOUT_DEBUG'') wpabuf_h"
    by (simp add: wpabuf_h_def wpabuf_protos_def frame_simps)
  then have "is_defined ''CONFIG_NO_STDOUT_DEBUG'' ?t"
    using no by (simp add: is_defined_def keepsD lookup_define)
  then have "lookup f (run ([hash_define ''WPA_DEBUG_H'' '''', wpabuf_h,
      hash_ifdef ''CONFIG_NO_STDOUT_DEBUG'' no_stdout_debug stdout_debug] @ es) s) = Some nothing"
    using no_stdout_lookup [OF f] by (simp add: run_simps run_frame keep conditional_known)
  then show ?thesis unfolding es using guard by (simp add: conditional_known)
qed

end
