(* ===== verification/Build.thy ===== *)
theory Build
  imports Common_H Debug
begin

text \<open>
  The three C files as the preprocessor leaves them, for the macros a build gives on its command line:
  which control connection is compiled, which functions each object file defines, and what the
  \<^verbatim>\<open>os_\<close> names and the byte swapping macros stand for. \<^verbatim>\<open>src/Makefile\<close> gives \<^verbatim>\<open>CONFIG_CTRL_IFACE\<close> and
  \<^verbatim>\<open>CONFIG_CTRL_IFACE_UNIX\<close>.
\<close>

section \<open>The headers as a whole\<close>



section \<open>\<^verbatim>\<open>wpa_ctrl.c\<close>\<close>


text \<open>The members of \<^verbatim>\<open>struct wpa_ctrl\<close>.\<close>

definition wpa_ctrl_struct :: "directive list" where
  "wpa_ctrl_struct =
     [hash_ifdef ''CONFIG_CTRL_IFACE_UDP''
        [c_member ''s'',
         c_member ''local'',
         c_member ''dest'',
         c_member ''cookie'',
         c_member ''remote_ifname'',
         c_member ''remote_ip''] [],
      hash_ifdef ''CONFIG_CTRL_IFACE_UNIX''
        [c_member ''s'',
         c_member ''local'',
         c_member ''dest''] [],
      hash_ifdef ''CONFIG_CTRL_IFACE_NAMED_PIPE''
        [c_member ''pipe''] []]"



section \<open>\<^verbatim>\<open>os_unix.c\<close>\<close>




section \<open>\<^verbatim>\<open>wpa_ex.c\<close>\<close>





section \<open>Frames of the headers\<close>












section \<open>One connection\<close>





















section \<open>Properties of the build\<close>



text \<open>
  The structure of a connection, too, is only well-formed without two kinds of socket at once: both call their
  descriptor and their addresses the same.
\<close>

theorem struct_members_distinct:
  assumes "members s = []"
  shows "distinct (members (run wpa_ctrl_struct s)) \<longleftrightarrow>
    \<not> (is_defined ''CONFIG_CTRL_IFACE_UDP'' s \<and> is_defined ''CONFIG_CTRL_IFACE_UNIX'' s)"
  using assms
  by (cases "is_defined ''CONFIG_CTRL_IFACE_UDP'' s"; cases "is_defined ''CONFIG_CTRL_IFACE_UNIX'' s";
      cases "is_defined ''CONFIG_CTRL_IFACE_NAMED_PIPE'' s")
    (simp_all add: wpa_ctrl_struct_def run_simps conditional_cases is_defined_def step_simps)




end
