(* ===== verification/Names.thy ===== *)
theory Names
  imports Headers
begin

text \<open>
  What the \<^verbatim>\<open>os_\<close> wrappers of \<^verbatim>\<open>os.h\<close> stand for in a build.
\<close>

section \<open>The wrappers\<close>

text \<open>The functions of the C library behind the wrappers; some have other names in Microsoft's.\<close>

definition heap_wrappers :: "string list" where
  "heap_wrappers = [''os_malloc'', ''os_realloc'', ''os_free'', ''os_strdup'']"

definition plain_wrappers :: "(string \<times> string) list" where
  "plain_wrappers =
     [(''os_memcpy'', ''memcpy''), (''os_memmove'', ''memmove''), (''os_memset'', ''memset''),
      (''os_memcmp'', ''memcmp''), (''os_strlen'', ''strlen''), (''os_strchr'', ''strchr''),
      (''os_strcmp'', ''strcmp''), (''os_strncmp'', ''strncmp''), (''os_strrchr'', ''strrchr''),
      (''os_strstr'', ''strstr'')]"

definition wrapped_names :: "bool \<Rightarrow> (string \<times> string) list" where
  "wrapped_names msc =
     [(''os_malloc'', ''malloc''), (''os_realloc'', ''realloc''), (''os_free'', ''free''),
      (''os_strdup'', if msc then ''_strdup'' else ''strdup''),
      (''os_strcasecmp'', if msc then ''_stricmp'' else ''strcasecmp''),
      (''os_strncasecmp'', if msc then ''_strnicmp'' else ''strncasecmp''),
      (''os_snprintf'', if msc then ''_snprintf'' else ''snprintf'')] @ plain_wrappers"

lemmas wrapper_simps = os_c_lib_defines_def frame_simps

lemma plain_wrapper_lookup:
  "lookup ''os_memcpy'' (run os_c_lib_defines s) =
     Some (case lookup ''os_memcpy'' s of None \<Rightarrow> ''memcpy'' | Some v \<Rightarrow> v)"
  "lookup ''os_memmove'' (run os_c_lib_defines s) =
     Some (case lookup ''os_memmove'' s of None \<Rightarrow> ''memmove'' | Some v \<Rightarrow> v)"
  "lookup ''os_memset'' (run os_c_lib_defines s) =
     Some (case lookup ''os_memset'' s of None \<Rightarrow> ''memset'' | Some v \<Rightarrow> v)"
  "lookup ''os_memcmp'' (run os_c_lib_defines s) =
     Some (case lookup ''os_memcmp'' s of None \<Rightarrow> ''memcmp'' | Some v \<Rightarrow> v)"
  "lookup ''os_strlen'' (run os_c_lib_defines s) =
     Some (case lookup ''os_strlen'' s of None \<Rightarrow> ''strlen'' | Some v \<Rightarrow> v)"
  "lookup ''os_strchr'' (run os_c_lib_defines s) =
     Some (case lookup ''os_strchr'' s of None \<Rightarrow> ''strchr'' | Some v \<Rightarrow> v)"
  "lookup ''os_strcmp'' (run os_c_lib_defines s) =
     Some (case lookup ''os_strcmp'' s of None \<Rightarrow> ''strcmp'' | Some v \<Rightarrow> v)"
  "lookup ''os_strncmp'' (run os_c_lib_defines s) =
     Some (case lookup ''os_strncmp'' s of None \<Rightarrow> ''strncmp'' | Some v \<Rightarrow> v)"
  "lookup ''os_strrchr'' (run os_c_lib_defines s) =
     Some (case lookup ''os_strrchr'' s of None \<Rightarrow> ''strrchr'' | Some v \<Rightarrow> v)"
  "lookup ''os_strstr'' (run os_c_lib_defines s) =
     Some (case lookup ''os_strstr'' s of None \<Rightarrow> ''strstr'' | Some v \<Rightarrow> v)"
  by (rule wrapper_default [of 1 _ "''os_memcpy''"]
      wrapper_default [of 2 _ "''os_memmove''"]
      wrapper_default [of 3 _ "''os_memset''"]
      wrapper_default [of 4 _ "''os_memcmp''"]
      wrapper_default [of 5 _ "''os_strlen''"]
      wrapper_default [of 8 _ "''os_strchr''"]
      wrapper_default [of 9 _ "''os_strcmp''"]
      wrapper_default [of 10 _ "''os_strncmp''"]
      wrapper_default [of 11 _ "''os_strrchr''"]
      wrapper_default [of 12 _ "''os_strstr''"];
      simp add: wrapper_simps; fail)+

lemma choice_wrapper_lookup:
  "lookup ''os_strcasecmp'' (run os_c_lib_defines s) =
     Some (case lookup ''os_strcasecmp'' s of
         None \<Rightarrow> if is_defined ''_MSC_VER'' s then ''_stricmp'' else ''strcasecmp'' | Some v \<Rightarrow> v)"
  "lookup ''os_strncasecmp'' (run os_c_lib_defines s) =
     Some (case lookup ''os_strncasecmp'' s of
         None \<Rightarrow> if is_defined ''_MSC_VER'' s then ''_strnicmp'' else ''strncasecmp'' | Some v \<Rightarrow> v)"
  "lookup ''os_snprintf'' (run os_c_lib_defines s) =
     Some (case lookup ''os_snprintf'' s of
         None \<Rightarrow> if is_defined ''_MSC_VER'' s then ''_snprintf'' else ''snprintf'' | Some v \<Rightarrow> v)"
  by (rule wrapper_choice [of 6 _ "''os_strcasecmp''"]
      wrapper_choice [of 7 _ "''os_strncasecmp''"]
      wrapper_choice [of 13 _ "''os_snprintf''"];
      simp add: wrapper_simps; fail)+

lemma heap_wrapper_lookup:
  assumes "f \<in> set heap_wrappers"
  shows "lookup f (run os_c_lib_defines s) =
    (case lookup f s of Some v \<Rightarrow> Some v
     | None \<Rightarrow> if is_defined ''WPA_TRACE'' s then None
         else map_of (wrapped_names (is_defined ''_MSC_VER'' s)) f)"
proof -
  have rest: "list_all (keeps (lookup f)) (drop 1 os_c_lib_defines)"
    using assms by (auto simp: heap_wrappers_def wrapper_simps)
  have "lookup f (run os_c_lib_defines s) = lookup f ((os_c_lib_defines ! 0) s)"
    using rest run_at [of 0 os_c_lib_defines "lookup f" s] by (simp add: os_c_lib_defines_def run_simps)
  also have "\<dots> = (case lookup f s of Some v \<Rightarrow> Some v
     | None \<Rightarrow> if is_defined ''WPA_TRACE'' s then None
         else map_of (wrapped_names (is_defined ''_MSC_VER'' s)) f)"
  proof (cases "is_defined ''WPA_TRACE'' s")
    case True
    then show ?thesis
      by (simp add: os_c_lib_defines_def conditional_known run_simps step_simps split: option.splits)
  next
    case False
    then show ?thesis using assms
      by (auto simp: os_c_lib_defines_def heap_wrappers_def wrapped_names_def conditional_cases run_simps
          is_defined_def lookup_define split: option.splits)
  qed
  finally show ?thesis .
qed

text \<open>
  What is needed of the tables is computed once: a wrapper is listed once, and the names it stands for are
  no names of macros of \<^verbatim>\<open>os.h\<close> unless they are rejected.
\<close>

definition rejected_names :: "string list" where
  "rejected_names =
     [''malloc'', ''realloc'', ''free'', ''memcpy'', ''memmove'', ''memset'', ''memcmp'', ''strdup'',
      ''strlen'', ''strcasecmp'', ''strncasecmp'', ''strchr'', ''strcmp'', ''strncmp'', ''strncpy'',
      ''strrchr'', ''strstr'', ''snprintf'', ''strcpy'']"

definition do_not_use :: "string \<Rightarrow> string" where
  "do_not_use c = ''OS_DO_NOT_USE_'' @ c"

definition table_ok :: "bool \<Rightarrow> bool" where
  "table_ok msc \<longleftrightarrow>
     list_all (\<lambda>(f, c). map_of (wrapped_names msc) f = Some c \<and> f \<notin> set rejected_names \<and>
         c \<notin> set (map fst (wrapped_names False)) \<and> do_not_use c \<notin> set (map fst (wrapped_names False)) \<and>
         do_not_use c \<notin> set rejected_names \<and> distinct [f, c, do_not_use c, ''OS_H''])
       (wrapped_names msc)"

lemma table_ok: "table_ok msc"
proof -
  have "table_ok True" "table_ok False" by code_simp+
  then show ?thesis by (cases msc) simp_all
qed

lemma c_lib_keeps: "x \<notin> set (map fst (wrapped_names False)) \<Longrightarrow> list_all (keeps (lookup x)) os_c_lib_defines"
  by (simp add: wrapped_names_def plain_wrappers_def wrapper_simps)

lemma reject_keeps: "x \<notin> set rejected_names \<Longrightarrow> list_all (keeps (lookup x)) os_reject_c_lib"
  by (simp add: rejected_names_def os_reject_c_lib_def frame_simps)

lemma reject_lookup:
  assumes "c \<in> set rejected_names"
  shows "lookup c (run os_reject_c_lib s) = Some (do_not_use c)"
proof -
  have "lookup x (run os_reject_c_lib s) = fold (\<lambda>y r. if x = y then Some (do_not_use y) else r) rejected_names (lookup x s)" for x
    by (simp add: os_reject_c_lib_def rejected_names_def do_not_use_def run_simps lookup_define lookup_undef)
  then have all: "lookup c (run os_reject_c_lib s) = fold (\<lambda>y r. if c = y then Some (do_not_use y) else r) rejected_names (lookup c s)" .
  have "c \<in> set ys \<Longrightarrow> fold (\<lambda>y r. if c = y then Some (do_not_use y) else r) ys r = Some (do_not_use c)" for ys r
  proof (induction ys arbitrary: r)
    case (Cons y ys)
    show ?case
    proof (cases "c \<in> set ys")
      case False
      then have "fold (\<lambda>y r. if c = y then Some (do_not_use y) else r) ys q = q" for q
        by (induction ys arbitrary: q) auto
      with False Cons.prems show ?thesis by simp
    qed (use Cons.IH in simp)
  qed simp
  with all assms show ?thesis by simp
qed
lemma wrapper_lookup:
  assumes f: "(f, c) \<in> set (wrapped_names (is_defined ''_MSC_VER'' s))" and "lookup f s = None"
  shows "lookup f (run os_c_lib_defines s) =
    (if is_defined ''WPA_TRACE'' s \<and> f \<in> set heap_wrappers then None else Some c)"
proof -
  have c: "map_of (wrapped_names (is_defined ''_MSC_VER'' s)) f = Some c"
    using table_ok [of "is_defined ''_MSC_VER'' s"] f by (auto simp: table_ok_def list_all_iff)
  show ?thesis
  proof (cases "f \<in> set heap_wrappers")
    case True
    then show ?thesis using heap_wrapper_lookup [OF True, of s] c assms(2) by simp
  next
    case False
    have "lookup f (run os_c_lib_defines s) = Some (the (map_of (wrapped_names (is_defined ''_MSC_VER'' s)) f))"
      if "f \<in> fst ` set (drop 4 (wrapped_names (is_defined ''_MSC_VER'' s)))"
      using that assms(2) unfolding wrapped_names_def plain_wrappers_def
      by (simp, elim disjE) (simp_all add: plain_wrapper_lookup choice_wrapper_lookup)
    moreover have "f \<in> fst ` set (drop 4 (wrapped_names (is_defined ''_MSC_VER'' s)))"
    proof -
      have "f \<in> fst ` set (wrapped_names (is_defined ''_MSC_VER'' s))" using f by force
      then show ?thesis using False by (auto simp: wrapped_names_def heap_wrappers_def)
    qed
    ultimately show ?thesis using c False by simp
  qed
qed

text \<open>
  \<^verbatim>\<open>os.h\<close> as a whole: what comes before and between its two blocks does not touch any name but its guard.
\<close>

lemma os_h_split:
  assumes "\<not> is_defined ''OS_H'' s"
  obtains t where "\<And>x. x \<noteq> ''OS_H'' \<Longrightarrow> lookup x t = lookup x s"
    and "\<And>x. lookup x (os_h s) = lookup x (hash_ifdef ''OS_REJECT_C_LIB_FUNCTIONS'' os_reject_c_lib []
        (run [c_static ''os_realloc_array'', c_proto ''os_strlcpy'']
          (hash_ifdef ''OS_NO_C_LIB_DEFINES'' os_wrapper_protos os_c_lib_defines t)))"
proof -
  obtain ds where ds: "os_h = hash_ifndef ''OS_H''
      (ds @ [hash_ifdef ''OS_NO_C_LIB_DEFINES'' os_wrapper_protos os_c_lib_defines,
             c_static ''os_realloc_array'', c_proto ''os_strlcpy'',
             hash_ifdef ''OS_REJECT_C_LIB_FUNCTIONS'' os_reject_c_lib []])"
    and keep: "\<And>x. x \<noteq> ''OS_H'' \<Longrightarrow> list_all (keeps (lookup x)) ds"
  proof
    let ?ds = "[hash_define ''OS_H'' '''', c_typedef ''long'' ''os_time_t''] @
      map c_proto [''os_sleep'', ''os_get_time'', ''os_get_reltime''] @
      map c_static [''os_time_before'', ''os_time_sub'', ''os_reltime_before'', ''os_reltime_sub'',
        ''os_reltime_age'', ''os_reltime_expired'', ''os_reltime_initialized''] @
      map c_proto [''os_mktime'', ''os_gmtime'', ''os_daemonize'', ''os_daemonize_terminate'',
        ''os_get_random'', ''os_random'', ''os_rel2abs_path'', ''os_program_init'', ''os_program_deinit'',
        ''os_setenv'', ''os_unsetenv'', ''os_readfile'', ''os_zalloc''] @ [c_static ''os_calloc'']"
    show "os_h = hash_ifndef ''OS_H''
      (?ds @ [hash_ifdef ''OS_NO_C_LIB_DEFINES'' os_wrapper_protos os_c_lib_defines,
             c_static ''os_realloc_array'', c_proto ''os_strlcpy'',
             hash_ifdef ''OS_REJECT_C_LIB_FUNCTIONS'' os_reject_c_lib []])"
      by (simp add: os_h_def)
    show "x \<noteq> ''OS_H'' \<Longrightarrow> list_all (keeps (lookup x)) ?ds" for x by (simp add: frame_simps)
  qed
  show thesis
    by (rule that [of "run ds s"])
      (simp_all add: run_frame keep ds conditional_known assms run_append run_simps)
qed

text \<open>
  C39: a wrapper of \<^verbatim>\<open>os.h\<close> that the system has not defined itself stands for the function of the C library it
  is named after, or for Microsoft's name of it, except where the build supplies the function: all of
  them under \<^verbatim>\<open>OS_NO_C_LIB_DEFINES\<close>, those of the heap under \<^verbatim>\<open>WPA_TRACE\<close>. Rejecting the functions of
  the C library therefore also takes away the wrappers that stand for them.
\<close>

theorem os_names_resolve:
  assumes guard: "\<not> is_defined ''OS_H'' s" and f: "(f, c) \<in> set (wrapped_names (is_defined ''_MSC_VER'' s))"
    and free: "\<not> is_defined f s" "\<not> is_defined c s" "\<not> is_defined (do_not_use c) s"
  shows "expand (macros (os_h s)) f =
    (if is_defined ''OS_NO_C_LIB_DEFINES'' s \<or> is_defined ''WPA_TRACE'' s \<and> f \<in> set heap_wrappers then f
     else if is_defined ''OS_REJECT_C_LIB_FUNCTIONS'' s \<and> c \<in> set rejected_names then do_not_use c
     else c)"
proof -
  obtain t where t: "\<And>x. x \<noteq> ''OS_H'' \<Longrightarrow> lookup x t = lookup x s"
    and os: "\<And>x. lookup x (os_h s) = lookup x (hash_ifdef ''OS_REJECT_C_LIB_FUNCTIONS'' os_reject_c_lib []
        (run [c_static ''os_realloc_array'', c_proto ''os_strlcpy'']
          (hash_ifdef ''OS_NO_C_LIB_DEFINES'' os_wrapper_protos os_c_lib_defines t)))"
    using os_h_split [OF guard] by blast
  let ?msc = "is_defined ''_MSC_VER'' s" and ?u = "hash_ifdef ''OS_NO_C_LIB_DEFINES'' os_wrapper_protos os_c_lib_defines t"
  have tab: "f \<notin> set rejected_names" "c \<notin> set (map fst (wrapped_names False))"
      "do_not_use c \<notin> set (map fst (wrapped_names False))" "do_not_use c \<notin> set rejected_names"
      "distinct [f, c, do_not_use c, ''OS_H'']"
    using table_ok [of ?msc] f unfolding table_ok_def list_all_iff by blast+
  have mid: "lookup x (run [c_static ''os_realloc_array'', c_proto ''os_strlcpy''] v) = lookup x v" for x v
    by (simp add: run_simps step_simps)
  have pass: "lookup x ?u = lookup x s" if "x \<notin> set (map fst (wrapped_names False))" "x \<noteq> ''OS_H''" for x
    using c_lib_keeps [OF that(1)] t [OF that(2)]
    by (simp add: conditional_frames os_wrapper_protos_def frame_simps)
  have cfg: "is_defined x t = is_defined x s" if "x \<noteq> ''OS_H''" for x using t [OF that] by (simp add: is_defined_def)
  have none: "lookup f t = None" using t [of f] tab(5) free(1) by (simp add: is_defined_def)
  have fu: "lookup f ?u = (if is_defined ''OS_NO_C_LIB_DEFINES'' s \<or>
      is_defined ''WPA_TRACE'' s \<and> f \<in> set heap_wrappers then None else Some c)"
  proof (cases "is_defined ''OS_NO_C_LIB_DEFINES'' s")
    case True
    have "list_all (keeps (lookup f)) os_wrapper_protos" by (simp add: os_wrapper_protos_def frame_simps)
    moreover have "is_defined ''OS_NO_C_LIB_DEFINES'' t" using True cfg by simp
    ultimately show ?thesis using True none by (simp add: conditional_known run_frame)
  next
    case False
    have "(f, c) \<in> set (wrapped_names (is_defined ''_MSC_VER'' t))" using f cfg by simp
    from wrapper_lookup [OF this none] have "lookup f (run os_c_lib_defines t) =
        (if is_defined ''WPA_TRACE'' s \<and> f \<in> set heap_wrappers then None else Some c)" using cfg by simp
    moreover have "\<not> is_defined ''OS_NO_C_LIB_DEFINES'' t" using False cfg by simp
    ultimately show ?thesis using False by (simp add: conditional_known)
  qed
  let ?v = "run [c_static ''os_realloc_array'', c_proto ''os_strlcpy''] ?u"
  have rej: "is_defined ''OS_REJECT_C_LIB_FUNCTIONS'' ?v = is_defined ''OS_REJECT_C_LIB_FUNCTIONS'' s"
    using pass [of "''OS_REJECT_C_LIB_FUNCTIONS''"] mid
    by (simp add: is_defined_def wrapped_names_def plain_wrappers_def)
  have fo: "lookup f (os_h s) = lookup f ?u"
    using reject_keeps [OF tab(1)] by (simp add: os conditional_frames mid)
  have cu: "lookup c ?v = None" using pass [OF tab(2)] tab(5) free(2) mid by (simp add: is_defined_def)
  have co: "lookup c (os_h s) =
      (if is_defined ''OS_REJECT_C_LIB_FUNCTIONS'' s \<and> c \<in> set rejected_names then Some (do_not_use c) else None)"
  proof (cases "is_defined ''OS_REJECT_C_LIB_FUNCTIONS'' s")
    case True
    then have "lookup c (os_h s) = lookup c (run os_reject_c_lib ?v)" using rej by (simp add: os conditional_known)
    then show ?thesis using True reject_lookup [of c ?v] reject_keeps [of c] run_frame [of "lookup c" os_reject_c_lib ?v] cu
      by auto
  qed (use rej cu in \<open>simp add: os conditional_known run_simps\<close>)
  have "lookup (do_not_use c) (os_h s) = None"
    using reject_keeps [OF tab(4)] pass [OF tab(3)] tab(5) free(3) by (simp add: os conditional_frames mid is_defined_def)
  then show ?thesis using fo fu co tab(5)
    by (auto simp: lookup_def expand_None expand_once expand_twice)
qed
theorem os_names_resolve_witness:
  "expand (macros (os_h (start []))) ''os_free'' = ''free'' \<and>
   expand (macros (os_h (start [(''WPA_TRACE'', ''1'')]))) ''os_free'' = ''os_free'' \<and>
   expand (macros (os_h (start [(''OS_REJECT_C_LIB_FUNCTIONS'', ''1'')]))) ''os_free'' = ''OS_DO_NOT_USE_free''"
proof -
  have tab: "(''os_free'', ''free'') \<in> set (wrapped_names msc)" for msc by (simp add: wrapped_names_def)
  have heap: "''os_free'' \<in> set heap_wrappers" "''free'' \<in> set rejected_names" "do_not_use ''free'' = ''OS_DO_NOT_USE_free''"
    by (simp_all add: heap_wrappers_def rejected_names_def do_not_use_def)
  show ?thesis
    using os_names_resolve [OF _ tab, of "start []"] os_names_resolve [OF _ tab, of "start [(''WPA_TRACE'', ''1'')]"]
      os_names_resolve [OF _ tab, of "start [(''OS_REJECT_C_LIB_FUNCTIONS'', ''1'')]"] heap
    by (simp add: is_defined_def lookup_def start_def)
qed

end
