(* ===== verification/Platform.thy ===== *)
theory Platform
  imports Common_H
begin

text \<open>
  What \<^verbatim>\<open>common.h\<close> makes of a platform: the byte order its macros are for, what the macros mean, and the
  integer types.
\<close>

section \<open>The byte order that is chosen\<close>

text \<open>
  The order the macros are for, \<open>None\<close> where the build stops. Windows is taken to be
  little-endian; elsewhere the two comparisons decide.
\<close>

definition windows :: "pp \<Rightarrow> bool" where
  "windows s \<longleftrightarrow> is_defined ''__CYGWIN__'' s \<or> is_defined ''CONFIG_NATIVE_WINDOWS'' s"

definition chosen_order :: "pp \<Rightarrow> byte_order option" where
  "chosen_order s =
     (if windows s then Some LITTLE_ENDIAN
      else let t = run byte_order_fallback s
           in if value_of ''__BYTE_ORDER'' t = value_of ''__LITTLE_ENDIAN'' t then Some LITTLE_ENDIAN
              else if value_of ''__BYTE_ORDER'' t = value_of ''__BIG_ENDIAN'' t then Some BIG_ENDIAN
              else None)"

text \<open>
  What a body of such a macro computes. On a system with swaps of its own, \<^verbatim>\<open>bswap_16\<close> and its
  kin are these.
\<close>

definition swap16 :: "string \<Rightarrow> u16 \<Rightarrow> u16" where
  "swap16 body n = (if body = ''bswap_16'' then bswap_16 n else if body = ''wpa_swap_16'' then wpa_swap_16 n else n)"

definition swap32 :: "string \<Rightarrow> u32 \<Rightarrow> u32" where
  "swap32 body n = (if body = ''bswap_32'' then bswap_32 n else if body = ''wpa_swap_32'' then wpa_swap_32 n else n)"

definition swap64 :: "string \<Rightarrow> u64 \<Rightarrow> u64" where
  "swap64 body n = (if body = ''bswap_64'' then bswap_64 n else n)"

definition macro16 :: "string \<Rightarrow> pp \<Rightarrow> u16 \<Rightarrow> u16 option" where
  "macro16 x s n = map_option (\<lambda>body. swap16 body n) (lookup x s)"

definition macro32 :: "string \<Rightarrow> pp \<Rightarrow> u32 \<Rightarrow> u32 option" where
  "macro32 x s n = map_option (\<lambda>body. swap32 body n) (lookup x s)"

definition macro64 :: "string \<Rightarrow> pp \<Rightarrow> u64 \<Rightarrow> u64 option" where
  "macro64 x s n = map_option (\<lambda>body. swap64 body n) (lookup x s)"

text \<open>The macros of a byte order, as far as every build has them, and those the Windows block leaves out.\<close>

definition common_macros :: "byte_order \<Rightarrow> pp \<Rightarrow> u16 \<Rightarrow> u32 \<Rightarrow> bool" where
  "common_macros bo s n m \<longleftrightarrow>
     macro16 ''host_to_be16'' s n = Some (host_to_be16 bo n) \<and>
     macro16 ''be_to_host16'' s n = Some (be_to_host16 bo n) \<and>
     macro16 ''host_to_le16'' s n = Some (host_to_le16 bo n) \<and>
     macro16 ''le_to_host16'' s n = Some (le_to_host16 bo n) \<and>
     macro32 ''host_to_be32'' s m = Some (host_to_be32 bo m) \<and>
     macro32 ''be_to_host32'' s m = Some (be_to_host32 bo m) \<and>
     macro32 ''le_to_host32'' s m = Some (le_to_host32 bo m)"

definition other_macros :: "byte_order \<Rightarrow> pp \<Rightarrow> u32 \<Rightarrow> u64 \<Rightarrow> bool" where
  "other_macros bo s m k \<longleftrightarrow>
     macro32 ''host_to_le32'' s m = Some (host_to_le32 bo m) \<and>
     macro64 ''host_to_be64'' s k = Some (host_to_be64 bo k) \<and>
     macro64 ''be_to_host64'' s k = Some (be_to_host64 bo k) \<and>
     macro64 ''host_to_le64'' s k = Some (host_to_le64 bo k) \<and>
     macro64 ''le_to_host64'' s k = Some (le_to_host64 bo k)"

lemmas macro_meanings = macro16_def macro32_def macro64_def swap16_def swap32_def swap64_def
  wpa_swap_eq host_to_be16_def be_to_host16_def host_to_le16_def le_to_host16_def host_to_be32_def
  be_to_host32_def host_to_le32_def le_to_host32_def host_to_be64_def be_to_host64_def
  host_to_le64_def le_to_host64_def

lemma macros_of_blocks:
  "common_macros LITTLE_ENDIAN (run little_endian_macros s) n m"
  "other_macros LITTLE_ENDIAN (run little_endian_macros s) m k"
  "common_macros BIG_ENDIAN (run big_endian_macros s) n m"
  "other_macros BIG_ENDIAN (run big_endian_macros s) m k"
  "common_macros LITTLE_ENDIAN (run windows_macros s) n m"
  by (simp_all add: common_macros_def other_macros_def little_endian_macros_def big_endian_macros_def
      windows_macros_def run_simps lookup_define step_simps macro_meanings)

text \<open>What follows a block changes neither a macro nor whether the build has stopped.\<close>

lemma macros_kept:
  assumes "\<And>x. x \<noteq> ''WPA_BYTE_SWAP_DEFINED'' \<Longrightarrow> lookup x s = lookup x t"
  shows "common_macros bo s n m = common_macros bo t n m" "other_macros bo s m k = other_macros bo t m k"
  by (simp_all add: common_macros_def other_macros_def macro16_def macro32_def macro64_def assms)


text \<open>The two ways through \<^verbatim>\<open>byte_swap_macros\<close>.\<close>

lemma windows_way:
  assumes "windows s"
  shows "run byte_swap_macros s = run windows_macros s"
proof -
  have "is_defined ''WPA_BYTE_SWAP_DEFINED'' (run windows_macros s)"
    by (simp add: windows_macros_def run_simps is_defined_def lookup_define)
  then show ?thesis using assms by (simp add: byte_swap_macros_def windows_def conditional_cases run_simps)
qed

lemma other_way:
  assumes "\<not> windows s" and "\<not> is_defined ''WPA_BYTE_SWAP_DEFINED'' s"
  shows "run byte_swap_macros s = hash_define ''WPA_BYTE_SWAP_DEFINED'' ''''
    (case chosen_order s of
       None \<Rightarrow> hash_error ''Could not determine CPU byte order'' (run byte_order_fallback s)
     | Some LITTLE_ENDIAN \<Rightarrow> run little_endian_macros (run byte_order_fallback s)
     | Some BIG_ENDIAN \<Rightarrow> run big_endian_macros (run byte_order_fallback s))"
  using assms
  by (simp add: byte_swap_macros_def chosen_order_def windows_def conditional_cases run_simps run_append Let_def)

section \<open>Properties\<close>



definition swapped :: "pp \<Rightarrow> pp" where
  "swapped s = run byte_swap_macros s"



lemma numbers:
  "expand (macros s) x = ''1234'' \<Longrightarrow> value_of x s = 1234"
  "expand (macros s) x = ''4321'' \<Longrightarrow> value_of x s = 4321"
  "\<not> list_all (\<lambda>c. c \<in> set ''0123456789'') (expand (macros s) x) \<Longrightarrow> value_of x s = 0"
  by (simp_all add: value_of_def undec_def)




text \<open>
  On the BSD systems and on Apple's, the three macros are defined through others. If the headers there do
  not define these, all three count as zero, and the build goes on as for a little-endian machine instead of
  stopping.
\<close>

theorem undefined_order_is_little:
  assumes bsd: "is_defined ''__APPLE__'' s \<or> is_defined ''__FreeBSD__'' s"
    and no: "\<not> is_defined ''CONFIG_TI_COMPILER'' s" "\<not> windows s"
    and free: "\<not> is_defined ''_BYTE_ORDER'' s" "\<not> is_defined ''_LITTLE_ENDIAN'' s"
    and sys: "list_all (sys_keeps sys) [''_BYTE_ORDER'', ''_LITTLE_ENDIAN'', ''__APPLE__'', ''__FreeBSD__'',
      ''CONFIG_TI_COMPILER'', ''__CYGWIN__'', ''CONFIG_NATIVE_WINDOWS'']"
  shows "chosen_order (run (byte_order_sources sys) s) = Some LITTLE_ENDIAN"
proof -
  define a where "a = take 1 (byte_order_sources sys)"
  define b where "b = byte_order_sources sys ! 1"
  define c where "c = byte_order_sources sys ! 2"
  define e where "e = drop 3 (byte_order_sources sys)"
  note blocks = a_def b_def c_def e_def byte_order_sources_def frame_simps
  let ?s1 = "run a s" and ?s2 = "b (run a s)" and ?s3 = "c (b (run a s))"
  have all: "byte_order_sources sys = a @ b # c # e" by (simp add: blocks)
  have keep: "list_all (keeps (lookup x)) a \<and> keeps (lookup x) b \<and> keeps (lookup x) c"
    if "x \<in> {''_BYTE_ORDER'', ''_LITTLE_ENDIAN'', ''__APPLE__'', ''__FreeBSD__'', ''CONFIG_TI_COMPILER'',
      ''__CYGWIN__'', ''CONFIG_NATIVE_WINDOWS''}" for x
    using that sys by (elim insertE) (simp_all add: blocks)
  have same: "is_defined x ?s1 = is_defined x s" "is_defined x ?s2 = is_defined x s" "is_defined x ?s3 = is_defined x s"
    if "x \<in> {''_BYTE_ORDER'', ''_LITTLE_ENDIAN'', ''__APPLE__'', ''__FreeBSD__'', ''CONFIG_TI_COMPILER'',
      ''__CYGWIN__'', ''CONFIG_NATIVE_WINDOWS''}" for x
    using keep [OF that] by (simp_all add: is_defined_def run_frame keepsD)
  have defs: "lookup ''__BYTE_ORDER'' ?s3 = Some ''_BYTE_ORDER''" "lookup ''__LITTLE_ENDIAN'' ?s3 = Some ''_LITTLE_ENDIAN''"
  proof -
    have apple: "lookup ''__BYTE_ORDER'' (c t) = Some ''_BYTE_ORDER'' \<and>
        lookup ''__LITTLE_ENDIAN'' (c t) = Some ''_LITTLE_ENDIAN''" if "is_defined ''__APPLE__'' t" for t
      using that by (simp add: c_def byte_order_sources_def conditional_known run_simps lookup_define step_simps)
    have skip: "c t = t" if "\<not> is_defined ''__APPLE__'' t" for t
      using that by (simp add: c_def byte_order_sources_def conditional_known run_simps)
    have free: "lookup ''__BYTE_ORDER'' (b t) = Some ''_BYTE_ORDER'' \<and>
        lookup ''__LITTLE_ENDIAN'' (b t) = Some ''_LITTLE_ENDIAN''" if "is_defined ''__FreeBSD__'' t" for t
      using that by (simp add: b_def byte_order_sources_def conditional_cases(1) run_simps lookup_define
          conditional_frames frame_simps)
    show "lookup ''__BYTE_ORDER'' ?s3 = Some ''_BYTE_ORDER''" "lookup ''__LITTLE_ENDIAN'' ?s3 = Some ''_LITTLE_ENDIAN''"
      using apple [of ?s2] skip [of ?s2] free [of ?s1] bsd same [of "''__APPLE__''"] same [of "''__FreeBSD__''"]
      by auto
  qed
  define m where "m = byte_order_sources sys ! 5"
  have m: "keeps (lookup x) m"
    if "x \<in> {''__BYTE_ORDER'', ''__LITTLE_ENDIAN'', ''_BYTE_ORDER'', ''_LITTLE_ENDIAN'', ''__CYGWIN__'', ''CONFIG_NATIVE_WINDOWS''}" for x
    using that by (elim insertE) (simp_all add: m_def blocks)
  have nowin: "\<not> is_defined ''CONFIG_NATIVE_WINDOWS'' s" "\<not> is_defined ''__CYGWIN__'' s"
    using no(2) by (simp_all add: windows_def)
  then have "run e ?s3 = m ?s3"
    using same(3) [of "''CONFIG_TI_COMPILER''"] same(3) [of "''CONFIG_NATIVE_WINDOWS''"] no(1)
    by (simp add: e_def m_def byte_order_sources_def run_simps conditional_known)
  then have t: "run (byte_order_sources sys) s = m ?s3" by (simp add: all run_append run_simps)
  have look: "lookup ''__BYTE_ORDER'' (m ?s3) = Some ''_BYTE_ORDER''" "lookup ''__LITTLE_ENDIAN'' (m ?s3) = Some ''_LITTLE_ENDIAN''"
    "lookup ''_BYTE_ORDER'' (m ?s3) = None" "lookup ''_LITTLE_ENDIAN'' (m ?s3) = None" "\<not> windows (m ?s3)"
    using defs free nowin m same(3) [of "''_BYTE_ORDER''"] same(3) [of "''_LITTLE_ENDIAN''"]
      same(3) [of "''__CYGWIN__''"] same(3) [of "''CONFIG_NATIVE_WINDOWS''"]
    by (simp_all add: keepsD windows_def is_defined_def)
  then have "run byte_order_fallback (m ?s3) = m ?s3"
    by (simp add: byte_order_fallback_def run_simps conditional_known is_defined_def)
  moreover have "expand (macros (m ?s3)) ''__BYTE_ORDER'' = ''_BYTE_ORDER''"
    "expand (macros (m ?s3)) ''__LITTLE_ENDIAN'' = ''_LITTLE_ENDIAN''"
    using look by (simp_all add: lookup_def expand_once)
  ultimately show ?thesis using look(5) unfolding t by (simp add: chosen_order_def numbers)
qed

text \<open>
  The block for Windows leaves out \<^verbatim>\<open>host_to_le32\<close> and all macros for 64 bits, which every other build has.
\<close>

theorem windows_macros_missing:
  assumes "windows s" and "x \<in> {''host_to_le32'', ''le_to_host64'', ''host_to_le64'', ''be_to_host64'', ''host_to_be64''}"
    and "\<not> is_defined x s"
  shows "\<not> is_defined x (swapped s)"
proof -
  have "list_all (keeps (lookup x)) windows_macros"
    using assms(2) by (elim insertE) (simp_all add: windows_macros_def frame_simps)
  then show ?thesis using assms by (simp add: swapped_def windows_way is_defined_def run_frame)
qed

theorem other_macros_complete:
  assumes "\<not> windows s" and "\<not> is_defined ''WPA_BYTE_SWAP_DEFINED'' s" and "chosen_order s = Some bo"
  shows "other_macros bo (swapped s) m k"
proof -
  have kept: "other_macros b (hash_define ''WPA_BYTE_SWAP_DEFINED'' '''' t) m k = other_macros b t m k" for b t
    by (rule macros_kept) (simp add: lookup_define)
  show ?thesis using assms(3) macros_of_blocks(2,4)
    by (cases bo) (simp_all add: swapped_def other_way [OF assms(1,2)] kept)
qed

section \<open>The integer types\<close>

text \<open>What \<^verbatim>\<open>integer_types\<close> adds to the types, by the platform macros that are defined.\<close>

definition types_of :: "string \<Rightarrow> pp \<Rightarrow> string list" where
  "types_of t s = map snd (filter (\<lambda>(new, old). new = t) (typedefs s))"

text \<open>The types a platform's compiler documents, with their widths.\<close>

definition documented :: "(string \<Rightarrow> nat) \<Rightarrow> bool" where
  "documented bits \<longleftrightarrow>
     list_all (\<lambda>(t, n). bits t = n)
       [(''UINT64'', 64), (''UINT32'', 32), (''UINT16'', 16), (''UINT8'', 8), (''unsigned long long'', 64),
        (''unsigned int'', 32), (''unsigned short'', 16), (''unsigned char'', 8),
        (''uint64_t'', 64), (''uint32_t'', 32), (''uint16_t'', 16), (''uint8_t'', 8)]"

definition named_width :: "(string \<times> nat) list" where
  "named_width = [(''u8'', 8), (''u16'', 16), (''u32'', 32), (''u64'', 64)]"

lemma integer_typedefs:
  assumes "typedefs s = []" and "\<not> is_defined ''WPA_TYPES_DEFINED'' s"
    and "list_all (sys_keeps sys) [''__vxworks'', ''CONFIG_TI_COMPILER'', ''_LLONG_AVAILABLE'', ''WPA_TYPES_DEFINED'']"
  shows "typedefs (run (integer_types sys) s) =
    (if is_defined ''_MSC_VER'' s
     then [(''u64'', ''UINT64''), (''u32'', ''UINT32''), (''u16'', ''UINT16''), (''u8'', ''UINT8''),
       (''s64'', ''INT64''), (''s32'', ''INT32''), (''s16'', ''INT16''), (''s8'', ''INT8'')] else []) @
    (if is_defined ''__vxworks'' s
     then [(''u64'', ''unsigned long long''), (''u32'', ''UINT32''), (''u16'', ''UINT16''), (''u8'', ''UINT8''),
       (''s64'', ''long long''), (''s32'', ''INT32''), (''s16'', ''INT16''), (''s8'', ''INT8'')] else []) @
    (if is_defined ''CONFIG_TI_COMPILER'' s
     then [(''u64'', if is_defined ''_LLONG_AVAILABLE'' s then ''unsigned long long'' else ''unsigned long''),
       (''u32'', ''unsigned int''), (''u16'', ''unsigned short''), (''u8'', ''unsigned char'')] else []) @
    (if is_defined ''_MSC_VER'' s \<or> is_defined ''__vxworks'' s \<or> is_defined ''CONFIG_TI_COMPILER'' s then []
     else [(''u64'', ''uint64_t''), (''u32'', ''uint32_t''), (''u16'', ''uint16_t''), (''u8'', ''uint8_t''),
       (''s64'', ''int64_t''), (''s32'', ''int32_t''), (''s16'', ''int16_t''), (''s8'', ''int8_t'')])"
  using assms
  by (cases "is_defined ''_MSC_VER'' s"; cases "is_defined ''__vxworks'' s"; cases "is_defined ''CONFIG_TI_COMPILER'' s";
      cases "is_defined ''_LLONG_AVAILABLE'' s"; cases "is_defined ''CONFIG_USE_INTTYPES_H'' s")
    (simp_all add: integer_types_def run_simps conditional_cases is_defined_def lookup_define lookup_system step_simps)

text \<open>
  If the macros name one platform at most, every unsigned type is defined, and once. It has the width of its
  name, given the widths documented for the types of the platform, but for \<^verbatim>\<open>u64\<close> of the TI compiler without
  \<^verbatim>\<open>long long\<close>, which is a \<^verbatim>\<open>long\<close>.
\<close>

theorem integer_types_defined:
  assumes fresh: "typedefs s = []" "\<not> is_defined ''WPA_TYPES_DEFINED'' s"
    and sys: "list_all (sys_keeps sys) [''__vxworks'', ''CONFIG_TI_COMPILER'', ''_LLONG_AVAILABLE'', ''WPA_TYPES_DEFINED'']"
    and one: "length (filter (\<lambda>x. is_defined x s) [''_MSC_VER'', ''__vxworks'', ''CONFIG_TI_COMPILER'']) \<le> 1"
    and t: "(t, n) \<in> set named_width" and "documented bits"
  shows "\<exists>old. types_of t (run (integer_types sys) s) = [old] \<and>
    (bits old = n \<or> t = ''u64'' \<and> old = ''unsigned long'' \<and> is_defined ''CONFIG_TI_COMPILER'' s \<and>
       \<not> is_defined ''_LLONG_AVAILABLE'' s)"
  using integer_typedefs [OF fresh sys] one t assms(6) unfolding named_width_def documented_def
  by (cases "is_defined ''_MSC_VER'' s"; cases "is_defined ''__vxworks'' s"; cases "is_defined ''CONFIG_TI_COMPILER'' s";
      simp add: types_of_def; elim disjE conjE; simp)

end
