(* ===== verification/Spec2Isabelle.thy ===== *)
theory Spec2Isabelle
  imports Prelude Bytes Os_Time Os_Unix Ctrl_Socket Ctrl_Open Ctrl_Android
    Ctrl_Udp Ctrl_Pipe Wpabuf Port Relay
    Program Output Os_Trace Os_Process Codec Events
    Client Chunks System Mac_Text Repo_Tests
    Cpp Headers Common_H Debug Build Names Platform
begin

text \<open>
  A verification development for wpa\_supplicant.ex: the port program \<^verbatim>\<open>src/src/wpa_ex.c\<close> that an
  Erlang node starts to talk to wpa\_supplicant, the control interface library under
  \<^verbatim>\<open>src/src/wpa_ctrl\<close> it is linked with, and the Elixir modules under \<^verbatim>\<open>src/lib\<close> that are its
  client.

  The parts and how they interact. An Elixir caller gives a request to the server
  \<^verbatim>\<open>WpaSupplicant\<close>, which encodes it, sends it to its port, the C program, and keeps the caller in
  a queue; what comes back is decoded and goes to the first caller of the queue, or, if it is an
  event, to the event manager. On the other side of the port, Erlang writes commands, each behind a two-byte length, to the
  program's standard input. \<^verbatim>\<open>process_erl\<close> collects them in a buffer, and \<^verbatim>\<open>try_dispatch\<close> gives
  each complete one to \<^verbatim>\<open>wpa_ctrl_request\<close>, which sends it to the daemon as a datagram and waits
  for the reply. Datagrams that begin with \<^verbatim>\<open><\<close> are events the daemon sends on its own; those
  that come while a reply is awaited go through the callback, the others are fetched by
  \<^verbatim>\<open>process_wpa\<close>. Replies and events alike leave the standard output as frames. \<^verbatim>\<open>main\<close> opens the
  connection, attaches to the events and alternates between the two handlers as \<^verbatim>\<open>poll\<close> says.

  How code becomes definitions. A C function is a function on an explicit state that gives an
  \<^verbatim>\<open>outcome\<close>: \<open>Ret\<close> a value, \<open>Exit\<close> of the process, \<open>Blocked\<close> in a call that never returns, or
  \<open>Fault\<close>, an access outside an object or a read of a variable without a value. Buffers are lists
  that are read and written through \<open>mem_read\<close> and \<open>mem_write\<close>, which fail out of bounds. The
  kernel and the other processes are lists of answers to successive calls kept in the state, so
  that a theorem about every state is a theorem about everything they may do; what the library
  calls from outside the repository and that has no such form is an argument. Where C computes
  modulo a power of two and it matters, values are machine words; lengths that are bounded by the
  size of a buffer are natural numbers, and the bytes of a length field are those of a 16-bit word.

  The theories.

  \<^item> \<^verbatim>\<open>Prelude\<close>: types, outcomes, bounded memory, C strings, decimal printing, and the locale
    \<open>message_code\<close>, the contract of a way to write messages one after the other so that a reader can
    tell them apart; it is interpreted for the frames of the port and for the lines of a status.
  \<^item> \<^verbatim>\<open>Bytes\<close> (\<^verbatim>\<open>common.h\<close>): accessors for integers in byte arrays, byte swaps, host order, address
    tests. The contract of an accessor pair is the locale \<open>word_codec\<close>, interpreted on all seven
    pairs; round trips both ways, agreement of the two kinds of byte swap.
  \<^item> \<^verbatim>\<open>Os_Time\<close> (\<^verbatim>\<open>os.h\<close>, \<^verbatim>\<open>os_unix.c\<close>): \<^verbatim>\<open>os_get_reltime\<close> with its fall-back through three clocks,
    arithmetic on times, calendar conversion. Times are an instance of \<open>linorder\<close>, the order of the
    \<^verbatim>\<open>_before\<close> helpers.
  \<^item> \<^verbatim>\<open>Os_Unix\<close> (\<^verbatim>\<open>os_unix.c\<close>, \<^verbatim>\<open>os.h\<close>): \<^verbatim>\<open>os_strlcpy\<close> as its two pointer loops against what
    strlcpy(3) promises, allocation of arrays, and the functions that hold blocks and streams.
  \<^item> \<^verbatim>\<open>Os_Trace\<close> (\<^verbatim>\<open>os_unix.c\<close>): the allocator that keeps a list of its blocks (\<^verbatim>\<open>WPA_TRACE\<close>), as
    operations on a heap of headers and bytes. \<open>heap_ok\<close> is the type of that heap, the abstract
    allocator has blocks and bytes only, and each operation is proved to simulate its abstract
    counterpart; what a second \<^verbatim>\<open>os_free\<close> does and which leaks are reported. The C library's
    malloc is the argument \<open>lib\<close> with the hypothesis \<open>lib_ok\<close>: it gives no address in use.
  \<^item> \<^verbatim>\<open>Os_Process\<close> (\<^verbatim>\<open>os_unix.c\<close>): \<^verbatim>\<open>os_daemonize\<close> in its two builds, the process id file, the
    environment and the dropping of privileges.
  \<^item> \<^verbatim>\<open>Ctrl_Socket\<close> (\<^verbatim>\<open>wpa_ctrl.c\<close>): sending with retries, the receive loop, attach, detach, receive
    and poll. The abstract specification \<open>await_reply\<close> says what the loop does in terms of the
    datagrams alone; the locale \<open>message_callback\<close> is what a callback must keep to, and in it the
    loop with its buffer is proved to refine the specification. It is interpreted for the null
    pointer, for callbacks given by a function of the message, and in \<^verbatim>\<open>Port\<close> for \<^verbatim>\<open>send_to_erl\<close>.
  \<^item> \<^verbatim>\<open>Ctrl_Open\<close> (\<^verbatim>\<open>wpa_ctrl.c\<close>): opening and closing over UNIX sockets, with the descriptors, heap
    blocks and socket files that exist: when opening succeeds, what it leaves, that failing and
    closing release everything, and the one socket file a failure forgets.
  \<^item> \<^verbatim>\<open>Ctrl_Android\<close> (\<^verbatim>\<open>wpa_ctrl.c\<close>): the blocks of the Android build, which share everything up to the
    \<^verbatim>\<open>bind\<close> with \<open>open_bound\<close>, and the clean-up of the client directory.
  \<^item> \<^verbatim>\<open>Ctrl_Udp\<close>, \<^verbatim>\<open>Ctrl_Pipe\<close> (\<^verbatim>\<open>wpa_ctrl.c\<close>): the two other builds of the connection, the latter also for
    wide characters.
  \<^item> \<^verbatim>\<open>Wpabuf\<close> (\<^verbatim>\<open>wpabuf.h\<close>): the byte buffers; \<^verbatim>\<open>wpabuf_put\<close> is an argument with the hypothesis
    \<open>reserves\<close>.
  \<^item> \<^verbatim>\<open>Port\<close> (\<^verbatim>\<open>wpa_ex.c\<close>): state, framing, request dispatch and the two handlers; the parser
    \<open>packets\<close> is the specification of the stream, and \<open>dispatch_loop_refines\<close> and
    \<open>process_erl_refines\<close> show that the buffer with its memmove implements it.
  \<^item> \<^verbatim>\<open>Relay\<close> (\<^verbatim>\<open>wpa_ex.c\<close>): \<^verbatim>\<open>process_wpa\<close>, the loop of \<^verbatim>\<open>main\<close> as a step relation with its reachable
    states, the invariant \<open>relays\<close> of the whole run, memory safety, and that a daemon and a pipe
    that respond make the handlers return.
  \<^item> \<^verbatim>\<open>Chunks\<close> (\<^verbatim>\<open>wpa_ex.c\<close>): one read or many, the program does the same with the same bytes.
  \<^item> \<^verbatim>\<open>Program\<close> (\<^verbatim>\<open>wpa_ex.c\<close>): \<^verbatim>\<open>main\<close> from its argument check on.
  \<^item> \<^verbatim>\<open>Output\<close> (\<^verbatim>\<open>wpa_ex.c\<close>): what Erlang reads in any run, also one that ends within a frame.
  \<^item> \<^verbatim>\<open>Codec\<close> (\<^verbatim>\<open>encode.ex\<close>, \<^verbatim>\<open>decode.ex\<close>): the command texts and the parsing of replies and events,
    clause by clause, with the terms as a datatype; what an exception stops is an error value.
  \<^item> \<^verbatim>\<open>Events\<close> (\<^verbatim>\<open>wpa_ctrl.h\<close>): the texts of the events and the bits of a BSS mask, and what the
    decoder makes of each.
  \<^item> \<^verbatim>\<open>Client\<close> (\<^verbatim>\<open>wpa_supplicant.ex\<close>): the server's state and its handlers, and the functions for
    callers. \<open>replies_in_order\<close> says that reply number \<open>k\<close> answers request number \<open>k\<close>.
  \<^item> \<^verbatim>\<open>System\<close>: the server, the two pipes, the port program and the daemon together, as a step relation
    \<open>sys_step\<close> with the invariant \<open>sys_inv\<close>: every caller gets the reply to its own command however the
    steps interleave, a daemon that answers makes every caller get one, and what a silent daemon or
    a long command does to both programs.
  \<^item> \<^verbatim>\<open>Mac_Text\<close> (\<^verbatim>\<open>common.h\<close>): hardware addresses as text, and how the encoder takes them.
  \<^item> \<^verbatim>\<open>Repo_Tests\<close> (\<^verbatim>\<open>src/test\<close>): the repository's tests of the encoder and the decoder, evaluated on
    their models.

  \<^item> \<^verbatim>\<open>Cpp\<close>: the preprocessor, its directives as functions on a table of macros and on what a file declares and
    defines; \<open>keeps\<close> is the frame of a directive, so that a name is followed through a header without
    splitting its conditionals. What headers of the system do to the macros is the argument \<open>sys\<close>.
  \<^item> \<^verbatim>\<open>Headers\<close>, \<^verbatim>\<open>Common_H\<close>, \<^verbatim>\<open>Debug\<close>: the headers, conditional by conditional (\<^verbatim>\<open>build_config.h\<close>,
    \<^verbatim>\<open>includes.h\<close> and \<^verbatim>\<open>os.h\<close>; \<^verbatim>\<open>common.h\<close>; \<^verbatim>\<open>wpabuf.h\<close> and \<^verbatim>\<open>wpa_debug.h\<close>, with what the functions and macros
    of the last do).
  \<^item> \<^verbatim>\<open>Build\<close> (\<^verbatim>\<open>Makefile\<close>, the three C files): which functions each object file defines, and that the
    program links exactly if one kind of connection is asked for.
  \<^item> \<^verbatim>\<open>Names\<close> (\<^verbatim>\<open>os.h\<close>): what the \<^verbatim>\<open>os_\<close> wrappers stand for in each build.
  \<^item> \<^verbatim>\<open>Platform\<close> (\<^verbatim>\<open>common.h\<close>): the byte order that is chosen, that the macros chosen for it agree with the
    accessors of \<^verbatim>\<open>Bytes\<close>, and the integer types of each platform.

  Bounds. Loops over answers end because each turn uses one up; a run that needs more answers than
  there are is \<open>Blocked\<close>, and the theorems that something returns say how many are needed.
  \<^verbatim>\<open>os_rel2abs_path\<close> doubles its buffer at most four times, \<^verbatim>\<open>bind\<close> is tried at most twice and
  \<^verbatim>\<open>CreateFile\<close> at most ten times, as the code has it; no fuel is used. The process id and the
  static counter are assumed to fit an \<^verbatim>\<open>int\<close>, which bounds the length of a socket's name.

  Not modelled. The types of prototypes, which hold no code; the headers of the system, of which only the effect
  on macros is a parameter; the printing functions that \<^verbatim>\<open>wpa_debug.h\<close> declares and whose bodies
  are not in the repository; the contents of a backtrace and
  the addresses in the tracing allocator's messages; signals other than through \<^verbatim>\<open>EINTR\<close>. Of the
  Elixir server, \<^verbatim>\<open>start_link\<close>, \<^verbatim>\<open>stop\<close> and \<^verbatim>\<open>event_manager\<close>, which only call the runtime, and the
  runtime itself: mailboxes are lists of messages in the order they are handled. Strings are lists
  of bytes, so what \<^verbatim>\<open>String\<close> does to text that is not ASCII is left out.
\<close>

end
